(* ===== verification/GoBase.thy ===== *)
theory GoBase
  imports Main "HOL-Library.Char_ord" "HOL-Library.List_Lexorder" "HOL-Library.Product_Lexorder"
    "HOL-Library.Sublist" "HOL-Library.Multiset" "HOL-Library.AList"
begin

text \<open>
  The part of Go and of its standard library that the rest of the development
  shares.

  \<^item> A Go \<open>string\<close> is a sequence of bytes; it is modelled by the type \<^typ>\<open>string\<close>,
    whose characters are bytes. The order of \<open>sort.Strings\<close> and of \<open><\<close> on strings is
    the lexicographic byte order, the order that \<open>List_Lexorder\<close> and
    \<open>Char_ord\<close> put on \<^typ>\<open>string\<close>.
  \<^item> A Go map is an association list with distinct keys. The order of the list is
    the order in which one \<open>range\<close> over the map visits the entries: Go leaves it
    unspecified, so a result that must not depend on it is stated for every
    permutation of the list.
  \<^item> \<open>strings.HasPrefix\<close>, \<open>strings.Split\<close>, \<open>strings.Join\<close>, \<open>strings.Trim*\<close> and
    \<open>range\<close> over a string are the functions below.
\<close>

named_theorems go_strings \<open>unfolding rules for the string operations\<close>

section \<open>Prefixes and suffixes\<close>

definition has_prefix :: "string \<Rightarrow> string \<Rightarrow> bool" where
  "has_prefix s p \<longleftrightarrow> prefix p s"

definition has_suffix :: "string \<Rightarrow> string \<Rightarrow> bool" where
  "has_suffix s p \<longleftrightarrow> suffix p s"

definition trim_prefix :: "string \<Rightarrow> string \<Rightarrow> string" where
  "trim_prefix s p = (if has_prefix s p then drop (length p) s else s)"

definition trim_suffix :: "string \<Rightarrow> string \<Rightarrow> string" where
  "trim_suffix s p = (if has_suffix s p then take (length s - length p) s else s)"

lemma has_prefix_iff: "has_prefix s p \<longleftrightarrow> (\<exists>t. s = p @ t)"
  by (auto simp: has_prefix_def prefix_def)

lemma has_suffix_iff: "has_suffix s p \<longleftrightarrow> (\<exists>t. s = t @ p)"
  by (auto simp: has_suffix_def suffix_def)

lemma has_prefix_code [code]:
  "has_prefix s p = (take (length p) s = p)"
  by (metis append_eq_conv_conj has_prefix_iff)

lemma has_suffix_code [code]:
  "has_suffix s p = (length p \<le> length s \<and> drop (length s - length p) s = p)"
  by (auto simp: has_suffix_iff) (metis append_take_drop_id)

lemma has_prefix_append [simp]: "has_prefix (p @ t) p"
  by (auto simp: has_prefix_iff)

lemma has_suffix_append [simp]: "has_suffix (t @ p) p"
  by (auto simp: has_suffix_iff)

lemma trim_prefix_append [simp]: "trim_prefix (p @ t) p = t"
  by (simp add: trim_prefix_def)

section \<open>Splitting and joining on a separator\<close>

text \<open>\<open>strings.Split(s, sep)\<close> for a one-byte separator, and \<open>strings.Join\<close>.\<close>

fun split_on :: "char \<Rightarrow> string \<Rightarrow> string list" where
  "split_on c [] = [[]]"
| "split_on c (x # xs) =
     (if x = c then [] # split_on c xs
      else (x # hd (split_on c xs)) # tl (split_on c xs))"

fun join :: "string \<Rightarrow> string list \<Rightarrow> string" where
  "join sep [] = []"
| "join sep [x] = x"
| "join sep (x # y # ys) = x @ sep @ join sep (y # ys)"

lemma split_on_not_Nil [simp]: "split_on c s \<noteq> []"
  by (cases s) auto

lemma split_on_code [code]:
  "split_on c [] = [[]]"
  "split_on c (x # xs) =
     (if x = c then [] # split_on c xs
      else case split_on c xs of [] \<Rightarrow> [[x]] | y # ys \<Rightarrow> (x # y) # ys)"
  by (auto split: list.split)

lemma join_Cons: "xs \<noteq> [] \<Longrightarrow> join sep (x # xs) = x @ sep @ join sep xs"
  by (cases xs) auto

lemma join_split [simp]: "join [c] (split_on c s) = s"
proof (induction s)
  case (Cons x xs)
  then show ?case
    by (cases "split_on c xs"; cases "tl (split_on c xs)") auto
qed simp

lemma split_on_no_sep: "c \<notin> set s \<Longrightarrow> split_on c s = [s]"
  by (induction s) auto

lemma split_on_sep_free: "x \<in> set (split_on c s) \<Longrightarrow> c \<notin> set x"
proof (induction s arbitrary: x)
  case (Cons a s)
  have "hd (split_on c s) \<in> set (split_on c s)"
    by simp
  with Cons show ?case
    by (auto split: if_splits dest: list.set_sel(2) [rotated])
qed simp

lemma split_on_append_sep: "split_on c (s @ c # t) = split_on c s @ split_on c t"
  by (induction s) auto

lemma split_on_inj: "split_on c s = split_on c t \<Longrightarrow> s = t"
  by (metis join_split)

lemma split_join:
  "xs \<noteq> [] \<Longrightarrow> \<forall>x \<in> set xs. c \<notin> set x \<Longrightarrow> split_on c (join [c] xs) = xs"
proof (induction "[c]" xs rule: join.induct)
  case (3 x y ys)
  then show ?case
    by (simp add: split_on_append_sep split_on_no_sep)
qed (auto simp: split_on_no_sep)

lemma join_append:
  "xs \<noteq> [] \<Longrightarrow> ys \<noteq> [] \<Longrightarrow> join sep (xs @ ys) = join sep xs @ sep @ join sep ys"
  by (induction sep xs rule: join.induct) (auto simp: join_Cons)


section \<open>White space and runes\<close>

text \<open>
  The UTF-8 encodings of the code points \<open>unicode.IsSpace\<close> accepts, which are
  what \<open>strings.TrimSpace\<close> strips at both ends. No one of them is a prefix or a
  suffix of another, so the order of the list does not matter.
\<close>

definition space_runes :: "string list" where
  "space_runes =
     map (\<lambda>bs. map char_of bs)
       ([[9], [10], [11], [12], [13], [32], [0xC2, 0x85], [0xC2, 0xA0], [0xE1, 0x9A, 0x80]]
        @ map (\<lambda>b. [0xE2, 0x80, b])
            [0x80, 0x81, 0x82, 0x83, 0x84, 0x85, 0x86, 0x87, 0x88, 0x89, 0x8A, 0xA8, 0xA9, 0xAF]
        @ [[0xE2, 0x81, 0x9F], [0xE3, 0x80, 0x80 :: nat]])"

lemma space_runes_code [code]:
  "space_runes =
     [[CHR 0x09], [CHR 0x0A], [CHR 0x0B], [CHR 0x0C],
      [CHR 0x0D], [CHR 0x20], [CHR 0xC2, CHR 0x85], [CHR 0xC2, CHR 0xA0],
      [CHR 0xE1, CHR 0x9A, CHR 0x80], [CHR 0xE2, CHR 0x80, CHR 0x80], [CHR 0xE2, CHR 0x80, CHR 0x81], [CHR 0xE2, CHR 0x80, CHR 0x82],
      [CHR 0xE2, CHR 0x80, CHR 0x83], [CHR 0xE2, CHR 0x80, CHR 0x84], [CHR 0xE2, CHR 0x80, CHR 0x85], [CHR 0xE2, CHR 0x80, CHR 0x86],
      [CHR 0xE2, CHR 0x80, CHR 0x87], [CHR 0xE2, CHR 0x80, CHR 0x88], [CHR 0xE2, CHR 0x80, CHR 0x89], [CHR 0xE2, CHR 0x80, CHR 0x8A],
      [CHR 0xE2, CHR 0x80, CHR 0xA8], [CHR 0xE2, CHR 0x80, CHR 0xA9], [CHR 0xE2, CHR 0x80, CHR 0xAF], [CHR 0xE2, CHR 0x81, CHR 0x9F],
      [CHR 0xE3, CHR 0x80, CHR 0x80]]"
  by code_simp

definition leading_space :: "string \<Rightarrow> nat" where
  "leading_space s = (case find (has_prefix s) space_runes of None \<Rightarrow> 0 | Some w \<Rightarrow> length w)"

definition trailing_space :: "string \<Rightarrow> nat" where
  "trailing_space s = (case find (has_suffix s) space_runes of None \<Rightarrow> 0 | Some w \<Rightarrow> length w)"

function trim_left_space :: "string \<Rightarrow> string" where
  "trim_left_space s =
     (if s = [] \<or> leading_space s = 0 then s else trim_left_space (drop (leading_space s) s))"
  by pat_completeness auto
termination
  by (relation "measure length") auto

function trim_right_space :: "string \<Rightarrow> string" where
  "trim_right_space s =
     (if s = [] \<or> trailing_space s = 0 then s
      else trim_right_space (take (length s - trailing_space s) s))"
  by pat_completeness auto
termination
  by (relation "measure length") auto

declare trim_left_space.simps [simp del] trim_right_space.simps [simp del]

definition trim_space :: "string \<Rightarrow> string" where
  "trim_space s = trim_right_space (trim_left_space s)"

text \<open>\<open>strings.TrimLeft\<close> and \<open>strings.Trim\<close> with a cutset of ASCII bytes.\<close>

definition trim_left :: "string \<Rightarrow> string \<Rightarrow> string" where
  "trim_left s cutset = dropWhile (\<lambda>c. c \<in> set cutset) s"

definition trim_cutset :: "string \<Rightarrow> string \<Rightarrow> string" where
  "trim_cutset s cutset = rev (dropWhile (\<lambda>c. c \<in> set cutset) (rev (trim_left s cutset)))"

definition byte :: "char \<Rightarrow> nat" where
  "byte c = of_char c"

definition cont_byte :: "char \<Rightarrow> bool" where
  "cont_byte c \<longleftrightarrow> 0x80 \<le> byte c \<and> byte c \<le> 0xBF"

text \<open>
  The width in bytes of the first rune of a string, as \<open>utf8.DecodeRuneInString\<close>
  reports it: an invalid encoding is one byte wide.
\<close>

fun rune_width :: "string \<Rightarrow> nat" where
  "rune_width [] = 0"
| "rune_width (b0 # s) =
     (let n = byte b0 in
      if n < 0xC2 \<or> 0xF4 < n then 1
      else (case s of [] \<Rightarrow> 1 | b1 # s1 \<Rightarrow>
        if n \<le> 0xDF then (if cont_byte b1 then 2 else 1)
        else if \<not> (cont_byte b1
               \<and> (n = 0xE0 \<longrightarrow> 0xA0 \<le> byte b1) \<and> (n = 0xED \<longrightarrow> byte b1 \<le> 0x9F)
               \<and> (n = 0xF0 \<longrightarrow> 0x90 \<le> byte b1) \<and> (n = 0xF4 \<longrightarrow> byte b1 \<le> 0x8F)) then 1
        else (case s1 of [] \<Rightarrow> 1 | b2 # s2 \<Rightarrow>
          if \<not> cont_byte b2 then 1
          else if n \<le> 0xEF then 3
          else (case s2 of [] \<Rightarrow> 1 | b3 # s3 \<Rightarrow> if cont_byte b3 then 4 else 1))))"

lemma rune_width_pos [simp]: "s \<noteq> [] \<Longrightarrow> 0 < rune_width s"
  by (cases s) (auto simp: Let_def split: list.splits)

lemma rune_width_ascii [simp]: "byte c < 0x80 \<Longrightarrow> rune_width (c # s) = 1"
  by (simp add: Let_def)

text \<open>\<open>for _, r := range s\<close> visits the runes of \<open>s\<close>; each is given by its bytes.\<close>

function runes :: "string \<Rightarrow> string list" where
  "runes s = (if s = [] then [] else take (rune_width s) s # runes (drop (rune_width s) s))"
  by pat_completeness auto
termination
  by (relation "measure length") auto

declare runes.simps [simp del]

lemma runes_Nil [simp]: "runes [] = []"
  by (simp add: runes.simps)

lemma concat_runes [simp]: "concat (runes s) = s"
proof (induction s rule: runes.induct)
  case (1 s)
  then show ?case
    by (cases "s = []") (simp_all add: runes.simps [of s])
qed

lemma runes_ne: "[] \<notin> set (runes s)"
proof (induction s rule: runes.induct)
  case (1 s)
  show ?case
  proof (cases "s = []")
    case False
    then have "take (rune_width s) s \<noteq> []"
      using rune_width_pos [OF False] by (metis less_numeral_extra(3) take_eq_Nil)
    with 1 False show ?thesis
      by (simp add: runes.simps [of s])
  qed simp
qed

lemma runes_eq_Nil_iff [simp]: "runes s = [] \<longleftrightarrow> s = []"
  by (simp add: runes.simps [of s])

lemma runes_ascii:
  "\<forall>c \<in> set s. byte c < 0x80 \<Longrightarrow> runes s = map (\<lambda>c. [c]) s"
proof (induction s)
  case (Cons c s)
  then show ?case
    by (simp add: runes.simps [of "c # s"])
qed simp

section \<open>Trimming\<close>

lemma find_Some_in: "find P xs = Some x \<Longrightarrow> x \<in> set xs \<and> P x"
  by (induction xs) (auto split: if_splits)

lemma space_runes_ne: "w \<in> set space_runes \<Longrightarrow> w \<noteq> []"
  by (auto simp: space_runes_def)

lemma leading_space_le: "leading_space s \<le> length s"
  by (auto simp: leading_space_def has_prefix_def dest!: find_Some_in split: option.splits
      dest: prefix_length_le)

lemma leading_space_0_iff: "leading_space s = 0 \<longleftrightarrow> (\<forall>w \<in> set space_runes. \<not> has_prefix s w)"
  by (auto simp: leading_space_def find_None_iff split: option.splits
      dest!: find_Some_in dest: space_runes_ne)

lemma trailing_space_0_iff: "trailing_space s = 0 \<longleftrightarrow> (\<forall>w \<in> set space_runes. \<not> has_suffix s w)"
  by (auto simp: trailing_space_def find_None_iff split: option.splits
      dest!: find_Some_in dest: space_runes_ne)

lemma trim_space_id: "leading_space s = 0 \<Longrightarrow> trailing_space s = 0 \<Longrightarrow> trim_space s = s"
  by (simp add: trim_space_def trim_left_space.simps [of s] trim_right_space.simps [of s])

lemma trim_left_space_Nil [simp]: "trim_left_space [] = []"
  by (simp add: trim_left_space.simps)

lemma trim_right_space_Nil [simp]: "trim_right_space [] = []"
  by (simp add: trim_right_space.simps)

lemma trim_space_Nil [simp]: "trim_space [] = []"
  by (simp add: trim_space_def)

lemma trim_right_space_prefix: "prefix (trim_right_space s) s"
proof (induction s rule: trim_right_space.induct)
  case (1 s)
  show ?case
  proof (cases "s = [] \<or> trailing_space s = 0")
    case True
    then show ?thesis by (simp add: trim_right_space.simps [of s])
  next
    case False
    with 1 show ?thesis
      by (simp add: trim_right_space.simps [of s]) (meson prefix_order.trans take_is_prefix)
  qed
qed

lemma trim_left_space_suffix: "suffix (trim_left_space s) s"
proof (induction s rule: trim_left_space.induct)
  case (1 s)
  show ?case
  proof (cases "s = [] \<or> leading_space s = 0")
    case True
    then show ?thesis by (simp add: trim_left_space.simps [of s])
  next
    case False
    with 1 show ?thesis
      by (simp add: trim_left_space.simps [of s]) (meson suffix_order.trans suffix_drop)
  qed
qed

lemma trim_left_space_leading: "trim_left_space s \<noteq> [] \<Longrightarrow> leading_space (trim_left_space s) = 0"
proof (induction s rule: trim_left_space.induct)
  case (1 s)
  then show ?case
    by (cases "s = [] \<or> leading_space s = 0") (auto simp: trim_left_space.simps [of s])
qed

lemma trim_right_space_trailing: "trim_right_space s \<noteq> [] \<Longrightarrow> trailing_space (trim_right_space s) = 0"
proof (induction s rule: trim_right_space.induct)
  case (1 s)
  then show ?case
    by (cases "s = [] \<or> trailing_space s = 0") (auto simp: trim_right_space.simps [of s])
qed

lemma has_prefix_mono: "prefix s t \<Longrightarrow> has_prefix s w \<Longrightarrow> has_prefix t w"
  by (auto simp: has_prefix_def intro: prefix_order.trans)

lemma trim_space_leading: "leading_space (trim_space s) = 0"
proof (cases "trim_left_space s = []")
  case True
  then show ?thesis
    by (auto simp: trim_space_def leading_space_0_iff has_prefix_def
        dest: space_runes_ne)
next
  case False
  then show ?thesis
    using trim_left_space_leading [OF False] has_prefix_mono [OF trim_right_space_prefix]
    by (auto simp: trim_space_def leading_space_0_iff)
qed

lemma trim_space_trailing: "trailing_space (trim_space s) = 0"
proof (cases "trim_space s = []")
  case True
  then show ?thesis
    by (auto simp: trailing_space_0_iff has_suffix_def dest: space_runes_ne)
next
  case False
  then show ?thesis
    by (simp add: trim_space_def trim_right_space_trailing)
qed

lemma trim_space_idem [simp]: "trim_space (trim_space s) = trim_space s"
  by (rule trim_space_id) (rule trim_space_leading trim_space_trailing)+

lemma trim_space_sublist: "set (trim_space s) \<subseteq> set s"
  by (metis set_mono_prefix set_mono_suffix subset_trans trim_left_space_suffix
      trim_right_space_prefix trim_space_def)

section \<open>Maps as association lists\<close>

type_synonym ('k, 'v) gomap = "('k \<times> 'v) list"

abbreviation keys :: "('k, 'v) gomap \<Rightarrow> 'k list" where
  "keys m \<equiv> map fst m"

definition wf_map :: "('k, 'v) gomap \<Rightarrow> bool" where
  "wf_map m \<longleftrightarrow> distinct (keys m)"

text \<open>Two association lists are the same Go map when one is a permutation of the other.\<close>

definition same_map :: "('k, 'v) gomap \<Rightarrow> ('k, 'v) gomap \<Rightarrow> bool" where
  "same_map m m' \<longleftrightarrow> mset m = mset m'"

lemma wf_map_Nil [simp]: "wf_map []"
  by (simp add: wf_map_def)

lemma wf_map_distinct: "wf_map m \<Longrightarrow> distinct m"
  by (simp add: wf_map_def distinct_map)

lemma wf_map_filter: "wf_map m \<Longrightarrow> wf_map (filter P m)"
  by (auto simp: wf_map_def distinct_map_filter)

lemma same_map_wf: "same_map m m' \<Longrightarrow> wf_map m \<Longrightarrow> wf_map m'"
  by (metis mset_eq_imp_distinct_iff mset_map same_map_def wf_map_def)

lemma same_map_set: "same_map m m' \<Longrightarrow> set m = set m'"
  by (metis mset_eq_setD same_map_def)

lemma map_of_in_set: "wf_map m \<Longrightarrow> map_of m k = Some v \<longleftrightarrow> (k, v) \<in> set m"
  by (simp add: map_of_eq_Some_iff wf_map_def)

lemma same_map_of: "same_map m m' \<Longrightarrow> wf_map m \<Longrightarrow> map_of m = map_of m'"
  by (metis mset_eq_setD map_of_eqI mset_map same_map_def same_map_set same_map_wf
      map_of_inject_set set_map wf_map_def)

lemma wf_map_update: "wf_map m \<Longrightarrow> wf_map (AList.update k v m)"
  by (simp add: wf_map_def distinct_update)

lemma update_fresh: "k \<notin> set (keys m) \<Longrightarrow> AList.update k v m = m @ [(k, v)]"
  by (induction m) auto

lemma keys_update: "fst ` set (AList.update k v m) = insert k (fst ` set m)"
  by (induction m) auto

lemma set_update_subset: "set (AList.update k v m) \<subseteq> insert (k, v) (set m)"
  by (induction m) auto

lemma set_update_wf:
  "wf_map m \<Longrightarrow> set (AList.update k v m) = insert (k, v) {e \<in> set m. fst e \<noteq> k}"
  by (induction m) (force simp: wf_map_def)+

lemma the_map_of_key: "wf_map m \<Longrightarrow> k \<in> set (keys m) \<Longrightarrow> (k, the (map_of m k)) \<in> set m"
  by (metis map_of_eq_None_iff map_of_SomeD option.exhaust_sel set_map)

lemma the_map_of_entry: "wf_map m \<Longrightarrow> (k, v) \<in> set m \<Longrightarrow> the (map_of m k) = v"
  by (simp add: map_of_in_set [THEN iffD2])

lemma set_map_the:
  assumes "wf_map m"
  shows "(\<lambda>k. f (the (map_of m k))) ` set (keys m) = (\<lambda>(k, v). f v) ` set m"
  using the_map_of_entry [OF assms] by (auto simp: image_image intro!: image_cong)

text \<open>A loop that stores one entry per element, with distinct keys, stores them all.\<close>

lemma foldl_update_distinct:
  assumes "distinct (map f xs)"
  shows "foldl (\<lambda>m e. AList.update (f e) (g e) m) [] xs = map (\<lambda>e. (f e, g e)) xs"
proof -
  have "distinct (keys m @ map f xs) \<Longrightarrow>
      foldl (\<lambda>m e. AList.update (f e) (g e) m) m xs = m @ map (\<lambda>e. (f e, g e)) xs" for m
    by (induction xs arbitrary: m) (auto simp: update_fresh)
  from this [of "[]"] assms show ?thesis by simp
qed

text \<open>A read of an absent key gives the zero value of the map's element type.\<close>

definition get_or :: "'v \<Rightarrow> ('k, 'v) gomap \<Rightarrow> 'k \<Rightarrow> 'v" where
  "get_or zero m k = (case map_of m k of None \<Rightarrow> zero | Some v \<Rightarrow> v)"

lemma get_or_Nil [simp]: "get_or z [] k = z"
  by (simp add: get_or_def)

lemma get_or_update: "get_or z (AList.update k v m) k' = (if k' = k then v else get_or z m k')"
  by (simp add: get_or_def update_conv')

lemma get_or_in: "wf_map m \<Longrightarrow> (k, v) \<in> set m \<Longrightarrow> get_or z m k = v"
  by (simp add: get_or_def map_of_in_set [THEN iffD2])

text \<open>Appending to the list under a key, as in \<open>m[k] = append(m[k], v)\<close>, adds one value.\<close>

lemma mset_append_entry:
  "mset (concat (map snd (AList.update k (get_or [] m k @ [v]) m))) = add_mset v (mset (concat (map snd m)))"
  by (induction m) (auto simp: get_or_def)

text \<open>
  A map from keys to sets, filled one value at a time (\<open>m[k][w] = true\<close>, the inner map
  made on first use); the inner map is the list of its keys.
\<close>

definition add_to_set :: "'k \<Rightarrow> 'w \<Rightarrow> ('k, 'w list) gomap \<Rightarrow> ('k, 'w list) gomap" where
  "add_to_set k w m = AList.update k (List.insert w (get_or [] m k)) m"

lemma foldl_nested:
  "foldl (\<lambda>m x. foldl f m (g x)) m xs = foldl f m (concat (map g xs))"
  by (induction xs arbitrary: m) auto

lemma foldl_skip:
  "foldl (\<lambda>m x. if P x then f m x else m) m xs = foldl f m (filter P xs)"
  by (induction xs arbitrary: m) auto

lemma get_or_add_to_set:
  "get_or [] (add_to_set k w m) k' = (if k' = k then List.insert w (get_or [] m k) else get_or [] m k')"
  by (simp add: add_to_set_def get_or_update)

lemma wf_add_to_set: "wf_map m \<Longrightarrow> wf_map (add_to_set k w m)"
  by (simp add: add_to_set_def wf_map_update)

lemma keys_add_to_set: "set (keys (add_to_set k w m)) = insert k (set (keys m))"
  by (simp add: add_to_set_def dom_update)

lemma wf_add_to_set_fold: "wf_map m \<Longrightarrow> wf_map (foldl (\<lambda>m (k, w). add_to_set k w m) m xs)"
  by (induction xs arbitrary: m) (auto simp: wf_add_to_set)

lemma get_or_add_to_set_fold:
  "set (get_or [] (foldl (\<lambda>m (k, w). add_to_set k w m) m xs) k) = set (get_or [] m k) \<union> {w. (k, w) \<in> set xs}"
  by (induction xs arbitrary: m) (auto simp: get_or_add_to_set split: if_splits)

lemma distinct_add_to_set_fold:
  "distinct (get_or [] m k) \<Longrightarrow> distinct (get_or [] (foldl (\<lambda>m (k, w). add_to_set k w m) m xs) k)"
proof (induction xs arbitrary: m)
  case (Cons e xs)
  have "distinct (get_or [] (add_to_set (fst e) (snd e) m) k)"
    using Cons.prems by (auto simp: get_or_add_to_set)
  with Cons.IH show ?case
    by (simp add: case_prod_unfold)
qed simp

lemma keys_add_to_set_fold:
  "set (keys (foldl (\<lambda>m (k, w). add_to_set k w m) m xs)) = set (keys m) \<union> fst ` set xs"
proof (induction xs arbitrary: m)
  case (Cons e xs)
  then show ?case
    by (cases e) (simp only: foldl_Cons case_prod_conv keys_add_to_set, auto)
qed simp

lemma add_to_set_entry:
  assumes "(k, l) \<in> set (foldl (\<lambda>m (k, w). add_to_set k w m) [] xs)"
  shows "set l = {w. (k, w) \<in> set xs}" and "distinct l" and "l \<noteq> []"
proof -
  let ?m = "foldl (\<lambda>m (k, w). add_to_set k w m) [] xs"
  have l: "get_or [] ?m k = l"
    using get_or_in [OF wf_add_to_set_fold [OF wf_map_Nil] assms] .
  show set: "set l = {w. (k, w) \<in> set xs}" and "distinct l"
    using get_or_add_to_set_fold [of "[]" xs k] distinct_add_to_set_fold [of "[]" k xs] l
    by simp_all
  have "k \<in> set (keys ?m)"
    using assms by force
  then have "k \<in> fst ` set xs"
    using keys_add_to_set_fold [of "[]" xs] by simp
  with set show "l \<noteq> []"
    by auto
qed

lemma add_to_set_key:
  assumes "(k, w) \<in> set xs"
  shows "\<exists>l. (k, l) \<in> set (foldl (\<lambda>m (k, w). add_to_set k w m) [] xs)"
proof -
  have "k \<in> set (keys (foldl (\<lambda>m (k, w). add_to_set k w m) [] xs))"
    unfolding keys_add_to_set_fold using assms by force
  then show ?thesis by auto
qed

lemma same_map_filter: "same_map m m' \<Longrightarrow> same_map (filter P m) (filter P m')"
  by (simp add: same_map_def)

lemma same_map_map: "same_map m m' \<Longrightarrow> mset (map f m) = mset (map f m')"
  by (simp add: same_map_def)

lemma same_map_sym: "same_map m m' \<Longrightarrow> same_map m' m"
  by (simp add: same_map_def)

section \<open>Sorting\<close>

text \<open>
  \<open>sort.Strings\<close> is \<^const>\<open>sort\<close>: the order on strings is linear, so the sorted
  list of given strings is unique and the algorithm's stability plays no part.
\<close>

lemma sort_mset_eq: "mset xs = mset ys \<Longrightarrow> sort xs = sort (ys :: 'a :: linorder list)"
  by (metis properties_for_sort mset_sort sorted_sort)

lemma sort_key_Nil_iff [simp]: "sort_key f xs = [] \<longleftrightarrow> xs = []"
  by (metis length_0_conv length_sort)

lemma distinct_map_sort_key: "distinct (map f (sort_key g xs)) = distinct (map f xs)"
  by (intro mset_eq_imp_distinct_iff) simp

lemma sort_same_map: "same_map m m' \<Longrightarrow> sort (map f m) = sort (map f m')"
  by (intro sort_mset_eq same_map_map)

lemma sort_set_eq:
  "distinct xs \<Longrightarrow> distinct ys \<Longrightarrow> set xs = set ys \<Longrightarrow> sort xs = sort (ys :: 'a :: linorder list)"
  by (metis set_eq_iff_mset_eq_distinct sort_mset_eq)

end
