(* ===== verification/GoPath.thy ===== *)
theory GoPath
  imports GoBase
begin

text \<open>
  The functions of \<open>path/filepath\<close> the program calls (Unix rules): \<open>Clean\<close>, \<open>Join\<close>,
  \<open>Dir\<close>, \<open>Base\<close>, \<open>Ext\<close>, \<open>IsAbs\<close> and \<open>Match\<close>, and the ancestor relation on
  slash-separated paths that every brick check is built on
  (\<open>strings.HasPrefix(p, q+"/")\<close>), with the locale of its laws.
\<close>

abbreviation slash :: char where
  "slash \<equiv> CHR ''/''"

section \<open>Clean, Join, Dir, Base, Ext\<close>

text \<open>
  \<open>filepath.Clean\<close> processes the components from left to right with the components
  kept so far as a stack: empty components and \<open>.\<close> are dropped, \<open>..\<close> removes the
  last kept component, is dropped at the root, and is kept where nothing is left to
  remove.
\<close>

fun clean_step :: "bool \<Rightarrow> string list \<Rightarrow> string \<Rightarrow> string list" where
  "clean_step rooted stack c =
     (if c = '''' \<or> c = ''.'' then stack
      else if c = ''..'' then
        (case stack of
           [] \<Rightarrow> if rooted then [] else [c]
         | up # rest \<Rightarrow> if up = ''..'' then c # stack else rest)
      else c # stack)"

definition clean_parts :: "bool \<Rightarrow> string list \<Rightarrow> string list" where
  "clean_parts rooted cs = rev (foldl (clean_step rooted) [] cs)"

definition fp_clean :: "string \<Rightarrow> string" where
  "fp_clean p =
     (if p = '''' then ''.''
      else let rooted = (hd p = slash);
               out = (if rooted then ''/'' else '''') @ join ''/'' (clean_parts rooted (split_on slash p))
           in if out = '''' then ''.'' else out)"

definition fp_join :: "string list \<Rightarrow> string" where
  "fp_join elems =
     (case dropWhile (\<lambda>e. e = '''') elems of [] \<Rightarrow> '''' | es \<Rightarrow> fp_clean (join ''/'' es))"

text \<open>\<open>filepath.Dir\<close>: everything up to and including the last slash, cleaned.\<close>

definition fp_dir :: "string \<Rightarrow> string" where
  "fp_dir p = fp_clean (rev (dropWhile (\<lambda>c. c \<noteq> slash) (rev p)))"

definition fp_base :: "string \<Rightarrow> string" where
  "fp_base p =
     (if p = '''' then ''.''
      else let q = rev (dropWhile (\<lambda>c. c = slash) (rev p));
               b = rev (takeWhile (\<lambda>c. c \<noteq> slash) (rev q))
           in if b = '''' then ''/'' else b)"

text \<open>\<open>filepath.Ext\<close>: the suffix from the last dot after the last slash, or nothing.\<close>

definition fp_ext :: "string \<Rightarrow> string" where
  "fp_ext p =
     (let b = rev (takeWhile (\<lambda>c. c \<noteq> slash) (rev p)) in
      if CHR ''.'' \<in> set b then CHR ''.'' # rev (takeWhile (\<lambda>c. c \<noteq> CHR ''.'') (rev b)) else '''')"

definition fp_is_abs :: "string \<Rightarrow> bool" where
  "fp_is_abs p = has_prefix p ''/''"

text \<open>A relative path is plain when it is already clean: no empty, \<open>.\<close> or \<open>..\<close> component.\<close>

definition plain_part :: "string \<Rightarrow> bool" where
  "plain_part c \<longleftrightarrow> c \<notin> {[], ''.'', ''..''} \<and> slash \<notin> set c"

definition plain_path :: "string \<Rightarrow> bool" where
  "plain_path p \<longleftrightarrow> list_all plain_part (split_on slash p)"

lemma plain_part_Nil [simp]: "\<not> plain_part []"
  by (simp add: plain_part_def)

lemma foldl_clean_plain:
  "list_all plain_part cs \<Longrightarrow> foldl (clean_step rooted) stack cs = rev cs @ stack"
proof (induction cs arbitrary: stack)
  case (Cons c cs)
  then have "clean_step rooted stack c = c # stack"
    by (simp add: plain_part_def)
  with Cons show ?case
    by (simp del: clean_step.simps)
qed simp

lemma clean_parts_plain: "list_all plain_part cs \<Longrightarrow> clean_parts rooted cs = cs"
  by (simp add: clean_parts_def foldl_clean_plain)

lemma clean_parts_split: "plain_path p \<Longrightarrow> clean_parts rooted (split_on slash p) = split_on slash p"
  by (simp add: clean_parts_plain plain_path_def)

lemma plain_path_ne: "plain_path p \<Longrightarrow> p \<noteq> []"
  by (auto simp: plain_path_def)

lemma plain_path_not_rooted: "plain_path p \<Longrightarrow> hd p \<noteq> slash"
  by (cases p) (auto simp: plain_path_def)

lemma fp_clean_plain:
  assumes "plain_path p"
  shows "fp_clean p = p"
proof -
  have "p \<noteq> ''''" and "hd p \<noteq> slash"
    using assms plain_path_ne plain_path_not_rooted by blast+
  moreover have "join ''/'' (clean_parts False (split_on slash p)) = p"
    using assms by (simp add: clean_parts_split)
  ultimately show ?thesis
    by (simp add: fp_clean_def Let_def)
qed

lemma plain_path_append: "plain_path (p @ slash # q) \<longleftrightarrow> plain_path p \<and> plain_path q"
  by (simp add: plain_path_def split_on_append_sep)

lemma plain_path_part: "slash \<notin> set c \<Longrightarrow> plain_path c \<longleftrightarrow> plain_part c"
  by (simp add: plain_path_def split_on_no_sep)

lemma fp_join_plain:
  assumes "cs \<noteq> []" and "\<forall>c \<in> set cs. plain_path c"
  shows "fp_join cs = join ''/'' cs"
proof -
  have ne: "\<forall>c \<in> set cs. c \<noteq> ''''"
    using assms(2) plain_path_ne by blast
  then have "dropWhile (\<lambda>e. e = '''') cs = cs"
    by (cases cs) auto
  moreover have "plain_path (join ''/'' cs)"
    using assms
  proof (induction cs rule: induct_list012)
    case (3 x y ys)
    then have "plain_path x" and "plain_path (join ''/'' (y # ys))"
      by simp_all
    then show ?case
      by (simp add: plain_path_append)
  qed auto
  ultimately show ?thesis
    using assms(1) by (auto simp: fp_join_def fp_clean_plain split: list.splits)
qed

lemma fp_base_last:
  assumes "last (split_on slash p) \<noteq> ''''"
  shows "fp_base p = last (split_on slash p)"
proof -
  have base: "rev (takeWhile (\<lambda>c. c \<noteq> slash) (rev q)) = last (split_on slash q)" for q
  proof (induction q)
    case (Cons a q)
    have "slash \<notin> set q" if "tl (split_on slash q) = []"
      using that split_on_sep_free [of _ slash q]
      by (metis join.simps(2) join_split list.collapse list.set_intros(1) split_on_not_Nil)
    moreover have "tl (split_on slash q) \<noteq> [] \<Longrightarrow> slash \<in> set q"
      by (metis list.sel(3) split_on_no_sep)
    ultimately show ?case
      using Cons by (cases "slash \<in> set q")
        (auto simp: takeWhile_append split_on_no_sep last_tl)
  qed simp
  have "p \<noteq> ''''"
    using assms by auto
  then have "rev p \<noteq> [] \<and> hd (rev p) \<noteq> slash"
    using base [of p] assms by (cases "rev p") auto
  then have "dropWhile (\<lambda>c. c = slash) (rev p) = rev p"
    by (cases "rev p") auto
  then show ?thesis
    using base assms \<open>p \<noteq> ''''\<close> by (simp add: fp_base_def)
qed

lemma fp_base_plain: "plain_path p \<Longrightarrow> fp_base p = last (split_on slash p)"
  by (rule fp_base_last) (metis last_in_set list_all_iff plain_part_Nil plain_path_def split_on_not_Nil)

section \<open>Walking up\<close>

text \<open>
  \<open>Clean\<close> never lengthens a non-empty path, and shortens one that ends in a slash; so
  the loop \<open>dir = filepath.Dir(dir)\<close> reaches a path that is its own parent.
\<close>

definition parts_len :: "string list \<Rightarrow> nat" where
  "parts_len cs = sum_list (map (\<lambda>c. Suc (length c)) cs)"

lemma parts_len_simps [simp]:
  "parts_len [] = 0" "parts_len (c # cs) = Suc (length c) + parts_len cs"
  "parts_len (xs @ ys) = parts_len xs + parts_len ys" "parts_len (rev cs) = parts_len cs"
  by (simp_all add: parts_len_def rev_map [symmetric] sum_list_rev)

lemma length_join: "cs \<noteq> [] \<Longrightarrow> Suc (length (join ''/'' cs)) = parts_len cs"
  by (induction "''/''" cs rule: join.induct) auto

lemma parts_len_split: "parts_len (split_on slash p) = Suc (length p)"
  using length_join [of "split_on slash p"] by simp

lemma clean_step_len: "c \<noteq> [] \<Longrightarrow> parts_len (clean_step rooted stack c) \<le> parts_len stack + Suc (length c)"
  by (auto split: list.splits)

lemma foldl_clean_len:
  "parts_len (foldl (clean_step rooted) stack cs) \<le> parts_len stack + parts_len (filter (\<lambda>c. c \<noteq> []) cs)"
proof (induction cs arbitrary: stack)
  case (Cons c cs)
  show ?case
  proof (cases "c = []")
    case False
    with Cons [of "clean_step rooted stack c"] clean_step_len [OF False, of rooted stack] show ?thesis
      by (simp del: clean_step.simps)
  qed (use Cons in simp)
qed simp

lemma clean_parts_len: "parts_len (clean_parts rooted cs) \<le> parts_len (filter (\<lambda>c. c \<noteq> []) cs)"
  using foldl_clean_len [of rooted "[]" cs] by (simp add: clean_parts_def)

lemma filter_len: "parts_len (filter P cs) + parts_len (filter (\<lambda>c. \<not> P c) cs) = parts_len cs"
  by (induction cs) auto

lemma fp_clean_cases:
  assumes "p \<noteq> []"
  shows "fp_clean p = ''.'' \<or> fp_clean p = ''/'' \<and> hd p = slash \<or>
    length (fp_clean p) + parts_len (filter (\<lambda>c. c = []) (split_on slash p)) \<le> length p + (if hd p = slash then 1 else 0)"
proof -
  define cs where "cs = clean_parts (hd p = slash) (split_on slash p)"
  have len: "parts_len cs + parts_len (filter (\<lambda>c. c = []) (split_on slash p)) \<le> Suc (length p)"
    using clean_parts_len [of "hd p = slash" "split_on slash p"]
      filter_len [of "\<lambda>c. c \<noteq> []" "split_on slash p"] parts_len_split [of p]
    by (simp add: cs_def)
  show ?thesis
  proof (cases "cs = []")
    case True
    then show ?thesis
      using assms by (simp add: fp_clean_def Let_def cs_def)
  next
    case False
    then have "Suc (length (join ''/'' cs)) = parts_len cs"
      by (rule length_join)
    with len assms show ?thesis
      by (auto simp: fp_clean_def Let_def cs_def [symmetric])
  qed
qed

lemma split_hd_slash: "p \<noteq> [] \<Longrightarrow> hd p = slash \<Longrightarrow> split_on slash p = [] # split_on slash (tl p)"
  by (cases p) auto

lemma fp_clean_slash_shorter: "length (fp_clean (q @ ''/'')) < Suc (length q) \<or> q = []"
proof (cases "q = []")
  case False
  have split: "split_on slash (q @ ''/'') = split_on slash q @ [[]]"
    by (simp add: split_on_append_sep)
  have hd: "hd (q @ ''/'') = hd q"
    using False by simp
  have "length (fp_clean (q @ ''/'')) \<le> length q"
    using fp_clean_cases [of "q @ ''/''"] False split_hd_slash [of q]
    unfolding split hd by (cases q) (auto split: if_splits)
  then show ?thesis by simp
qed simp

definition up_measure :: "string \<Rightarrow> nat" where
  "up_measure d = (if d = ''.'' then 0 else Suc (length d))"

lemma fp_dir_up:
  assumes "fp_dir d \<noteq> d"
  shows "up_measure (fp_dir d) < up_measure d"
proof (cases "slash \<in> set d")
  case False
  then have "dropWhile (\<lambda>c. c \<noteq> slash) (rev d) = []"
    by (simp add: dropWhile_eq_Nil_conv) blast
  then have "fp_dir d = ''.''"
    by (simp add: fp_dir_def fp_clean_def)
  with assms show ?thesis
    by (auto simp: up_measure_def)
next
  case True
  then obtain t q where "rev d = t @ slash # q" and "slash \<notin> set t"
    by (metis set_rev split_list_first)
  then have d: "d = rev q @ slash # rev t" and dir: "fp_dir d = fp_clean (rev q @ ''/'')"
    by (auto simp: fp_dir_def rev_swap dropWhile_append)
  consider "q = []" | "length (fp_clean (rev q @ ''/'')) < Suc (length q)"
    using fp_clean_slash_shorter [of "rev q"] by auto
  then show ?thesis
  proof cases
    case 1
    then have "fp_dir d = ''/''"
      by (simp add: dir fp_clean_def clean_parts_def)
    with assms d 1 show ?thesis
      by (cases t) (auto simp: up_measure_def)
  next
    case 2
    moreover have "d \<noteq> ''.''"
      using True by auto
    ultimately show ?thesis
      unfolding up_measure_def dir by (simp add: d)
  qed
qed

section \<open>Ancestors\<close>

text \<open>
  \<open>ancestor q p\<close>: the path \<open>p\<close> lies strictly below \<open>q\<close>, tested as the code does
  with \<open>strings.HasPrefix(p, q+"/")\<close>.
\<close>

definition ancestor :: "string \<Rightarrow> string \<Rightarrow> bool" where
  "ancestor q p \<longleftrightarrow> has_prefix p (q @ ''/'')"

text \<open>The test is the component-wise strict prefix relation.\<close>

lemma ancestor_split_iff: "ancestor q p \<longleftrightarrow> strict_prefix (split_on slash q) (split_on slash p)"
proof
  assume "ancestor q p"
  then obtain t where "p = q @ slash # t"
    by (auto simp: ancestor_def has_prefix_iff)
  then have "split_on slash p = split_on slash q @ split_on slash t"
    by (simp add: split_on_append_sep)
  then show "strict_prefix (split_on slash q) (split_on slash p)"
    by (simp add: strict_prefix_def)
next
  assume "strict_prefix (split_on slash q) (split_on slash p)"
  then obtain ts where ts: "split_on slash p = split_on slash q @ ts" "ts \<noteq> []"
    by (auto elim: strict_prefixE')
  have "p = join ''/'' (split_on slash q @ ts)"
    using ts(1) by (metis join_split)
  also have "\<dots> = q @ slash # join ''/'' ts"
    using ts(2) by (simp add: join_append)
  finally show "ancestor q p"
    by (auto simp: ancestor_def has_prefix_iff)
qed

text \<open>
  What the checks rely on: ancestry is a strict order in which the ancestors of one
  path form a chain, and an ancestor is a shorter string.
\<close>

locale ancestry =
  fixes anc :: "'p \<Rightarrow> 'p \<Rightarrow> bool" and depth :: "'p \<Rightarrow> nat"
  assumes anc_trans: "anc a b \<Longrightarrow> anc b c \<Longrightarrow> anc a c"
    and anc_depth: "anc a b \<Longrightarrow> depth a < depth b"
    and anc_chain: "anc a c \<Longrightarrow> anc b c \<Longrightarrow> a = b \<or> anc a b \<or> anc b a"
begin

lemma anc_irrefl: "\<not> anc a a"
  using anc_depth by blast

lemma anc_asym: "anc a b \<Longrightarrow> \<not> anc b a"
  using anc_depth less_asym by blast

text \<open>Among the ancestors of one path the order of depth is the order of ancestry.\<close>

lemma anc_by_depth: "anc a c \<Longrightarrow> anc b c \<Longrightarrow> depth a < depth b \<Longrightarrow> anc a b"
  using anc_chain anc_depth by (metis less_asym less_irrefl)

lemma anc_depth_inj: "anc a c \<Longrightarrow> anc b c \<Longrightarrow> depth a = depth b \<Longrightarrow> a = b"
  using anc_chain anc_depth by (metis less_irrefl)

end

interpretation path: ancestry ancestor length
proof
  show "ancestor a c" if "ancestor a b" "ancestor b c" for a b c
    using that unfolding ancestor_split_iff by (rule prefix_order.strict_trans)
  show "length a < length b" if "ancestor a b" for a b
    using that by (auto simp: ancestor_def has_prefix_iff)
  show "a = b \<or> ancestor a b \<or> ancestor b a" if "ancestor a c" "ancestor b c" for a b c
  proof -
    from that have "prefix (split_on slash a) (split_on slash c)"
      and "prefix (split_on slash b) (split_on slash c)"
      by (simp_all add: ancestor_split_iff strict_prefix_def)
    then have "prefix (split_on slash a) (split_on slash b) \<or> prefix (split_on slash b) (split_on slash a)"
      by (metis prefix_same_cases)
    then show ?thesis
      using split_on_inj unfolding ancestor_split_iff strict_prefix_def by blast
  qed
qed

section \<open>Chains of unmarked ancestors\<close>

text \<open>
  \<open>r\<close> is reached from \<open>p\<close> by walking up through the nodes without stepping on a
  marked one (\<open>p\<close> itself is not looked at).
\<close>

definition unmarked_chain ::
    "('p \<Rightarrow> 'p \<Rightarrow> bool) \<Rightarrow> 'p set \<Rightarrow> ('p \<Rightarrow> bool) \<Rightarrow> 'p \<Rightarrow> 'p \<Rightarrow> bool" where
  "unmarked_chain anc nodes marked r p \<longleftrightarrow>
     (r = p \<or> anc r p) \<and> (\<forall>q \<in> nodes. (q = r \<or> anc r q) \<and> anc q p \<longrightarrow> \<not> marked q)"

text \<open>
  A forest over an ancestry: \<open>parent\<close> gives the nearest ancestor among the nodes, and
  \<open>climb\<close> follows parents up to the last node before a marked one.
\<close>

locale forest = ancestry +
  fixes nodes :: "'a set" and marked :: "'a \<Rightarrow> bool"
    and parent :: "'a \<Rightarrow> 'a option" and climb :: "'a \<Rightarrow> 'a"
  assumes parent_None: "parent p = None \<Longrightarrow> q \<in> nodes \<Longrightarrow> \<not> anc q p"
    and parent_node: "parent p = Some q \<Longrightarrow> q \<in> nodes"
    and parent_anc: "parent p = Some q \<Longrightarrow> anc q p"
    and parent_nearest: "parent p = Some q \<Longrightarrow> r \<in> nodes \<Longrightarrow> anc r p \<Longrightarrow> r = q \<or> anc r q"
    and climb_step: "climb p = (case parent p of None \<Rightarrow> p
                       | Some q \<Rightarrow> if marked q then p else climb q)"
begin

lemma climb_induct [case_names climb]:
  assumes "\<And>p. (\<And>q. parent p = Some q \<Longrightarrow> P q) \<Longrightarrow> P p"
  shows "P p"
proof (induction p rule: measure_induct_rule [where f = depth])
  case (less p)
  show ?case
    by (rule assms) (blast intro: less anc_depth parent_anc)
qed

lemma climb_chain: "unmarked_chain anc nodes marked (climb p) p"
proof (induction p rule: climb_induct)
  case (climb p)
  show ?case
  proof (cases "parent p")
    case None
    then show ?thesis
      using anc_irrefl anc_asym by (auto simp: climb_step [of p] unmarked_chain_def)
  next
    case (Some q)
    show ?thesis
    proof (cases "marked q")
      case True
      with Some show ?thesis
        using anc_irrefl anc_asym by (auto simp: climb_step [of p] unmarked_chain_def)
    next
      case False
      have "anc q p" and "climb p = climb q" and up: "climb q = q \<or> anc (climb q) q"
        using Some False parent_anc climb [OF Some]
        by (auto simp: climb_step [of p] unmarked_chain_def)
      moreover have "\<not> marked r" if "r \<in> nodes" "r = climb q \<or> anc (climb q) r" "anc r p" for r
        using parent_nearest [OF Some that(1,3)] climb [OF Some] that False
        by (auto simp: unmarked_chain_def)
      ultimately show ?thesis
        using anc_trans by (auto simp: unmarked_chain_def)
    qed
  qed
qed

lemma climb_node: "p \<in> nodes \<Longrightarrow> climb p \<in> nodes"
proof (induction p rule: climb_induct)
  case (climb p)
  then show ?case
    using parent_node by (auto simp: climb_step [of p] split: option.splits)
qed

lemma climb_unmarked: "p \<in> nodes \<Longrightarrow> \<not> marked p \<Longrightarrow> \<not> marked (climb p)"
  using climb_chain [of p] climb_node [of p] by (auto simp: unmarked_chain_def)

lemma climb_absorb: "r \<in> nodes \<Longrightarrow> unmarked_chain anc nodes marked r p \<Longrightarrow> climb p = climb r"
proof (induction p rule: climb_induct)
  case (climb p)
  show ?case
  proof (cases "r = p")
    case False
    then have r: "anc r p"
      using climb.prems by (simp add: unmarked_chain_def)
    then obtain q where q: "parent p = Some q"
      using parent_None climb.prems(1) by (cases "parent p") auto
    have rq: "r = q \<or> anc r q"
      using parent_nearest [OF q climb.prems(1) r] .
    moreover have "\<not> marked q"
      using climb.prems(2) parent_node [OF q] parent_anc [OF q] rq by (auto simp: unmarked_chain_def)
    moreover have "unmarked_chain anc nodes marked r q"
      using climb.prems(2) rq anc_trans [OF _ parent_anc [OF q]] by (auto simp: unmarked_chain_def)
    ultimately show ?thesis
      using climb.IH [OF q climb.prems(1)] q by (simp add: climb_step [of p])
  qed simp
qed

text \<open>Two nodes climb to the same root when an unmarked chain leads from both to one node.\<close>

lemma climb_eq_iff:
  assumes "p \<in> nodes" and "q \<in> nodes"
  shows "climb p = climb q \<longleftrightarrow>
    (\<exists>r \<in> nodes. unmarked_chain anc nodes marked r p \<and> unmarked_chain anc nodes marked r q)"
  using climb_absorb climb_chain climb_node assms by metis

text \<open>A node and one of its ancestors part exactly at a marked node between them.\<close>

lemma climb_anc_eq_iff:
  assumes "q \<in> nodes" and "anc q p"
  shows "climb q = climb p \<longleftrightarrow> (\<forall>s \<in> nodes. (s = q \<or> anc q s) \<and> anc s p \<longrightarrow> \<not> marked s)"
proof
  assume "climb q = climb p"
  then have "climb p = q \<or> anc (climb p) q" and "unmarked_chain anc nodes marked (climb p) p"
    using climb_chain [of q] climb_chain [of p] by (auto simp: unmarked_chain_def)
  then show "\<forall>s \<in> nodes. (s = q \<or> anc q s) \<and> anc s p \<longrightarrow> \<not> marked s"
    using anc_trans unfolding unmarked_chain_def by blast
next
  assume "\<forall>s \<in> nodes. (s = q \<or> anc q s) \<and> anc s p \<longrightarrow> \<not> marked s"
  with assms show "climb q = climb p"
    using climb_absorb [of q p] by (auto simp: unmarked_chain_def)
qed

end

section \<open>Files of one directory have different paths\<close>

lemma clean_parts_subset: "set (clean_parts rooted cs) \<subseteq> set cs"
proof -
  have "set (clean_step rooted stack c) \<subseteq> insert c (set stack)" for stack c
    by (auto split: list.splits)
  then have "set (foldl (clean_step rooted) stack cs) \<subseteq> set stack \<union> set cs" for stack
    by (induction cs arbitrary: stack) (simp, fastforce simp del: clean_step.simps)
  from this [of "[]"] show ?thesis
    by (simp add: clean_parts_def)
qed

text \<open>Joining keeps the plain components at the end of the directory and of the name.\<close>

lemma fp_join_parts:
  assumes "split_on slash d = X @ cs" and "list_all plain_part cs" and "plain_path e"
  shows "\<exists>Y. split_on slash (fp_join [d, e]) = Y @ cs @ split_on slash e"
proof (cases "d = ''''")
  case True
  with assms show ?thesis
    by (cases X) (auto simp: fp_join_def fp_clean_plain plain_path_ne)
next
  case False
  let ?r = "hd d = slash"
  let ?cs = "clean_parts ?r X @ cs @ split_on slash e"
  have "clean_parts ?r (split_on slash (d @ slash # e)) = ?cs"
    using assms by (simp add: clean_parts_def split_on_append_sep foldl_clean_plain plain_path_def)
  moreover have "join ''/'' ?cs \<noteq> []"
    using join_append [of "clean_parts ?r X @ cs" "split_on slash e" "''/''"] plain_path_ne [OF assms(3)]
    by (cases "clean_parts ?r X @ cs = []") auto
  ultimately have eq: "fp_join [d, e] = (if ?r then ''/'' else '''') @ join ''/'' ?cs"
    using False by (auto simp: fp_join_def fp_clean_def Let_def)
  have "slash \<notin> set c" if "c \<in> set ?cs" for c
    using that clean_parts_subset [of ?r X] split_on_sep_free [of c slash d] split_on_sep_free [of c slash e]
    by (auto simp: assms(1))
  then have "split_on slash (join ''/'' ?cs) = ?cs"
    by (intro split_join) auto
  then show ?thesis
    unfolding eq by (cases ?r) (auto intro: exI [of _ "[] # clean_parts True X"])
qed

lemma fp_join_last:
  assumes "plain_part a"
  shows "last (split_on slash (fp_join [d, a])) = a"
proof -
  have "slash \<notin> set a" "plain_path a"
    using assms by (auto simp: plain_part_def plain_path_part)
  then show ?thesis
    using fp_join_parts [of d "split_on slash d" "[]" a] by (auto simp: split_on_no_sep)
qed

lemma fp_base_join: "plain_part a \<Longrightarrow> fp_base (fp_join [d, a]) = a"
  by (simp add: fp_base_last fp_join_last plain_part_def)

lemma fp_join3: "d \<noteq> '''' \<Longrightarrow> fp_join [r, d, a] = fp_join [if r = '''' then d else r @ ''/'' @ d, a]"
  by (simp add: fp_join_def)

lemma fp_join_inj: "plain_part a \<Longrightarrow> plain_part b \<Longrightarrow> fp_join [d, a] = fp_join [d, b] \<longleftrightarrow> a = b"
  by (metis fp_join_last)

end
