(* ===== verification/GoFS.thy ===== *)
theory GoFS
  imports GoPath
begin

text \<open>
  The files the program reads and writes: a map from path to contents, modification
  time and permission bits, with a clock that every write advances. \<open>fs_noread\<close> and
  \<open>fs_nowrite\<close> are the paths on which a read or a write fails, so that the error branches
  of the code are reachable. Directories are implied by the files in them.
\<close>

record gofile =
  fl_data :: string
  fl_mtime :: int
  fl_mode :: nat

record gofs =
  fs_files :: "string \<Rightarrow> gofile option"
  fs_clock :: int
  fs_noread :: "string \<Rightarrow> bool"
  fs_nowrite :: "string \<Rightarrow> bool"

datatype read_result = ReadData string | NotExist | ReadErr

definition ReadFile :: "gofs \<Rightarrow> string \<Rightarrow> read_result" where
  "ReadFile fs p =
     (if fs_noread fs p then ReadErr
      else case fs_files fs p of None \<Rightarrow> NotExist | Some f \<Rightarrow> ReadData (fl_data f))"

text \<open>\<open>os.WriteFile\<close> truncates an existing file and keeps its permission bits.\<close>

definition WriteFile :: "string \<Rightarrow> string \<Rightarrow> nat \<Rightarrow> gofs \<Rightarrow> gofs option" where
  "WriteFile p d mode fs =
     (if fs_nowrite fs p then None
      else let m = (case fs_files fs p of None \<Rightarrow> mode | Some f \<Rightarrow> fl_mode f);
               t = fs_clock fs + 1
           in Some (fs\<lparr>fs_files := (fs_files fs)(p \<mapsto> \<lparr>fl_data = d, fl_mtime = t, fl_mode = m\<rparr>),
                       fs_clock := t\<rparr>))"

definition Remove :: "string \<Rightarrow> gofs \<Rightarrow> gofs option" where
  "Remove p fs =
     (if fs_nowrite fs p \<or> fs_files fs p = None then None
      else Some (fs\<lparr>fs_files := (fs_files fs)(p := None)\<rparr>))"

definition file_data :: "gofs \<Rightarrow> string \<Rightarrow> string option" where
  "file_data fs p = map_option fl_data (fs_files fs p)"

text \<open>The clock is never behind a modification time.\<close>

definition wf_fs :: "gofs \<Rightarrow> bool" where
  "wf_fs fs \<longleftrightarrow> (\<forall>p f. fs_files fs p = Some f \<longrightarrow> fl_mtime f \<le> fs_clock fs)"

lemma ReadFile_data: "ReadFile fs p = ReadData d \<longleftrightarrow> \<not> fs_noread fs p \<and> file_data fs p = Some d"
  by (auto simp: ReadFile_def file_data_def split: option.splits)

lemma WriteFile_frame:
  assumes "WriteFile p d mode fs = Some fs'"
  shows "fs_noread fs' = fs_noread fs" and "fs_nowrite fs' = fs_nowrite fs"
    and "q \<noteq> p \<Longrightarrow> fs_files fs' q = fs_files fs q"
  using assms by (auto simp: WriteFile_def Let_def split: if_splits)

lemma WriteFile_data:
  "WriteFile p d mode fs = Some fs' \<Longrightarrow> file_data fs' = (file_data fs)(p \<mapsto> d)"
  by (auto simp: WriteFile_def Let_def file_data_def fun_eq_iff split: if_splits)

lemma WriteFile_wf: "WriteFile p d mode fs = Some fs' \<Longrightarrow> wf_fs fs \<Longrightarrow> wf_fs fs'"
  by (fastforce simp: WriteFile_def Let_def wf_fs_def split: if_splits)

lemma Remove_frame:
  assumes "Remove p fs = Some fs'"
  shows "fs_noread fs' = fs_noread fs" and "fs_nowrite fs' = fs_nowrite fs"
    and "fs_files fs' = (fs_files fs)(p := None)" and "fs_clock fs' = fs_clock fs"
  using assms by (auto simp: Remove_def split: if_splits)

lemma Remove_data: "Remove p fs = Some fs' \<Longrightarrow> file_data fs' = (file_data fs)(p := None)"
  by (auto simp: Remove_def file_data_def fun_eq_iff split: if_splits)

text \<open>\<open>os.Chmod\<close> and \<open>os.Chtimes\<close>; their errors are ignored by the callers.\<close>

definition Chmod :: "string \<Rightarrow> nat \<Rightarrow> gofs \<Rightarrow> gofs" where
  "Chmod p mode fs =
     (case fs_files fs p of None \<Rightarrow> fs
      | Some f \<Rightarrow> fs\<lparr>fs_files := (fs_files fs)(p \<mapsto> f\<lparr>fl_mode := mode\<rparr>)\<rparr>)"

definition Chtimes :: "string \<Rightarrow> int \<Rightarrow> gofs \<Rightarrow> gofs" where
  "Chtimes p t fs =
     (case fs_files fs p of None \<Rightarrow> fs
      | Some f \<Rightarrow> fs\<lparr>fs_files := (fs_files fs)(p \<mapsto> f\<lparr>fl_mtime := t\<rparr>)\<rparr>)"

lemma Chmod_frame [simp]:
  "fs_noread (Chmod p m fs) = fs_noread fs" "fs_nowrite (Chmod p m fs) = fs_nowrite fs"
  "q \<noteq> p \<Longrightarrow> fs_files (Chmod p m fs) q = fs_files fs q"
  by (auto simp: Chmod_def split: option.splits)

section \<open>Families of writers\<close>

text \<open>
  The contract the generators share: a writer touches only its target, depends only on
  its inputs and its target, and is settled once it has run: running it again leaves
  the file system as it is, modification times included.
\<close>

definition agree_on :: "string set \<Rightarrow> gofs \<Rightarrow> gofs \<Rightarrow> bool" where
  "agree_on A fs gs \<longleftrightarrow> (\<forall>q \<in> A. fs_files fs q = fs_files gs q) \<and>
     fs_noread fs = fs_noread gs \<and> fs_nowrite fs = fs_nowrite gs"

fun run_all :: "('i \<Rightarrow> gofs \<Rightarrow> gofs option) \<Rightarrow> 'i list \<Rightarrow> gofs \<Rightarrow> gofs option" where
  "run_all put [] fs = Some fs"
| "run_all put (i # is) fs = (case put i fs of None \<Rightarrow> None | Some fs' \<Rightarrow> run_all put is fs')"

locale writer_family =
  fixes put :: "'i \<Rightarrow> gofs \<Rightarrow> gofs option" and target :: "'i \<Rightarrow> string" and inputs :: "'i \<Rightarrow> string set"
  assumes put_frame: "put i fs = Some fs' \<Longrightarrow> agree_on (- {target i}) fs' fs"
    and put_settles: "put i fs = Some fs' \<Longrightarrow> \<not> fs_noread fs (target i) \<Longrightarrow> put i fs' = Some fs'"
    and put_local: "put i fs = Some fs \<Longrightarrow> agree_on (insert (target i) (inputs i)) gs fs \<Longrightarrow> put i gs = Some gs"
begin

lemma run_all_agree:
  "run_all put is fs = Some fs' \<Longrightarrow> target ` set is \<inter> A = {} \<Longrightarrow> agree_on A fs' fs"
proof (induction "is" arbitrary: fs)
  case (Cons i "is")
  then obtain fs1 where w: "put i fs = Some fs1" and rest: "run_all put is fs1 = Some fs'"
    by (auto split: option.splits)
  have "agree_on A fs1 fs"
    using put_frame [OF w] Cons.prems(2) by (auto simp: agree_on_def)
  with Cons.IH [OF rest] Cons.prems(2) show ?case
    by (auto simp: agree_on_def)
qed (simp add: agree_on_def)

text \<open>
  A pass over writers of which no later one writes a target or an input of an earlier
  one is settled as a whole: the second pass changes nothing.
\<close>

lemma run_all_settled:
  assumes "run_all put is fs = Some fs'"
    and "\<forall>i \<in> set is. \<not> fs_noread fs (target i)"
    and "sorted_wrt (\<lambda>i j. target j \<notin> insert (target i) (inputs i)) is"
  shows "\<forall>i \<in> set is. put i fs' = Some fs'"
  using assms
proof (induction "is" arbitrary: fs)
  case (Cons i "is")
  then obtain fs1 where w: "put i fs = Some fs1" and rest: "run_all put is fs1 = Some fs'"
    by (auto split: option.splits)
  have perms: "fs_noread fs1 = fs_noread fs"
    using put_frame [OF w] by (simp add: agree_on_def)
  have "put i fs1 = Some fs1"
    using put_settles [OF w] Cons.prems(2) by simp
  moreover have "target ` set is \<inter> insert (target i) (inputs i) = {}"
    using Cons.prems(3) by auto
  then have "agree_on (insert (target i) (inputs i)) fs' fs1"
    by (rule run_all_agree [OF rest])
  ultimately have "put i fs' = Some fs'"
    using put_local by blast
  moreover have "\<forall>j \<in> set is. put j fs' = Some fs'"
    using Cons.IH [OF rest] Cons.prems(2,3) perms by simp
  ultimately show ?case
    by simp
qed simp

lemma run_all_idempotent:
  assumes "run_all put is fs = Some fs'"
    and "\<forall>i \<in> set is. \<not> fs_noread fs (target i)"
    and "sorted_wrt (\<lambda>i j. target j \<notin> insert (target i) (inputs i)) is"
  shows "run_all put is fs' = Some fs'"
proof -
  have "\<forall>i \<in> set js. put i fs' = Some fs' \<Longrightarrow> run_all put js fs' = Some fs'" for js
    by (induction js) auto
  with run_all_settled [OF assms] show ?thesis
    by blast
qed

end

end
