(* ===== verification/Bricks.thy ===== *)
theory Bricks
  imports GoPath
begin

text \<open>
  The brick records of the lattice (\<open>hatch.BrickInfo\<close>, \<open>lib/hatch/brick.go\<close>): the
  shared flag, the index built from the bricks shard, and the lookups by slug or path.
\<close>

record brick_info =
  bi_path :: string
  bi_slug :: string
  bi_kind :: string
  bi_reads :: "string list"
  bi_shared :: "bool option"

type_synonym bricks = "(string, brick_info) gomap"

definition IsShared :: "brick_info \<Rightarrow> bool" where
  "IsShared b = (case bi_shared b of Some s \<Rightarrow> s | None \<Rightarrow> bi_kind b \<noteq> ''component'')"

text \<open>
  The loop of \<open>loadBricksShard\<close> over the decoded shard: the slug defaults to the
  catalog key, is stored into the record, and is the key of the result.
\<close>

definition shard_slug :: "string \<Rightarrow> brick_info \<Rightarrow> string" where
  "shard_slug catalogKey b = (if bi_slug b = '''' then catalogKey else bi_slug b)"

definition index_bricks :: "bricks \<Rightarrow> bricks" where
  "index_bricks raw =
     foldl (\<lambda>out (catalogKey, b).
              let slug = shard_slug catalogKey b in AList.update slug (b\<lparr>bi_slug := slug\<rparr>) out)
       [] raw"

definition resolveBrick :: "bricks \<Rightarrow> string \<Rightarrow> brick_info option" where
  "resolveBrick bs key =
     (case map_of bs key of
        Some b \<Rightarrow> Some b
      | None \<Rightarrow> map_option snd (find (\<lambda>(_, b). bi_path b = key) bs))"

text \<open>\<open>AllComponentSlugs\<close>: the sorted slugs of the component bricks, the root excluded.\<close>

definition AllComponentSlugs :: "bricks \<Rightarrow> string list" where
  "AllComponentSlugs bs =
     sort (map fst (filter (\<lambda>(slug, b). bi_kind b = ''component'' \<and> slug \<noteq> '''') bs))"

section \<open>The index\<close>

text \<open>What the loader promises: keys are unique and each record carries its key as slug.\<close>

definition wf_bricks :: "bricks \<Rightarrow> bool" where
  "wf_bricks bs \<longleftrightarrow> wf_map bs \<and> (\<forall>(slug, b) \<in> set bs. bi_slug b = slug)"

lemma wf_bricks_update:
  "wf_bricks bs \<Longrightarrow> wf_bricks (AList.update slug (b\<lparr>bi_slug := slug\<rparr>) bs)"
  by (auto simp: wf_bricks_def wf_map_update set_update_wf)

lemma wf_index_bricks: "wf_bricks (index_bricks raw)"
proof -
  have "wf_bricks out \<Longrightarrow>
      wf_bricks (foldl (\<lambda>out (catalogKey, b).
        let slug = shard_slug catalogKey b in AList.update slug (b\<lparr>bi_slug := slug\<rparr>) out) out raw)" for out
    by (induction raw arbitrary: out) (auto simp: Let_def wf_bricks_update split: prod.splits)
  moreover have "wf_bricks []"
    by (simp add: wf_bricks_def)
  ultimately show ?thesis
    by (simp add: index_bricks_def)
qed

text \<open>With unique slugs no brick of the shard is lost.\<close>

lemma index_bricks_complete:
  assumes "distinct (map (\<lambda>(k, b). shard_slug k b) raw)"
  shows "index_bricks raw = map (\<lambda>(k, b). (shard_slug k b, b\<lparr>bi_slug := shard_slug k b\<rparr>)) raw"
proof -
  let ?e = "\<lambda>(k, b). (shard_slug k b, b\<lparr>bi_slug := shard_slug k b\<rparr>)"
  let ?f = "\<lambda>out (catalogKey, b).
        let slug = shard_slug catalogKey b in AList.update slug (b\<lparr>bi_slug := slug\<rparr>) out"
  have "distinct (map fst out @ map (\<lambda>(k, b). shard_slug k b) raw) \<Longrightarrow>
      foldl ?f out raw = out @ map ?e raw" for out
  proof (induction raw arbitrary: out)
    case (Cons r raw)
    obtain k b where r: "r = (k, b)" by (cases r)
    with Cons.prems have "AList.update (shard_slug k b) (b\<lparr>bi_slug := shard_slug k b\<rparr>) out
        = out @ [?e r]"
      by (simp add: update_fresh)
    with r Cons.prems Cons.IH [of "out @ [?e r]"] show ?case
      by (simp add: Let_def)
  qed simp
  from this [of "[]"] assms show ?thesis
    by (simp add: index_bricks_def)
qed

section \<open>Lookups\<close>

lemma resolveBrick_Some:
  assumes "resolveBrick bs key = Some b"
  shows "\<exists>slug. (slug, b) \<in> set bs \<and> (slug = key \<or> bi_path b = key)"
  using assms
  by (auto simp: resolveBrick_def split: option.splits dest!: find_Some_in map_of_SomeD)

lemma resolveBrick_None:
  "resolveBrick bs key = None \<longleftrightarrow> (\<forall>(slug, b) \<in> set bs. slug \<noteq> key \<and> bi_path b \<noteq> key)"
proof (cases "map_of bs key")
  case None
  then have "\<forall>(slug, b) \<in> set bs. slug \<noteq> key"
    by (force simp: map_of_eq_None_iff)
  with None show ?thesis
    by (fastforce simp: resolveBrick_def find_None_iff)
next
  case (Some b)
  then show ?thesis
    by (auto simp: resolveBrick_def dest: map_of_SomeD)
qed

text \<open>Unique paths make the lookup independent of the order of iteration.\<close>

definition unique_paths :: "bricks \<Rightarrow> bool" where
  "unique_paths bs \<longleftrightarrow> inj_on (\<lambda>(slug, b). bi_path b) (set bs)"

lemma unique_pathsD:
  "unique_paths bs \<Longrightarrow> (s, b) \<in> set bs \<Longrightarrow> (s', b') \<in> set bs \<Longrightarrow> bi_path b = bi_path b' \<Longrightarrow> s = s' \<and> b = b'"
  by (auto simp: unique_paths_def inj_on_def)

lemma find_path_order:
  assumes "set bs = set bs'" and "unique_paths bs"
  shows "find (\<lambda>(_, b). bi_path b = key) bs = find (\<lambda>(_, b). bi_path b = key) bs'"
proof (cases "find (\<lambda>(_, b). bi_path b = key) bs")
  case None
  then show ?thesis
    using assms(1) by (metis find_None_iff)
next
  case (Some e)
  from Some have "find (\<lambda>(_, b). bi_path b = key) bs' \<noteq> None"
    using assms(1) find_Some_in by (metis find_None_iff)
  then obtain e' where e': "find (\<lambda>(_, b). bi_path b = key) bs' = Some e'"
    by blast
  have "e \<in> set bs" "bi_path (snd e) = key" "e' \<in> set bs" "bi_path (snd e') = key"
    using find_Some_in [OF Some] find_Some_in [OF e'] assms(1) by (simp_all add: case_prod_unfold)
  then have "e = e'"
    using unique_pathsD [OF assms(2), of "fst e" "snd e" "fst e'" "snd e'"]
    by (metis prod.collapse)
  with Some e' show ?thesis by simp
qed

lemma resolveBrick_order:
  assumes "same_map bs bs'" and "wf_map bs" and "unique_paths bs"
  shows "resolveBrick bs key = resolveBrick bs' key"
  using find_path_order [OF same_map_set [OF assms(1)] assms(3)] same_map_of [OF assms(1,2)]
  by (simp add: resolveBrick_def split: option.splits)

lemma AllComponentSlugs_order:
  "same_map bs bs' \<Longrightarrow> AllComponentSlugs bs = AllComponentSlugs bs'"
  unfolding AllComponentSlugs_def by (intro sort_same_map same_map_filter)

end
