(* ===== verification/Snapshot.thy ===== *)
theory Snapshot
  imports Complex_Main GoFS Bricks
begin

text \<open>
  \<open>lib/hatch/snapshot.go\<close>: the result of one brick and the plan of a dispatch round, and
  their files. CUE compilation with decoding, and JSON encoding, are parameters
  \<open>decode\<close> and \<open>encode\<close> (\<open>cuelang.org/go\<close> and \<open>encoding/json\<close>). A \<open>nil\<close> slice or map and an
  empty one are the same list here, so the defaulting of \<open>nil\<close> before writing is the
  identity. The cost, a \<open>float64\<close> that is only copied, is a rational.
\<close>

record blocked_on =
  bo_sibling :: string
  bo_paths :: "string list"

record brick_result =
  r_reads :: "string list"
  r_writes :: "string list"
  r_status :: string
  r_blockedOn :: "blocked_on list"
  r_fingerprint :: string
  r_sessionID :: string
  r_logPath :: string
  r_outOfLanePatch :: string
  r_tokensInput :: int
  r_tokensOutput :: int
  r_tokensCacheRead :: int
  r_tokensCacheWrite :: int
  r_tokensThought :: int
  r_tokensTotal :: int
  r_costAmount :: rat
  r_costCurrency :: string

type_synonym dispatch_plan = "(string, brick_result) gomap"

datatype load_error = LoadReadErr | LoadParseErr

definition LoadDispatchPlan ::
    "(string \<Rightarrow> dispatch_plan option) \<Rightarrow> gofs \<Rightarrow> string \<Rightarrow> load_error + dispatch_plan" where
  "LoadDispatchPlan decode fs p =
     (if p = '''' then Inr []
      else case ReadFile fs p of
        NotExist \<Rightarrow> Inr []
      | ReadErr \<Rightarrow> Inl LoadReadErr
      | ReadData d \<Rightarrow> (case decode d of None \<Rightarrow> Inl LoadParseErr | Some plan \<Rightarrow> Inr plan))"

definition LoadBrickResult ::
    "(string \<Rightarrow> brick_result option) \<Rightarrow> gofs \<Rightarrow> string \<Rightarrow> load_error + brick_result" where
  "LoadBrickResult decode fs p =
     (case ReadFile fs p of
        NotExist \<Rightarrow> Inl LoadReadErr
      | ReadErr \<Rightarrow> Inl LoadReadErr
      | ReadData d \<Rightarrow> (case decode d of None \<Rightarrow> Inl LoadParseErr | Some r \<Rightarrow> Inr r))"

text \<open>\<open>writeJSON\<close>: the encoding and a final newline; \<open>MkdirAll\<close> is implied.\<close>

definition writeJSON :: "('a \<Rightarrow> string) \<Rightarrow> string \<Rightarrow> 'a \<Rightarrow> gofs \<Rightarrow> gofs option" where
  "writeJSON encode p v fs = WriteFile p (encode v @ [CHR 0x0A]) 420 fs"

definition WriteResultCUE :: "(brick_result \<Rightarrow> string) \<Rightarrow> string \<Rightarrow> brick_result \<Rightarrow> gofs \<Rightarrow> gofs option" where
  "WriteResultCUE encode p r fs = writeJSON encode p r fs"

definition WritePlanCUE :: "(dispatch_plan \<Rightarrow> string) \<Rightarrow> string \<Rightarrow> dispatch_plan \<Rightarrow> gofs \<Rightarrow> gofs option" where
  "WritePlanCUE encode p plan fs = writeJSON encode p plan fs"

text \<open>A plan that was written is loaded again, and no other file is touched.\<close>

lemma LoadDispatchPlan_written:
  assumes "decode (encode plan @ [CHR 0x0A]) = Some plan" and "p \<noteq> ''''" and "\<not> fs_noread fs p"
    and "WritePlanCUE encode p plan fs = Some fs'"
  shows "LoadDispatchPlan decode fs' p = Inr plan" and "q \<noteq> p \<Longrightarrow> fs_files fs' q = fs_files fs q"
proof -
  note w = assms(4) [unfolded WritePlanCUE_def writeJSON_def]
  have "ReadFile fs' p = ReadData (encode plan @ [CHR 0x0A])"
    unfolding ReadFile_data WriteFile_data [OF w] WriteFile_frame(1) [OF w] using assms(3) by simp
  then show "LoadDispatchPlan decode fs' p = Inr plan"
    using assms(1,2) by (simp add: LoadDispatchPlan_def)
  show "q \<noteq> p \<Longrightarrow> fs_files fs' q = fs_files fs q"
    using WriteFile_frame(3) [OF w] .
qed

text \<open>A plan that is loaded from a file with known data is what these decode to.\<close>

lemma LoadDispatchPlan_data:
  assumes "LoadDispatchPlan decode fs p = Inr plan" and "file_data fs p = Some d" and "p \<noteq> ''''"
  shows "decode d = Some plan"
proof (cases "fs_noread fs p")
  case True
  with assms(1,3) show ?thesis
    by (simp add: LoadDispatchPlan_def ReadFile_def)
next
  case False
  with assms(2) have "ReadFile fs p = ReadData d"
    by (simp add: ReadFile_data)
  with assms(1,3) show ?thesis
    by (simp add: LoadDispatchPlan_def split: option.splits)
qed

end
