(* ===== verification/StepSystem.thy ===== *)
theory StepSystem
  imports Main
begin

text \<open>
  Step relations with a rank: the contract under which concurrent code of the program
  terminates without deadlock. An invariant that the steps keep, a rank that every step
  lowers, and progress until the system is finished.
\<close>

locale ranked_system =
  fixes step :: "'s \<Rightarrow> 's \<Rightarrow> bool" and inv :: "'s \<Rightarrow> bool" and rank :: "'s \<Rightarrow> nat" and fin :: "'s \<Rightarrow> bool"
  assumes inv_step: "inv s \<Longrightarrow> step s t \<Longrightarrow> inv t"
    and rank_step: "inv s \<Longrightarrow> step s t \<Longrightarrow> rank t < rank s"
    and progress: "inv s \<Longrightarrow> \<not> fin s \<Longrightarrow> \<exists>t. step s t"
begin

lemma inv_reach: "step\<^sup>*\<^sup>* s t \<Longrightarrow> inv s \<Longrightarrow> inv t"
  by (induction rule: rtranclp_induct) (auto intro: inv_step)

text \<open>Every run is at most as long as the rank of its first state.\<close>

lemma run_bound: "(step ^^ n) s t \<Longrightarrow> inv s \<Longrightarrow> n + rank t \<le> rank s"
proof (induction n arbitrary: t)
  case (Suc n)
  then obtain u where u: "(step ^^ n) s u" "step u t"
    by auto
  moreover have "inv u"
    using inv_reach [OF relpowp_imp_rtranclp [OF u(1)]] Suc.prems(2) .
  ultimately show ?case
    using Suc.IH [OF u(1) Suc.prems(2)] rank_step [of u t] by simp
qed simp

text \<open>A run can always be continued to the end, and it is at the end when no step is possible.\<close>

lemma completes: "inv s \<Longrightarrow> \<exists>t. step\<^sup>*\<^sup>* s t \<and> fin t"
proof (induction "rank s" arbitrary: s rule: less_induct)
  case less
  show ?case
  proof (cases "fin s")
    case False
    then obtain t where t: "step s t"
      using progress less.prems by blast
    then obtain u where "step\<^sup>*\<^sup>* t u" "fin u"
      using less.hyps [OF rank_step [OF less.prems t] inv_step [OF less.prems t]] by blast
    with t show ?thesis
      by (meson converse_rtranclp_into_rtranclp)
  qed blast
qed

lemma stuck_fin: "inv s \<Longrightarrow> (\<nexists>t. step s t) \<Longrightarrow> fin s"
  using progress by blast

end

text \<open>
  Refinement of an abstract system through a function on states: every step is a step of the
  abstract system or leaves the abstract state as it is.
\<close>

locale refining_system = ranked_system step inv rank fin
  for step :: "'s \<Rightarrow> 's \<Rightarrow> bool" and inv rank fin +
  fixes astep :: "'a \<Rightarrow> 'a \<Rightarrow> bool" and abs :: "'s \<Rightarrow> 'a"
  assumes simulates: "inv s \<Longrightarrow> step s t \<Longrightarrow> abs t = abs s \<or> astep (abs s) (abs t)"
begin

lemma refines: "step\<^sup>*\<^sup>* s t \<Longrightarrow> inv s \<Longrightarrow> astep\<^sup>*\<^sup>* (abs s) (abs t)"
proof (induction rule: rtranclp_induct)
  case (step t u)
  from simulates [OF inv_reach [OF step(1) step.prems] step(2)] step.IH [OF step.prems] show ?case
    by (auto intro: rtranclp.rtrancl_into_rtrancl)
qed simp

end

end
