(* ===== verification/FanOut.thy ===== *)
theory FanOut
  imports Snapshot StepSystem
begin

text \<open>
  The fan-out of \<open>Run\<close> in \<open>lib/dispatch/dispatch.go\<close>: one goroutine for each brick, a
  semaphore of \<open>Parallel\<close> slots, the running plan behind its mutex, and the channel of
  results. A goroutine is a state machine whose states are the points between its visible
  effects; the interleaving is the step relation. What a brick does to the world
  is the parameter \<open>ops\<close>, which \<open>Dispatch\<close> instantiates with the code of the goroutine. The
  channel has room for every result, so a send does not block.
\<close>

section \<open>The goroutine\<close>

text \<open>The zero value of \<open>hatch.BrickResult\<close>.\<close>

definition zero_result :: brick_result where
  "zero_result =
     \<lparr>r_reads = [], r_writes = [], r_status = '''', r_blockedOn = [], r_fingerprint = '''', r_sessionID = '''',
      r_logPath = '''', r_outOfLanePatch = '''', r_tokensInput = 0, r_tokensOutput = 0, r_tokensCacheRead = 0,
      r_tokensCacheWrite = 0, r_tokensThought = 0, r_tokensTotal = 0, r_costAmount = 0, r_costCurrency = ''''\<rparr>"

definition clonePlan :: "dispatch_plan \<Rightarrow> dispatch_plan" where
  "clonePlan p = foldl (\<lambda>out k. AList.update k (get_or zero_result p k) out) [] (sort (keys p))"

type_synonym 'e brickOutcome = "string \<times> ('e + brick_result)"

text \<open>Writing the snapshot file, running the agent or the per-brick cycle, loading the result file.\<close>

record ('w, 'e) fan_ops =
  fo_write :: "string \<Rightarrow> dispatch_plan \<Rightarrow> 'w \<Rightarrow> 'w \<times> 'e option"
  fo_run :: "string \<Rightarrow> 'w \<Rightarrow> 'w \<times> 'e option"
  fo_load :: "string \<Rightarrow> 'w \<Rightarrow> 'e + brick_result"

datatype 'e gor =
    Waiting | Acquired | Snapped dispatch_plan | Written dispatch_plan | Done
  | Loaded brick_result | Recorded brick_result | Failing 'e | Sent | Finished

record ('w, 'e) fan =
  f_world :: 'w
  f_plan :: dispatch_plan
  f_gs :: "'e gor list"
  f_results :: "'e brickOutcome list"

definition holds :: "'e gor \<Rightarrow> bool" where
  "holds g = (case g of Waiting \<Rightarrow> False | Finished \<Rightarrow> False | _ \<Rightarrow> True)"

text \<open>The number of tokens in the semaphore's channel.\<close>

definition holders :: "'e gor list \<Rightarrow> nat" where
  "holders gs = length (filter holds gs)"

definition goto :: "nat \<Rightarrow> 'e gor \<Rightarrow> ('w, 'e) fan \<Rightarrow> ('w, 'e) fan" where
  "goto i g s = s\<lparr>f_gs := (f_gs s)[i := g]\<rparr>"

definition gor_step :: "('w, 'e) fan_ops \<Rightarrow> nat \<Rightarrow> string list \<Rightarrow> nat \<Rightarrow> ('w, 'e) fan \<Rightarrow> ('w, 'e) fan option" where
  "gor_step ops K slugs i s =
     (if i \<ge> length (f_gs s) then None else
      let slug = slugs ! i in
      case f_gs s ! i of
        Waiting \<Rightarrow> if holders (f_gs s) < K then Some (goto i Acquired s) else None
      | Acquired \<Rightarrow> Some (goto i (Snapped (clonePlan (f_plan s))) s)
      | Snapped p \<Rightarrow>
          (case fo_write ops slug p (f_world s) of
             (w, None) \<Rightarrow> Some (goto i (Written p) (s\<lparr>f_world := w\<rparr>))
           | (w, Some e) \<Rightarrow> Some (goto i (Failing e) (s\<lparr>f_world := w\<rparr>)))
      | Written p \<Rightarrow>
          (case fo_run ops slug (f_world s) of
             (w, None) \<Rightarrow> Some (goto i Done (s\<lparr>f_world := w\<rparr>))
           | (w, Some e) \<Rightarrow> Some (goto i (Failing e) (s\<lparr>f_world := w\<rparr>)))
      | Done \<Rightarrow>
          (case fo_load ops slug (f_world s) of
             Inl e \<Rightarrow> Some (goto i (Failing e) s)
           | Inr r \<Rightarrow> Some (goto i (Loaded r) s))
      | Loaded r \<Rightarrow> Some (goto i (Recorded r) (s\<lparr>f_plan := AList.update slug r (f_plan s)\<rparr>))
      | Recorded r \<Rightarrow> Some (goto i Sent (s\<lparr>f_results := f_results s @ [(slug, Inr r)]\<rparr>))
      | Failing e \<Rightarrow> Some (goto i Sent (s\<lparr>f_results := f_results s @ [(slug, Inl e)]\<rparr>))
      | Sent \<Rightarrow> Some (goto i Finished s)
      | Finished \<Rightarrow> None)"

inductive fan_step :: "('w, 'e) fan_ops \<Rightarrow> nat \<Rightarrow> string list \<Rightarrow> ('w, 'e) fan \<Rightarrow> ('w, 'e) fan \<Rightarrow> bool"
  for ops K slugs where
  fan_stepI: "gor_step ops K slugs i s = Some s' \<Longrightarrow> fan_step ops K slugs s s'"

definition fan_init :: "string list \<Rightarrow> 'w \<Rightarrow> ('w, 'e) fan" where
  "fan_init slugs w = \<lparr>f_world = w, f_plan = [], f_gs = replicate (length slugs) Waiting, f_results = []\<rparr>"

definition fan_done :: "('w, 'e) fan \<Rightarrow> bool" where
  "fan_done s \<longleftrightarrow> set (f_gs s) \<subseteq> {Finished}"

text \<open>
  The run that a schedule describes: the goroutine that is named next takes its step, and a
  name whose goroutine cannot move is passed over.
\<close>

fun run_schedule :: "('w, 'e) fan_ops \<Rightarrow> nat \<Rightarrow> string list \<Rightarrow> nat list \<Rightarrow> ('w, 'e) fan \<Rightarrow> ('w, 'e) fan" where
  "run_schedule ops K slugs [] s = s"
| "run_schedule ops K slugs (i # rest) s =
     run_schedule ops K slugs rest (case gor_step ops K slugs i s of None \<Rightarrow> s | Some s' \<Rightarrow> s')"

section \<open>Clones\<close>

lemma map_of_fold_update:
  "map_of (foldl (\<lambda>out k. AList.update k (f k) out) m ks) = (\<lambda>k. if k \<in> set ks then Some (f k) else map_of m k)"
  by (induction ks arbitrary: m) (auto simp: update_conv')

lemma wf_fold_update: "wf_map m \<Longrightarrow> wf_map (foldl (\<lambda>out k. AList.update k (f k) out) m ks)"
  by (induction ks arbitrary: m) (simp_all add: wf_map_update)

lemma map_of_clonePlan [simp]: "map_of (clonePlan p) = map_of p"
proof
  fix k
  show "map_of (clonePlan p) k = map_of p k"
    by (cases "map_of p k")
      (simp_all add: clonePlan_def map_of_fold_update get_or_def domIff flip: dom_map_of_conv_image_fst)
qed

lemma wf_clonePlan [simp]: "wf_map (clonePlan p)"
  by (simp add: clonePlan_def wf_fold_update)

section \<open>Steps\<close>

text \<open>The kinds of step, one for each effect, with the state they lead to.\<close>

lemma gor_step_cases [consumes 1, case_names acquire snap effect load recording send release]:
  assumes "gor_step ops K slugs i s = Some s'"
  obtains "i < length (f_gs s)" "f_gs s ! i = Waiting" "holders (f_gs s) < K" "s' = goto i Acquired s"
  | "i < length (f_gs s)" "f_gs s ! i = Acquired" "s' = goto i (Snapped (clonePlan (f_plan s))) s"
  | p w g where "i < length (f_gs s)" "f_gs s ! i = Snapped p \<and> (g = Written p \<or> (\<exists>e. g = Failing e)) \<or>
      f_gs s ! i = Written p \<and> (g = Done \<or> (\<exists>e. g = Failing e))" "s' = goto i g (s\<lparr>f_world := w\<rparr>)"
  | g where "i < length (f_gs s)" "f_gs s ! i = Done" "(\<exists>r. g = Loaded r) \<or> (\<exists>e. g = Failing e)" "s' = goto i g s"
  | r where "i < length (f_gs s)" "f_gs s ! i = Loaded r"
      "s' = goto i (Recorded r) (s\<lparr>f_plan := AList.update (slugs ! i) r (f_plan s)\<rparr>)"
  | x where "i < length (f_gs s)" "(\<exists>r. f_gs s ! i = Recorded r \<and> x = Inr r) \<or> (\<exists>e. f_gs s ! i = Failing e \<and> x = Inl e)"
      "s' = goto i Sent (s\<lparr>f_results := f_results s @ [(slugs ! i, x)]\<rparr>)"
  | "i < length (f_gs s)" "f_gs s ! i = Sent" "s' = goto i Finished s"
proof -
  have i: "i < length (f_gs s)"
    using assms by (simp add: gor_step_def split: if_splits)
  show thesis
  proof (cases "f_gs s ! i")
    case (Snapped p)
    then show ?thesis
      using assms i that(3) by (auto simp: gor_step_def split: prod.splits option.splits)
  next
    case (Written p)
    then show ?thesis
      using assms i that(3) by (auto simp: gor_step_def split: prod.splits option.splits)
  next
    case Done
    then show ?thesis
      using assms i that(4) by (auto simp: gor_step_def split: sum.splits)
  qed (use assms i that in \<open>auto simp: gor_step_def split: if_splits\<close>)
qed

lemma goto_simps [simp]:
  "f_world (goto i g s) = f_world s" "f_plan (goto i g s) = f_plan s" "f_results (goto i g s) = f_results s"
  "f_gs (goto i g s) = (f_gs s)[i := g]"
  by (simp_all add: goto_def)

lemma holds_simps [simp]:
  "\<not> holds Waiting" "\<not> holds Finished" "holds Acquired" "holds (Snapped p)" "holds (Written p)" "holds Done"
  "holds (Loaded r)" "holds (Recorded r)" "holds (Failing e)" "holds Sent"
  by (simp_all add: holds_def)

text \<open>A selection of a list after one element changed, as a multiset.\<close>

lemma mset_filter_update:
  assumes "i < length xs"
  shows "mset (map f (filter P (xs[i := y]))) + (if P (xs ! i) then {#f (xs ! i)#} else {#}) =
    mset (map f (filter P xs)) + (if P y then {#f y#} else {#})"
proof -
  have split: "mset (map f (filter P (us @ x # vs))) =
      mset (map f (filter P (us @ vs))) + (if P x then {#f x#} else {#})" for us vs x
    by simp
  have "mset (map f (filter P xs)) =
      mset (map f (filter P (take i xs @ drop (Suc i) xs))) + (if P (xs ! i) then {#f (xs ! i)#} else {#})"
    by (subst id_take_nth_drop [OF assms], subst split) simp
  moreover have "mset (map f (filter P (xs[i := y]))) =
      mset (map f (filter P (take i xs @ drop (Suc i) xs))) + (if P y then {#f y#} else {#})"
    by (subst upd_conv_take_nth_drop [OF assms], subst split) simp
  ultimately show ?thesis
    by (simp add: ac_simps)
qed

text \<open>The tokens after one goroutine moved.\<close>

lemma holders_update:
  assumes "i < length gs"
  shows "holders (gs[i := g]) + of_bool (holds (gs ! i)) = holders gs + of_bool (holds g)"
  using arg_cong [OF mset_filter_update [OF assms, of id holds g], where f = size]
  by (simp add: holders_def del: mset_filter split: if_splits)

lemma holders_two:
  assumes "i < length gs" "j < length gs" "i \<noteq> j" "holds (gs ! i)" "holds (gs ! j)"
  shows "2 \<le> holders gs"
proof -
  have "{i, j} \<subseteq> {k. k < length gs \<and> holds (gs ! k)}"
    using assms by blast
  from card_mono [OF _ this] show ?thesis
    using assms(3) by (simp add: holders_def length_filter_conv_card)
qed

section \<open>Termination\<close>

fun gor_rank :: "'e gor \<Rightarrow> nat" where
  "gor_rank Waiting = 8"
| "gor_rank Acquired = 7"
| "gor_rank (Snapped p) = 6"
| "gor_rank (Written p) = 5"
| "gor_rank Done = 4"
| "gor_rank (Loaded r) = 3"
| "gor_rank (Recorded r) = 2"
| "gor_rank (Failing e) = 2"
| "gor_rank Sent = 1"
| "gor_rank Finished = 0"

definition fan_rank :: "('w, 'e) fan \<Rightarrow> nat" where
  "fan_rank s = sum_list (map gor_rank (f_gs s))"

text \<open>The invariant of the semaphore.\<close>

definition fan_inv :: "nat \<Rightarrow> string list \<Rightarrow> ('w, 'e) fan \<Rightarrow> bool" where
  "fan_inv K slugs s \<longleftrightarrow> length (f_gs s) = length slugs \<and> holders (f_gs s) \<le> K \<and> 0 < K"

lemma gor_step_gs:
  assumes "gor_step ops K slugs i s = Some s'"
  obtains g where "i < length (f_gs s)" "f_gs s' = (f_gs s)[i := g]" "gor_rank g < gor_rank (f_gs s ! i)"
    and "holds (f_gs s ! i) \<or> holders (f_gs s) < K"
  using assms by (cases rule: gor_step_cases) (auto intro: that)

lemma gor_step_enabled:
  assumes "i < length (f_gs s)" and "holds (f_gs s ! i) \<or> f_gs s ! i = Waiting \<and> holders (f_gs s) < K"
  shows "\<exists>s'. gor_step ops K slugs i s = Some s'"
  using assms by (cases "f_gs s ! i") (auto simp: gor_step_def Let_def split: prod.splits option.splits sum.splits)

lemma fan_progress:
  assumes "fan_inv K slugs s" and "\<not> fan_done s"
  shows "\<exists>s'. fan_step ops K slugs s s'"
proof -
  obtain i where i: "i < length (f_gs s)" "f_gs s ! i \<noteq> Finished"
    using assms(2) unfolding fan_done_def by (metis in_set_conv_nth singleton_iff subsetI)
  show ?thesis
  proof (cases "\<exists>j < length (f_gs s). holds (f_gs s ! j)")
    case True
    then show ?thesis
      using gor_step_enabled fan_stepI by metis
  next
    case False
    then have "holders (f_gs s) = 0"
      by (auto simp: holders_def filter_empty_conv in_set_conv_nth)
    moreover have "f_gs s ! i = Waiting"
      using i False by (cases "f_gs s ! i") auto
    ultimately show ?thesis
      using gor_step_enabled [OF i(1)] assms(1) fan_stepI by (metis fan_inv_def)
  qed
qed

lemma fan_step_rank:
  assumes "fan_step ops K slugs s s'"
  shows "fan_rank s' < fan_rank s"
  using assms
proof cases
  case (fan_stepI i)
  from gor_step_gs [OF this] obtain g where g: "i < length (f_gs s)" "f_gs s' = (f_gs s)[i := g]"
    "gor_rank g < gor_rank (f_gs s ! i)" .
  have "fan_rank s' + gor_rank (f_gs s ! i) = fan_rank s + gor_rank g"
    using g(1,2) elem_le_sum_list [of i "map gor_rank (f_gs s)"]
    by (simp add: fan_rank_def map_update sum_list_update)
  with g(3) show ?thesis by simp
qed

lemma fan_inv_step:
  assumes "fan_inv K slugs s" and "fan_step ops K slugs s s'"
  shows "fan_inv K slugs s'"
  using assms(2)
proof cases
  case (fan_stepI i)
  from gor_step_gs [OF this] obtain g where g: "i < length (f_gs s)" "f_gs s' = (f_gs s)[i := g]"
    "holds (f_gs s ! i) \<or> holders (f_gs s) < K" .
  then show ?thesis
    using assms(1) holders_update [OF g(1), of g] by (cases "holds g"; cases "holds (f_gs s ! i)") (auto simp: fan_inv_def)
qed

interpretation fan: ranked_system "fan_step ops K slugs" "fan_inv K slugs" fan_rank fan_done
  for ops K slugs
  by unfold_locales (auto intro: fan_inv_step fan_step_rank fan_progress)

lemma fan_inv_init: "0 < K \<Longrightarrow> fan_inv K slugs (fan_init slugs w)"
  by (simp add: fan_inv_def fan_init_def holders_def)

lemma fan_rank_init [simp]: "fan_rank (fan_init slugs w) = 8 * length slugs"
  by (simp add: fan_rank_def fan_init_def sum_list_replicate)

section \<open>Outcomes\<close>

text \<open>The goroutines that have sent, and the slugs of the results: the same multiset.\<close>

definition has_sent :: "'e gor \<Rightarrow> bool" where
  "has_sent g \<longleftrightarrow> g = Sent \<or> g = Finished"

definition sent_slugs :: "string list \<Rightarrow> 'e gor list \<Rightarrow> string multiset" where
  "sent_slugs slugs gs = mset (map fst (filter (has_sent \<circ> snd) (zip slugs gs)))"

lemma sent_slugs_update:
  assumes "i < length gs" and "length gs = length slugs"
  shows "sent_slugs slugs (gs[i := g]) + (if has_sent (gs ! i) then {#slugs ! i#} else {#}) =
    sent_slugs slugs gs + (if has_sent g then {#slugs ! i#} else {#})"
proof -
  have "zip slugs (gs[i := g]) = (zip slugs gs)[i := (slugs ! i, g)]"
    by (simp add: update_zip)
  then show ?thesis
    using mset_filter_update [of i "zip slugs gs" fst "has_sent \<circ> snd" "(slugs ! i, g)"] assms
    by (simp add: sent_slugs_def del: mset_filter mset_map split: if_splits)
qed

lemma results_sent:
  assumes "(fan_step ops K slugs)\<^sup>*\<^sup>* (fan_init slugs w) s" and "0 < K"
  shows "mset (map fst (f_results s)) = sent_slugs slugs (f_gs s)"
  using assms(1)
proof (induction rule: rtranclp_induct)
  case base
  then show ?case
    by (auto simp: fan_init_def sent_slugs_def has_sent_def filter_empty_conv set_zip)
next
  case (step s t)
  have len: "length (f_gs s) = length slugs"
    using fan.inv_reach [OF step(1) fan_inv_init [OF assms(2)]] by (simp add: fan_inv_def)
  from step(2) obtain i where "gor_step ops K slugs i s = Some t"
    by cases
  then show ?case
  proof (cases rule: gor_step_cases)
    case release
    then show ?thesis
      using step.IH sent_slugs_update [OF release(1) len, of Finished] by (simp add: has_sent_def)
  qed (use step.IH sent_slugs_update [of i "f_gs s" slugs, OF _ len] in \<open>auto simp: has_sent_def\<close>)
qed

lemma fan_done_nth:
  assumes "fan_done s" and "i < length (f_gs s)"
  shows "f_gs s ! i = Finished"
  using assms nth_mem unfolding fan_done_def by blast

lemma results_complete:
  assumes "(fan_step ops K slugs)\<^sup>*\<^sup>* (fan_init slugs w) s" and "0 < K" and "fan_done s"
  shows "mset (map fst (f_results s)) = mset slugs"
proof -
  have len: "length (f_gs s) = length slugs"
    using fan.inv_reach [OF assms(1) fan_inv_init [OF assms(2)]] by (simp add: fan_inv_def)
  have "filter (has_sent \<circ> snd) (zip slugs (f_gs s)) = zip slugs (f_gs s)"
    using fan_done_nth [OF assms(3)] len by (intro filter_True) (auto simp: set_zip has_sent_def)
  then show ?thesis
    using results_sent [OF assms(1,2)] len by (simp add: sent_slugs_def)
qed

text \<open>What the plan and the results hold of one goroutine whose slug is its own.\<close>

definition gor_inv :: "string \<Rightarrow> 'e gor \<Rightarrow> dispatch_plan \<Rightarrow> 'e brickOutcome list \<Rightarrow> bool" where
  "gor_inv slug g plan results \<longleftrightarrow>
     (case g of
        Recorded r \<Rightarrow> map_of plan slug = Some r \<and> (\<forall>x. (slug, x) \<notin> set results)
      | Sent \<Rightarrow> (\<exists>x. (slug, x) \<in> set results) \<and> (\<forall>r. map_of plan slug = Some r \<longleftrightarrow> (slug, Inr r) \<in> set results)
      | Finished \<Rightarrow> (\<exists>x. (slug, x) \<in> set results) \<and> (\<forall>r. map_of plan slug = Some r \<longleftrightarrow> (slug, Inr r) \<in> set results)
      | _ \<Rightarrow> map_of plan slug = None \<and> (\<forall>x. (slug, x) \<notin> set results))"

definition plan_inv :: "string list \<Rightarrow> ('w, 'e) fan \<Rightarrow> bool" where
  "plan_inv slugs s \<longleftrightarrow> length (f_gs s) = length slugs \<and>
     (\<forall>i < length slugs. gor_inv (slugs ! i) (f_gs s ! i) (f_plan s) (f_results s)) \<and>
     dom (map_of (f_plan s)) \<subseteq> set slugs \<and> wf_map (f_plan s)"

lemma gor_inv_cong:
  "map_of plan k = map_of plan' k \<Longrightarrow> (\<And>x. (k, x) \<in> set rs \<longleftrightarrow> (k, x) \<in> set rs') \<Longrightarrow>
    gor_inv k g plan rs = gor_inv k g plan' rs'"
  by (cases g) (simp_all add: gor_inv_def)

lemma gor_inv_outcome:
  "gor_inv k g plan rs \<Longrightarrow> (\<And>r'. g \<noteq> Recorded r') \<Longrightarrow> map_of plan k = Some r \<longleftrightarrow> (k, Inr r) \<in> set rs"
  by (cases g) (auto simp: gor_inv_def)

text \<open>A step of one goroutine leaves the others' part alone.\<close>

lemma plan_inv_goto:
  assumes "plan_inv slugs s" and "distinct slugs" and "i < length slugs"
    and "gor_inv (slugs ! i) g plan results"
    and "\<And>k. k \<noteq> slugs ! i \<Longrightarrow> map_of plan k = map_of (f_plan s) k"
    and "\<And>k x. k \<noteq> slugs ! i \<Longrightarrow> (k, x) \<in> set results \<longleftrightarrow> (k, x) \<in> set (f_results s)"
    and "wf_map plan"
  shows "plan_inv slugs \<lparr>f_world = w, f_plan = plan, f_gs = (f_gs s)[i := g], f_results = results\<rparr>"
proof -
  have "gor_inv (slugs ! j) (f_gs s ! j) plan results" if j: "j < length slugs" "j \<noteq> i" for j
  proof -
    have "slugs ! j \<noteq> slugs ! i"
      using assms(2,3) j by (simp add: nth_eq_iff_index_eq)
    from gor_inv_cong [OF assms(5) [OF this] assms(6) [OF this], of "f_gs s ! j"] show ?thesis
      using assms(1) j(1) by (simp add: plan_inv_def)
  qed
  moreover have "dom (map_of plan) \<subseteq> set slugs"
  proof
    fix k
    assume "k \<in> dom (map_of plan)"
    then show "k \<in> set slugs"
      using assms(1,3) assms(5) [of k] by (cases "k = slugs ! i") (auto simp: plan_inv_def dom_def)
  qed
  ultimately show ?thesis
    using assms(1,3,4,7) by (auto simp: plan_inv_def nth_list_update)
qed

lemma gor_inv_sent:
  assumes "(\<forall>x. (slug, x) \<notin> set results)" and "map_of plan slug = (case x of Inl e \<Rightarrow> None | Inr r \<Rightarrow> Some r)"
  shows "gor_inv slug Sent plan (results @ [(slug, x)])"
  using assms by (cases x) (auto simp: gor_inv_def)

lemma fan_eta: "s = \<lparr>f_world = f_world s, f_plan = f_plan s, f_gs = f_gs s, f_results = f_results s\<rparr>"
  by simp

lemma plan_inv_step:
  assumes "plan_inv slugs s" and "distinct slugs" and "fan_step ops K slugs s t"
  shows "plan_inv slugs t"
  using assms(3)
proof cases
  case (fan_stepI i)
  have i: "i < length slugs" if "i < length (f_gs s)"
    using assms(1) that by (simp add: plan_inv_def)
  have g: "gor_inv (slugs ! i) (f_gs s ! i) (f_plan s) (f_results s)" if "i < length (f_gs s)"
    using assms(1) i that by (simp add: plan_inv_def)
  have wf: "wf_map (f_plan s)"
    using assms(1) by (simp add: plan_inv_def)
  show ?thesis
    using fan_stepI
  proof (cases rule: gor_step_cases)
    case (send x)
    have "gor_inv (slugs ! i) Sent (f_plan s) (f_results s @ [(slugs ! i, x)])"
      using g [OF send(1)] send(2) by (intro gor_inv_sent) (auto simp: gor_inv_def)
    with send(1,3) wf i show ?thesis
      by (subst fan_eta, simp, intro plan_inv_goto [OF assms(1,2)]) auto
  qed (subst fan_eta, use g wf i in
      \<open>simp, intro plan_inv_goto [OF assms(1,2)]; auto simp: gor_inv_def wf_map_update update_conv'\<close>)+
qed

lemma plan_inv_reach:
  assumes "(fan_step ops K slugs)\<^sup>*\<^sup>* (fan_init slugs w) s" and "distinct slugs"
  shows "plan_inv slugs s"
  using assms(1)
proof (induction rule: rtranclp_induct)
  case base
  then show ?case
    by (simp add: plan_inv_def fan_init_def gor_inv_def)
qed (use plan_inv_step assms(2) in blast)

section \<open>Sequential runs\<close>

text \<open>With one slot, the snapshot of the brick that is at work is the plan.\<close>

definition fresh_inv :: "('w, 'e) fan \<Rightarrow> bool" where
  "fresh_inv s \<longleftrightarrow> (\<forall>i < length (f_gs s). \<forall>p. f_gs s ! i = Snapped p \<or> f_gs s ! i = Written p \<longrightarrow> map_of p = map_of (f_plan s))"

lemma fresh_inv_step:
  assumes "fan_inv 1 slugs s" and "fresh_inv s" and "fan_step ops 1 slugs s t"
  shows "fresh_inv t"
  using assms(3)
proof cases
  case (fan_stepI i)
  have alone: "\<not> holds (f_gs s ! j)" if "i < length (f_gs s)" "holds (f_gs s ! i)" "j < length (f_gs s)" "j \<noteq> i" for j
    using holders_two [of j "f_gs s" i] assms(1) that by (auto simp: fan_inv_def)
  show ?thesis
    using fan_stepI
  proof (cases rule: gor_step_cases)
    case (recording r)
    then have "f_gs s ! j \<noteq> Snapped p \<and> f_gs s ! j \<noteq> Written p" if "j < length (f_gs s)" "j \<noteq> i" for j p
      using alone [OF recording(1) _ that] by auto
    then show ?thesis
      using recording(1,3) by (auto simp: fresh_inv_def nth_list_update)
  qed (use assms(2) in \<open>auto simp: fresh_inv_def nth_list_update\<close>)
qed

lemma fresh_inv_reach:
  assumes "(fan_step ops 1 slugs)\<^sup>*\<^sup>* (fan_init slugs w) s"
  shows "fresh_inv s"
  using assms
proof (induction rule: rtranclp_induct)
  case base
  then show ?case
    by (simp add: fresh_inv_def fan_init_def)
next
  case (step s t)
  then show ?case
    using fresh_inv_step fan.inv_reach [OF step(1) fan_inv_init] by simp
qed

text \<open>
  With one slot, whatever writing the snapshot establishes still holds when the brick runs: no other
  goroutine touches the world in between.
\<close>

lemma written_stable:
  assumes "(fan_step ops 1 slugs)\<^sup>*\<^sup>* (fan_init slugs w) s"
    and "\<And>slug p w w'. fo_write ops slug p w = (w', None) \<Longrightarrow> wf_map p \<Longrightarrow> Q slug p w'"
  shows "i < length (f_gs s) \<Longrightarrow>
    (f_gs s ! i = Snapped p \<longrightarrow> wf_map p) \<and> (f_gs s ! i = Written p \<longrightarrow> wf_map p \<and> Q (slugs ! i) p (f_world s))"
  using assms(1)
proof (induction arbitrary: i p rule: rtranclp_induct)
  case base
  then show ?case
    by (simp add: fan_init_def)
next
  case (step s t)
  have inv: "fan_inv 1 slugs s"
    using fan.inv_reach [OF step(1) fan_inv_init] by simp
  from step(2) obtain j where j: "gor_step ops 1 slugs j s = Some t"
    by cases
  show ?case
  proof (cases "j = i")
    case True
    have len: "i < length (f_gs s)"
      using gor_step_gs [OF j] True by blast
    show ?thesis
    proof (cases "f_gs s ! i")
      case (Snapped q)
      obtain w' e where w': "fo_write ops (slugs ! i) q (f_world s) = (w', e)"
        by force
      have "wf_map q"
        using step.IH [OF len] Snapped by blast
      then have "e = None \<Longrightarrow> Q (slugs ! i) q w'"
        using assms(2) w' by blast
      then show ?thesis
        using j True len Snapped w' \<open>wf_map q\<close> by (cases e) (auto simp: gor_step_def)
    next
      case (Written q)
      then show ?thesis
        using j True len by (auto simp: gor_step_def split: prod.splits option.splits)
    next
      case Done
      then show ?thesis
        using j True len by (auto simp: gor_step_def split: sum.splits)
    qed (use j True len in \<open>auto simp: gor_step_def split: if_splits\<close>)
  next
    case False
    from gor_step_gs [OF j] obtain g where g: "j < length (f_gs s)" "f_gs t = (f_gs s)[j := g]" .
    then have i: "i < length (f_gs s)" "f_gs t ! i = f_gs s ! i" "j < length (f_gs s)"
      using step.prems False by simp_all
    have "f_world t = f_world s" if "holds (f_gs s ! i)"
    proof -
      have "\<not> holds (f_gs s ! j)"
        using holders_two [OF i(1,3)] False that inv by (auto simp: fan_inv_def)
      from j this show ?thesis
        by (cases rule: gor_step_cases) auto
    qed
    then show ?thesis
      using step.IH [OF i(1), of p] i(2) by auto
  qed
qed

text \<open>While a brick is at work in a sequential round, its snapshot holds the results of the bricks before it.\<close>

lemma sequential_snapshot:
  assumes "(fan_step ops 1 slugs)\<^sup>*\<^sup>* (fan_init slugs w) s" and "distinct slugs" and "i < length slugs"
    and "f_gs s ! i = Snapped p \<or> f_gs s ! i = Written p"
  shows "map_of p k = Some r \<longleftrightarrow> (k, Inr r) \<in> set (f_results s)"
proof -
  have inv: "fan_inv 1 slugs s" and plan: "plan_inv slugs s" and fresh: "fresh_inv s"
    using fan.inv_reach [OF assms(1) fan_inv_init] plan_inv_reach [OF assms(1,2)] fresh_inv_reach [OF assms(1)] by simp_all
  have len: "length (f_gs s) = length slugs"
    using inv by (simp add: fan_inv_def)
  have "map_of p = map_of (f_plan s)"
    using fresh assms(3,4) len by (auto simp: fresh_inv_def)
  moreover have "f_gs s ! j \<noteq> Recorded r'" if "j < length slugs" for j r'
    using holders_two [of i "f_gs s" j] inv assms(3,4) that len by (cases "i = j") (auto simp: fan_inv_def)
  then have "map_of (f_plan s) k = Some r \<longleftrightarrow> (k, Inr r) \<in> set (f_results s)" if "k \<in> set slugs"
    using that plan gor_inv_outcome unfolding in_set_conv_nth [of k] plan_inv_def by metis
  moreover have "map_of (f_plan s) k = Some r \<longrightarrow> k \<in> set slugs"
    using plan by (auto simp: plan_inv_def)
  moreover have "(k, Inr r) \<in> set (f_results s) \<longrightarrow> k \<in> set slugs"
  proof
    assume "(k, Inr r) \<in> set (f_results s)"
    then have "k \<in># sent_slugs slugs (f_gs s)"
      unfolding results_sent [OF assms(1) zero_less_one, symmetric] by force
    then show "k \<in> set slugs"
      by (auto simp: sent_slugs_def dest: set_zip_leftD)
  qed
  ultimately show ?thesis
    by (metis (no_types, lifting))
qed

section \<open>Schedules\<close>

lemma run_schedule_reach: "(fan_step ops K slugs)\<^sup>*\<^sup>* s (run_schedule ops K slugs sched s)"
proof (induction sched arbitrary: s)
  case (Cons i sched)
  show ?case
  proof (cases "gor_step ops K slugs i s")
    case (Some t)
    from converse_rtranclp_into_rtranclp [OF fan_stepI [OF this] Cons.IH] show ?thesis
      using Some by simp
  qed (simp add: Cons.IH)
qed simp

lemma reach_schedule: "(fan_step ops K slugs)\<^sup>*\<^sup>* s t \<Longrightarrow> \<exists>sched. run_schedule ops K slugs sched s = t"
proof (induction rule: converse_rtranclp_induct)
  case base
  show ?case by (rule exI [of _ "[]"]) simp
next
  case (step s u)
  then obtain i sched where "gor_step ops K slugs i s = Some u" "run_schedule ops K slugs sched u = t"
    by (auto elim: fan_step.cases)
  then show ?case by (intro exI [of _ "i # sched"]) simp
qed

lemma run_schedule_append: "run_schedule ops K slugs (xs @ ys) s = run_schedule ops K slugs ys (run_schedule ops K slugs xs s)"
  by (induction xs arbitrary: s) simp_all

lemma schedule_completes:
  assumes "0 < K"
  shows "\<exists>more. fan_done (run_schedule ops K slugs (sched @ more) (fan_init slugs w))"
proof -
  let ?s = "run_schedule ops K slugs sched (fan_init slugs w)"
  have "fan_inv K slugs ?s"
    using fan.inv_reach [OF run_schedule_reach fan_inv_init [OF assms]] .
  then obtain t where "(fan_step ops K slugs)\<^sup>*\<^sup>* ?s t" "fan_done t"
    using fan.completes by blast
  then show ?thesis
    using reach_schedule run_schedule_append by metis
qed

section \<open>Properties\<close>

text \<open>
  C9 (\<open>Run\<close>, the fan-out). Whatever the bricks do and however the goroutines interleave: at
  most \<open>K\<close> of them hold a slot, a run takes at most eight steps for each brick, and as long
  as a goroutine has not finished some goroutine can move, so there is no deadlock.
\<close>

theorem fan_out_pool:
  assumes "0 < K" and "(fan_step ops K slugs ^^ n) (fan_init slugs w) s"
  shows "holders (f_gs s) \<le> K \<and> n \<le> 8 * length slugs \<and> (fan_done s \<or> (\<exists>t. fan_step ops K slugs s t))"
proof -
  note inv = fan_inv_init [OF assms(1), of slugs w]
  have "fan_inv K slugs s"
    using fan.inv_reach [OF relpowp_imp_rtranclp [OF assms(2)] inv] .
  moreover have "n + fan_rank s \<le> 8 * length slugs"
    using fan.run_bound [OF assms(2) inv] by simp
  ultimately show ?thesis
    using fan_progress by (auto simp: fan_inv_def)
qed

text \<open>Three bricks, of which the second fails, with two slots.\<close>

definition sample_ops :: "(nat, string) fan_ops" where
  "sample_ops = \<lparr>fo_write = (\<lambda>_ _ w. (w + 1, None)), fo_run = (\<lambda>slug w. (w + 1, if slug = ''b'' then Some ''no'' else None)),
     fo_load = (\<lambda>slug w. Inr (zero_result\<lparr>r_status := ''idempotent'', r_fingerprint := slug\<rparr>))\<rparr>"

abbreviation sample_run :: "nat \<Rightarrow> nat list \<Rightarrow> (nat, string) fan" where
  "sample_run K sched \<equiv> run_schedule sample_ops K [''a'', ''b'', ''c''] sched (fan_init [''a'', ''b'', ''c''] 0)"

theorem fan_out_pool_witness:
  "holders (f_gs (sample_run 2 [0])) \<le> 2 \<and> fan_step sample_ops 2 [''a'', ''b'', ''c''] (fan_init [''a'', ''b'', ''c''] 0) (sample_run 2 [0])"
proof -
  have step: "fan_step sample_ops 2 [''a'', ''b'', ''c''] (fan_init [''a'', ''b'', ''c''] 0) (sample_run 2 [0])"
    by (rule fan_stepI [of _ _ _ 0]) (simp add: gor_step_def fan_init_def holders_def goto_def)
  then have "(fan_step sample_ops 2 [''a'', ''b'', ''c''] ^^ 1) (fan_init [''a'', ''b'', ''c''] 0) (sample_run 2 [0])"
    by (simp only: relpowp_1)
  from fan_out_pool [OF _ this] step show ?thesis by simp
qed

text \<open>
  C5 (\<open>Run\<close>, the fan-out). When every goroutine has finished, each dispatched brick has sent
  exactly one outcome, and for bricks without repetition the running plan
  holds exactly the results of the bricks that did not fail.
\<close>

theorem fan_out_results:
  assumes "0 < K" and "(fan_step ops K slugs)\<^sup>*\<^sup>* (fan_init slugs w) s" and "fan_done s"
  shows "mset (map fst (f_results s)) = mset slugs \<and>
    (distinct slugs \<longrightarrow> (\<forall>k r. map_of (f_plan s) k = Some r \<longleftrightarrow> (k, Inr r) \<in> set (f_results s)))"
proof (intro conjI impI allI)
  have len: "length (f_gs s) = length slugs"
    using fan.inv_reach [OF assms(2) fan_inv_init [OF assms(1)]] by (simp add: fan_inv_def)
  show sent: "mset (map fst (f_results s)) = mset slugs"
    by (rule results_complete [OF assms(2,1,3)])
  fix k r
  assume d: "distinct slugs"
  note inv = plan_inv_reach [OF assms(2) d]
  have "map_of (f_plan s) k = Some r \<longrightarrow> k \<in> set slugs" "(k, Inr r) \<in> set (f_results s) \<longrightarrow> k \<in> set slugs"
    using inv arg_cong [OF sent, of set_mset] by (force simp: plan_inv_def)+
  moreover have "map_of (f_plan s) k = Some r \<longleftrightarrow> (k, Inr r) \<in> set (f_results s)" if "k \<in> set slugs"
  proof -
    obtain i where i: "i < length slugs" "slugs ! i = k"
      using \<open>k \<in> set slugs\<close> by (auto simp: in_set_conv_nth)
    with inv have "gor_inv k (f_gs s ! i) (f_plan s) (f_results s)"
      by (auto simp: plan_inv_def)
    then show ?thesis
      using fan_done_nth [OF assms(3)] i(1) len by (intro gor_inv_outcome) auto
  qed
  ultimately show "map_of (f_plan s) k = Some r \<longleftrightarrow> (k, Inr r) \<in> set (f_results s)"
    by blast
qed

theorem fan_out_results_witness:
  "mset (map fst (f_results (sample_run 2 (concat (replicate 16 [0, 1, 2]))))) = {#''a'', ''b'', ''c''#}"
proof -
  let ?s = "sample_run 2 (concat (replicate 16 [0, 1, 2]))"
  have "fan_done ?s"
    by code_simp
  from fan_out_results [OF _ run_schedule_reach this] show ?thesis by simp
qed

section \<open>Refinement\<close>










end
