(* ===== verification/GoFmt.thy ===== *)
theory GoFmt
  imports GoBase
begin

text \<open>
  Decimal numbers as \<open>fmt\<close> prints them with \<open>%d\<close> and \<open>strconv.Atoi\<close> reads them (a 64-bit
  \<open>int\<close>), and the line helpers built on \<open>strings.Split(s, "\n")\<close>.
\<close>

section \<open>Decimal numbers\<close>

definition digit :: "nat \<Rightarrow> char" where
  "digit d = char_of (48 + d)"

definition digit_val :: "char \<Rightarrow> nat" where
  "digit_val c = of_char c - 48"

definition is_digit :: "char \<Rightarrow> bool" where
  "is_digit c \<longleftrightarrow> CHR ''0'' \<le> c \<and> c \<le> CHR ''9''"

fun itoa :: "nat \<Rightarrow> string" where
  "itoa n = (if n < 10 then [digit n] else itoa (n div 10) @ [digit (n mod 10)])"

declare itoa.simps [simp del]

definition digits_val :: "string \<Rightarrow> nat" where
  "digits_val ds = foldl (\<lambda>n c. 10 * n + digit_val c) 0 ds"

text \<open>An optional sign, then digits; values outside the 64-bit range are errors.\<close>

definition Atoi :: "string \<Rightarrow> int option" where
  "Atoi s =
     (let sign = (s \<noteq> [] \<and> hd s \<in> {CHR ''+'', CHR ''-''});
          ds = (if sign then tl s else s);
          n = int (digits_val ds);
          v = (if sign \<and> hd s = CHR ''-'' then - n else n)
      in if ds = [] \<or> \<not> list_all is_digit ds then None
         else if v < - (2 ^ 63) \<or> v \<ge> 2 ^ 63 then None
         else Some v)"

lemma of_char_digit: "d < 10 \<Longrightarrow> (of_char (digit d) :: nat) = 48 + d"
  by (simp add: digit_def)

lemma digit_val_digit [simp]: "d < 10 \<Longrightarrow> digit_val (digit d) = d"
  by (simp add: digit_val_def of_char_digit)

lemma is_digit_digit [simp]: "d < 10 \<Longrightarrow> is_digit (digit d)"
  by (simp add: is_digit_def less_eq_char_def of_char_digit)

lemma is_digit_sign: "is_digit c \<Longrightarrow> c \<notin> {CHR ''+'', CHR ''-''}"
  by (auto simp: is_digit_def less_eq_char_def)

lemma itoa_digits: "itoa n \<noteq> [] \<and> list_all is_digit (itoa n)"
proof (induction n rule: itoa.induct)
  case (1 n)
  then show ?case
    by (simp add: itoa.simps [of n])
qed

lemma digits_val_itoa [simp]: "digits_val (itoa n) = n"
proof (induction n rule: itoa.induct)
  case (1 n)
  then show ?case
    by (simp add: itoa.simps [of n] digits_val_def)
qed

lemma Atoi_itoa: "int n < 2 ^ 63 \<Longrightarrow> Atoi (itoa n) = Some (int n)"
proof -
  assume n: "int n < 2 ^ 63"
  have "hd (itoa n) \<notin> {CHR ''+'', CHR ''-''}"
    using itoa_digits [of n] is_digit_sign by (metis list.set_sel(1) list_all_iff)
  then show ?thesis
    using n itoa_digits [of n] by (simp add: Atoi_def Let_def)
qed

lemma itoa_inj: "itoa m = itoa n \<Longrightarrow> m = n"
  by (metis digits_val_itoa)

section \<open>Lines\<close>

abbreviation newline :: char where
  "newline \<equiv> CHR 0x0A"

text \<open>The non-empty lines of a command's trimmed output.\<close>

definition output_lines :: "string \<Rightarrow> string list" where
  "output_lines out = filter (\<lambda>l. l \<noteq> []) (split_on newline (trim_space out))"

lemma output_lines_line: "l \<in> set (output_lines out) \<Longrightarrow> l \<noteq> [] \<and> newline \<notin> set l"
  using split_on_sep_free [of l newline] by (auto simp: output_lines_def)

text \<open>A string between double quotes, without escapes.\<close>

definition quoted :: "string \<Rightarrow> string" where
  "quoted s = [CHR 0x22] @ s @ [CHR 0x22]"

end
