(* ===== verification/Lane.thy ===== *)
theory Lane
  imports GoFS GoFmt
begin

text \<open>
  Worktrees and lanes of a dispatch round: \<open>lib/runner/runner.go\<close> (\<open>Run\<close>, \<open>Output\<close>),
  \<open>lib/dispatch/worktree.go\<close>, \<open>lib/dispatch/coordmerge.go\<close>, \<open>lib/dispatch/agent.go\<close> and
  \<open>reconcileLane\<close> of \<open>lib/dispatch/dispatch.go\<close>. The commands that were started are logged in the
  world; what a program does is the parameter \<open>exec\<close>, a function of the whole world, so that
  every behaviour of git is covered.
\<close>

section \<open>Subprocesses (runner.go)\<close>

record opts =
  Args :: "string list"
  Dir :: string
  Env :: "string list"

record world =
  w_fs :: gofs
  w_log :: "opts list"

text \<open>The files after the program ran and its output, \<open>None\<close> when it failed.\<close>

type_synonym exec = "opts \<Rightarrow> world \<Rightarrow> gofs \<times> string option"

definition raw_output :: "exec \<Rightarrow> opts \<Rightarrow> world \<Rightarrow> world \<times> string option" where
  "raw_output exec o1 w =
     (if Args o1 = [] then (w, None)
      else case exec o1 w of (fs, out) \<Rightarrow> (w\<lparr>w_fs := fs, w_log := w_log w @ [o1]\<rparr>, out))"

definition runner_Run :: "exec \<Rightarrow> opts \<Rightarrow> world \<Rightarrow> world \<times> bool" where
  "runner_Run exec o1 w = (case raw_output exec o1 w of (w', out) \<Rightarrow> (w', out \<noteq> None))"

definition runner_Output :: "exec \<Rightarrow> opts \<Rightarrow> world \<Rightarrow> world \<times> string option" where
  "runner_Output exec o1 w = (case raw_output exec o1 w of (w', out) \<Rightarrow> (w', map_option trim_space out))"

text \<open>A command in a directory with the inherited environment.\<close>

definition cmd :: "string list \<Rightarrow> string \<Rightarrow> opts" where
  "cmd args d = \<lparr>Args = args, Dir = d, Env = []\<rparr>"

section \<open>Relative paths\<close>

text \<open>\<open>filepath.Rel\<close> on cleaned paths: up from the rest of the base, down the rest of the target.\<close>

definition path_parts :: "string \<Rightarrow> string list" where
  "path_parts p = filter (\<lambda>c. c \<notin> {'''', ''.''}) (split_on slash (fp_clean p))"

fun strip_common :: "string list \<Rightarrow> string list \<Rightarrow> string list \<times> string list" where
  "strip_common (x # xs) (y # ys) = (if x = y then strip_common xs ys else (x # xs, y # ys))"
| "strip_common xs ys = (xs, ys)"

definition fp_rel :: "string \<Rightarrow> string \<Rightarrow> string option" where
  "fp_rel base targ =
     (if fp_is_abs (fp_clean base) \<noteq> fp_is_abs (fp_clean targ) then None
      else case strip_common (path_parts base) (path_parts targ) of
        (b, t) \<Rightarrow>
          if b \<noteq> [] \<and> hd b = ''..'' then None
          else let r = join ''/'' (replicate (length b) ''..'' @ t) in Some (if r = '''' then ''.'' else r))"

section \<open>Worktrees (worktree.go)\<close>

record worktree =
  wt_Slug :: string
  wt_Path :: string
  wt_AgentWorkDir :: string
  wt_Branch :: string
  wt_Base :: string

datatype lane_error =
    EmptyFromSHA | Canonicalize | ResolveRev string | ResolveToplevel | RelPath | MkdirParent | AddWorktree string
  | ResolveBranch string | MergeFailed string | RemoveFailed string | DeleteBranch string
  | LaneDiffFailed | NoSidecarPaths | SidecarDiff | SidecarEmpty | SidecarWrite string
  | RevertMerge string | RevertRestore | RevertStatus | StillDirty string | RevertCommit
  | StatusFailed | AddFailed | CommitFailed

text \<open>What the code asks the system: symbolic links, and whether a directory can be made.\<close>

record sys =
  s_exec :: exec
  s_evalSymlinks :: "string \<Rightarrow> string option"
  s_mkdir :: "string \<Rightarrow> bool"
  s_environ :: "string list"

fun mise_trust :: "sys \<Rightarrow> string \<Rightarrow> string list \<Rightarrow> world \<Rightarrow> world" where
  "mise_trust s workDir [] w = w"
| "mise_trust s workDir (p # ps) w =
     (if fs_files (w_fs w) p = None then mise_trust s workDir ps w
      else mise_trust s workDir ps (fst (runner_Run (s_exec s) (cmd [''mise'', ''trust'', ''--quiet'', p] workDir) w)))"

definition add_worktree :: "sys \<Rightarrow> string \<Rightarrow> string \<Rightarrow> string \<Rightarrow> string \<Rightarrow> string \<Rightarrow> string \<Rightarrow> string \<Rightarrow> world \<Rightarrow>
    world \<times> (lane_error + worktree)" where
  "add_worktree s workDir runID slug subdir branchPrefix base relWorkDir w =
     (let branch = branchPrefix @ ''/'' @ runID @ ''/'' @ slug;
          wtPath = fp_join [workDir, ''.defn'', ''dispatch'', runID, subdir, slug];
          agentWD = fp_join [wtPath, relWorkDir];
          candidates =
            [fp_join [wtPath, ''mise.toml''], fp_join [agentWD, ''mise.toml''],
             fp_join [wtPath, ''.config'', ''mise'', ''config.toml''],
             fp_join [agentWD, ''root'', ''.config'', ''mise'', ''config.toml'']]
      in if \<not> s_mkdir s (fp_dir wtPath) then (w, Inl MkdirParent)
         else case runner_Run (s_exec s) (cmd [''git'', ''worktree'', ''add'', ''-b'', branch, wtPath, base] workDir) w of
           (w1, ok) \<Rightarrow>
             if ok then (mise_trust s workDir candidates w1,
               Inr \<lparr>wt_Slug = slug, wt_Path = wtPath, wt_AgentWorkDir = agentWD, wt_Branch = branch, wt_Base = base\<rparr>)
             else (w1, Inl (AddWorktree wtPath)))"

definition createWorktreeAt :: "sys \<Rightarrow> string \<Rightarrow> string \<Rightarrow> string \<Rightarrow> string \<Rightarrow> string \<Rightarrow> string \<Rightarrow> world \<Rightarrow>
    world \<times> (lane_error + worktree)" where
  "createWorktreeAt s workDir0 runID slug subdir branchPrefix fromRev w =
     (case s_evalSymlinks s workDir0 of
        None \<Rightarrow> (w, Inl Canonicalize)
      | Some workDir \<Rightarrow>
     (case runner_Output (s_exec s) (cmd [''git'', ''rev-parse'', fromRev] workDir) w of
        (w1, None) \<Rightarrow> (w1, Inl (ResolveRev fromRev))
      | (w1, Some base) \<Rightarrow>
     (case runner_Output (s_exec s) (cmd [''git'', ''rev-parse'', ''--show-toplevel''] workDir) w1 of
        (w2, None) \<Rightarrow> (w2, Inl ResolveToplevel)
      | (w2, Some toplevel) \<Rightarrow>
     (case fp_rel toplevel workDir of
        None \<Rightarrow> (w2, Inl RelPath)
      | Some relWorkDir \<Rightarrow> add_worktree s workDir runID slug subdir branchPrefix base relWorkDir w2))))"

definition CreateWorktree :: "sys \<Rightarrow> string \<Rightarrow> string \<Rightarrow> string \<Rightarrow> world \<Rightarrow> world \<times> (lane_error + worktree)" where
  "CreateWorktree s workDir runID slug = createWorktreeAt s workDir runID slug ''wt'' ''dispatch'' ''HEAD''"

definition CreateMergeWorktree :: "sys \<Rightarrow> string \<Rightarrow> string \<Rightarrow> string \<Rightarrow> string \<Rightarrow> world \<Rightarrow> world \<times> (lane_error + worktree)" where
  "CreateMergeWorktree s workDir runID slug fromSHA w =
     (if trim_space fromSHA = '''' then (w, Inl EmptyFromSHA)
      else createWorktreeAt s workDir runID slug ''merge'' ''merge'' fromSHA w)"

definition MergeWorktree :: "sys \<Rightarrow> string \<Rightarrow> worktree \<Rightarrow> world \<Rightarrow> world \<times> lane_error option" where
  "MergeWorktree s workDir wt w =
     (case runner_Output (s_exec s) (cmd [''git'', ''rev-parse'', wt_Branch wt] workDir) w of
        (w1, None) \<Rightarrow> (w1, Some (ResolveBranch (wt_Branch wt)))
      | (w1, Some cur) \<Rightarrow>
          if trim_space cur = trim_space (wt_Base wt) then (w1, None)
          else case runner_Run (s_exec s) (cmd [''git'', ''merge'', ''--no-ff'', ''--no-edit'', wt_Branch wt] workDir) w1 of
            (w2, ok) \<Rightarrow> (w2, if ok then None else Some (MergeFailed (wt_Branch wt))))"

definition RemoveWorktree :: "sys \<Rightarrow> string \<Rightarrow> worktree \<Rightarrow> world \<Rightarrow> world \<times> lane_error option" where
  "RemoveWorktree s workDir wt w =
     (case runner_Run (s_exec s) (cmd [''git'', ''worktree'', ''remove'', ''--force'', wt_Path wt] workDir) w of
        (w1, ok1) \<Rightarrow>
     (case runner_Run (s_exec s) (cmd [''git'', ''branch'', ''-D'', wt_Branch wt] workDir) w1 of
        (w2, ok2) \<Rightarrow>
          (w2, if \<not> ok1 then Some (RemoveFailed (wt_Path wt))
               else if \<not> ok2 then Some (DeleteBranch (wt_Branch wt)) else None)))"

section \<open>Lanes (coordmerge.go)\<close>

definition env_name :: "string \<Rightarrow> string option" where
  "env_name kv = (if CHR ''='' \<in> set kv then Some (takeWhile (\<lambda>c. c \<noteq> CHR ''='') kv) else None)"

definition gitPlainEnv :: "string list \<Rightarrow> string list" where
  "gitPlainEnv src =
     filter (\<lambda>kv. env_name kv \<notin> {Some ''GIT_EXTERNAL_DIFF'', Some ''GIT_DIFF_OPTS'', Some ''GIT_PAGER''}) src"

definition in_lane :: "string \<Rightarrow> string \<Rightarrow> bool" where
  "in_lane brickPath p =
     (let bp = trim_suffix brickPath ''/'' in bp \<noteq> '''' \<and> (p = bp \<or> has_prefix p (bp @ ''/'')))"

definition LanePartition :: "string list \<Rightarrow> string \<Rightarrow> string list \<times> string list" where
  "LanePartition diffPaths brickPath =
     (let ps = filter (\<lambda>p. p \<noteq> '''') diffPaths in
      (sort (filter (in_lane brickPath) ps), sort (filter (\<lambda>p. \<not> in_lane brickPath p) ps)))"

definition LaneDiff :: "sys \<Rightarrow> string \<Rightarrow> string \<Rightarrow> string \<Rightarrow> world \<Rightarrow> world \<times> string list option" where
  "LaneDiff s workDir base branch w =
     (case runner_Output (s_exec s) (cmd [''git'', ''diff'', ''--name-only'', ''--relative'', base @ ''..'' @ branch] workDir) w of
        (w1, None) \<Rightarrow> (w1, None)
      | (w1, Some out) \<Rightarrow>
          (w1, Some (if trim_space out = '''' then []
                     else filter (\<lambda>l. l \<noteq> '''') (map trim_space (split_on newline out)))))"

definition WriteSidecarPatch :: "sys \<Rightarrow> string \<Rightarrow> string \<Rightarrow> string \<Rightarrow> string list \<Rightarrow> string \<Rightarrow> world \<Rightarrow> world \<times> lane_error option" where
  "WriteSidecarPatch s workDir base branch paths dest w =
     (if paths = [] then (w, Some NoSidecarPaths)
      else case runner_Output (s_exec s)
          \<lparr>Args = [''git'', ''diff'', ''--binary'', base @ ''..'' @ branch, ''--''] @ paths, Dir = workDir,
           Env = gitPlainEnv (s_environ s)\<rparr> w of
        (w1, None) \<Rightarrow> (w1, Some SidecarDiff)
      | (w1, Some out) \<Rightarrow>
          if trim_space out = '''' then (w1, Some SidecarEmpty)
          else let out' = (if has_suffix out [newline] then out else out @ [newline]) in
            case WriteFile dest out' 420 (w_fs w1) of
              None \<Rightarrow> (w1, Some (SidecarWrite dest))
            | Some fs \<Rightarrow> (w1\<lparr>w_fs := fs\<rparr>, None))"

text \<open>The paths of \<open>git status --porcelain -z\<close> as the code reads them.\<close>

definition status_paths :: "string \<Rightarrow> string list" where
  "status_paths status = map (drop 3) (filter (\<lambda>e. \<not> length e < 4) (split_on (CHR 0x00) status))"

definition MergeAndRevert :: "sys \<Rightarrow> worktree \<Rightarrow> string \<Rightarrow> string list \<Rightarrow> world \<Rightarrow> world \<times> lane_error option" where
  "MergeAndRevert s mergeWT agentBranch outOfLane w =
     (case runner_Run (s_exec s) (cmd [''git'', ''merge'', ''--no-commit'', ''--no-ff'', agentBranch] (wt_Path mergeWT)) w of
        (w1, False) \<Rightarrow> (w1, Some (RevertMerge agentBranch))
      | (w1, True) \<Rightarrow>
          (let commit = (\<lambda>w. case runner_Run (s_exec s) (cmd [''git'', ''commit'', ''-m'',
                   ''agent '' @ wt_Slug mergeWT @ '': in-lane merge (out-of-lane pruned)''] (wt_Path mergeWT)) w of
                 (w', ok) \<Rightarrow> (w', if ok then None else Some RevertCommit))
           in if outOfLane = [] then commit w1
              else case runner_Run (s_exec s) (cmd ([''git'', ''restore'', ''--source=HEAD'', ''--staged'', ''--worktree'', ''--''] @ outOfLane)
                     (wt_Path mergeWT)) w1 of
                (w2, False) \<Rightarrow> (w2, Some RevertRestore)
              | (w2, True) \<Rightarrow>
                  (case runner_Output (s_exec s) (cmd [''git'', ''status'', ''--porcelain'', ''-z'', ''--''] (wt_Path mergeWT)) w2 of
                     (w3, None) \<Rightarrow> (w3, Some RevertStatus)
                   | (w3, Some status) \<Rightarrow>
                       (case find (\<lambda>p. p \<in> set outOfLane) (status_paths status) of
                          Some p \<Rightarrow> (w3, Some (StillDirty p))
                        | None \<Rightarrow> commit w3))))"

section \<open>The agent's commit (agent.go)\<close>

definition autoCommitWorktree :: "sys \<Rightarrow> string \<Rightarrow> string \<Rightarrow> world \<Rightarrow> world \<times> lane_error option" where
  "autoCommitWorktree s workDir slug w =
     (case raw_output (s_exec s) (cmd [''git'', ''status'', ''-z'', ''--porcelain''] workDir) w of
        (w1, None) \<Rightarrow> (w1, Some StatusFailed)
      | (w1, Some raw) \<Rightarrow>
          if raw = '''' then (w1, None)
          else case runner_Run (s_exec s) (cmd [''git'', ''add'', ''-A''] workDir) w1 of
            (w2, False) \<Rightarrow> (w2, Some AddFailed)
          | (w2, True) \<Rightarrow>
              (case runner_Run (s_exec s) (cmd [''git'', ''commit'', ''-qm'', ''agent '' @ slug @ '': dispatched edits''] workDir) w2 of
                 (w3, ok) \<Rightarrow> (w3, if ok then None else Some CommitFailed)))"

section \<open>Reconciling one lane (dispatch.go)\<close>

definition gitRevParse :: "sys \<Rightarrow> string \<Rightarrow> string \<Rightarrow> world \<Rightarrow> world \<times> string option" where
  "gitRevParse s workDir revision = runner_Output (s_exec s) (cmd [''git'', ''rev-parse'', revision] workDir)"

record reconcileOutcome =
  ro_merged :: bool
  ro_sidecarPath :: string

definition sidecar_rel :: "string \<Rightarrow> string \<Rightarrow> string" where
  "sidecar_rel runID slug = fp_join [''.defn'', ''dispatch'', runID, ''out_of_lane'', slug @ ''.patch'']"

text \<open>The mixed case: merge in a temporary worktree, prune, merge the pruned branch.\<close>

definition merge_pruned :: "sys \<Rightarrow> string \<Rightarrow> string \<Rightarrow> worktree \<Rightarrow> string list \<Rightarrow> world \<Rightarrow> world \<times> lane_error option" where
  "merge_pruned s workDir runID wt outOfLane w =
     (case gitRevParse s workDir ''HEAD'' w of
        (w1, None) \<Rightarrow> (w1, Some (ResolveRev ''HEAD''))
      | (w1, Some coordHEAD) \<Rightarrow>
     (case CreateMergeWorktree s workDir runID (wt_Slug wt) coordHEAD w1 of
        (w2, Inl e) \<Rightarrow> (w2, Some e)
      | (w2, Inr mergeWT) \<Rightarrow>
     (case MergeAndRevert s mergeWT (wt_Branch wt) outOfLane w2 of
        (w3, Some e) \<Rightarrow> (w3, Some e)
      | (w3, None) \<Rightarrow>
     (case MergeWorktree s workDir mergeWT w3 of
        (w4, Some e) \<Rightarrow> (w4, Some e)
      | (w4, None) \<Rightarrow> (fst (RemoveWorktree s workDir mergeWT w4), None)))))"

definition reconcileLane :: "sys \<Rightarrow> string \<Rightarrow> string \<Rightarrow> worktree \<Rightarrow> string \<Rightarrow> world \<Rightarrow> world \<times> (lane_error + reconcileOutcome)" where
  "reconcileLane s workDir runID wt brickPath w =
     (case LaneDiff s workDir (wt_Base wt) (wt_Branch wt) w of
        (w1, None) \<Rightarrow> (w1, Inl LaneDiffFailed)
      | (w1, Some paths) \<Rightarrow>
          if paths = [] then (w1, Inr \<lparr>ro_merged = False, ro_sidecarPath = ''''\<rparr>)
          else (case LanePartition paths brickPath of
            (inLane, outOfLane) \<Rightarrow>
              (let sidecarRel = (if outOfLane \<noteq> [] then sidecar_rel runID (wt_Slug wt) else '''') in
               case (if outOfLane \<noteq> [] then WriteSidecarPatch s workDir (wt_Base wt) (wt_Branch wt) outOfLane (fp_join [workDir, sidecarRel]) w1
                     else (w1, None)) of
                 (w2, Some e) \<Rightarrow> (w2, Inl e)
               | (w2, None) \<Rightarrow>
                   if inLane = [] then (w2, Inr \<lparr>ro_merged = False, ro_sidecarPath = sidecarRel\<rparr>)
                   else (case (if outOfLane = [] then MergeWorktree s workDir wt w2 else merge_pruned s workDir runID wt outOfLane w2) of
                       (w3, Some e) \<Rightarrow> (w3, Inl e)
                     | (w3, None) \<Rightarrow> (w3, Inr \<lparr>ro_merged = True, ro_sidecarPath = sidecarRel\<rparr>)))))"

section \<open>The commands of an operation\<close>

text \<open>The commands that were started between two worlds.\<close>

definition started :: "opts list \<Rightarrow> world \<Rightarrow> world \<Rightarrow> bool" where
  "started cs w w' \<longleftrightarrow> w_log w' = w_log w @ cs"

lemma started_refl [simp]: "started [] w w"
  by (simp add: started_def)

lemma started_trans: "started cs w w1 \<Longrightarrow> started ds w1 w2 \<Longrightarrow> started (cs @ ds) w w2"
  by (simp add: started_def)

lemma started_fs [simp]: "started cs w (w'\<lparr>w_fs := fs\<rparr>) \<longleftrightarrow> started cs w w'"
  by (simp add: started_def)

lemma started_raw: "Args o1 \<noteq> [] \<Longrightarrow> raw_output exec o1 w = (w', out) \<Longrightarrow> started [o1] w w'"
  by (auto simp: raw_output_def started_def split: prod.splits)

lemma started_Run: "Args o1 \<noteq> [] \<Longrightarrow> runner_Run exec o1 w = (w', ok) \<Longrightarrow> started [o1] w w'"
  by (cases "raw_output exec o1 w") (auto simp: runner_Run_def dest: started_raw)

lemma started_Output: "Args o1 \<noteq> [] \<Longrightarrow> runner_Output exec o1 w = (w', out) \<Longrightarrow> started [o1] w w'"
  by (cases "raw_output exec o1 w") (auto simp: runner_Output_def dest: started_raw)

lemma Args_cmd [simp]: "Args (cmd args d) = args"
  by (simp add: cmd_def)

lemma cmd_eq [simp]: "cmd a d = cmd b e \<longleftrightarrow> a = b \<and> d = e"
  by (auto simp: cmd_def)

text \<open>Commands that are not a merge into a branch.\<close>

definition no_merge :: "opts list \<Rightarrow> bool" where
  "no_merge cs \<longleftrightarrow> (\<forall>c \<in> set cs. \<forall>b. Args c \<noteq> [''git'', ''merge'', ''--no-ff'', ''--no-edit'', b])"

lemma no_merge_simps [simp]:
  "no_merge []" "no_merge (c # cs) \<longleftrightarrow> (\<forall>b. Args c \<noteq> [''git'', ''merge'', ''--no-ff'', ''--no-edit'', b]) \<and> no_merge cs"
  "no_merge (cs @ ds) \<longleftrightarrow> no_merge cs \<and> no_merge ds"
  by (auto simp: no_merge_def)

lemma mise_trust_started: "\<exists>cs. started cs w (mise_trust s workDir ps w) \<and> no_merge cs"
proof (induction s workDir ps w rule: mise_trust.induct)
  case (1 s workDir w)
  show ?case by (rule exI [of _ "[]"]) simp
next
  case (2 s workDir p ps w)
  show ?case
  proof (cases "fs_files (w_fs w) p = None")
    case True
    with 2(1) show ?thesis by simp
  next
    case False
    let ?o = "cmd [''mise'', ''trust'', ''--quiet'', p] workDir"
    obtain w1 ok where w1: "runner_Run (s_exec s) ?o w = (w1, ok)" by force
    obtain cs where "started cs w1 (mise_trust s workDir ps w1)" "no_merge cs"
      using 2(2) [OF False] by (auto simp: w1)
    moreover have "mise_trust s workDir (p # ps) w = mise_trust s workDir ps w1"
      by (simp only: mise_trust.simps(2) if_not_P [OF False] w1 fst_conv)
    moreover have "started [?o] w w1"
      using started_Run [OF _ w1] by simp
    ultimately have "started ([?o] @ cs) w (mise_trust s workDir (p # ps) w)" "no_merge ([?o] @ cs)"
      by (simp_all only: started_def append_assoc [symmetric] no_merge_simps Args_cmd) simp_all
    then show ?thesis by blast
  qed
qed

lemma add_worktree_started:
  assumes "add_worktree s d runID slug subdir pre base rel w = (w', r)"
  shows "\<exists>cs. started cs w w' \<and> no_merge cs"
    and "r = Inr wt \<Longrightarrow> wt_Branch wt = pre @ ''/'' @ runID @ ''/'' @ slug \<and> wt_Slug wt = slug"
proof -
  let ?path = "fp_join [d, ''.defn'', ''dispatch'', runID, subdir, slug]"
  let ?c = "cmd [''git'', ''worktree'', ''add'', ''-b'', pre @ ''/'' @ runID @ ''/'' @ slug, ?path, base] d"
  obtain w1 ok where w1: "runner_Run (s_exec s) ?c w = (w1, ok)" by force
  have r1: "started [?c] w w1"
    using started_Run [OF _ w1] by simp
  have "w' = w \<or> w' = w1 \<or> (\<exists>ps. w' = mise_trust s d ps w1)"
    using assms by (cases "s_mkdir s (fp_dir ?path)"; cases ok) (auto simp: add_worktree_def Let_def w1 [simplified] simp del: mise_trust.simps)
  then consider "w' = w" | "w' = w1" | ps where "w' = mise_trust s d ps w1" by blast
  then show "\<exists>cs. started cs w w' \<and> no_merge cs"
  proof cases
    case 1
    then show ?thesis by (intro exI [of _ "[]"]) simp
  next
    case 2
    with r1 show ?thesis by (intro exI [of _ "[?c]"]) simp
  next
    case (3 ps)
    obtain cs where "started cs w1 w'" "no_merge cs"
      using mise_trust_started [of w1 s d ps] 3 by blast
    with started_trans [OF r1] show ?thesis by (intro exI [of _ "[?c] @ cs"]) simp
  qed
  show "wt_Branch wt = pre @ ''/'' @ runID @ ''/'' @ slug \<and> wt_Slug wt = slug" if "r = Inr wt"
    using assms that by (cases "s_mkdir s (fp_dir ?path)"; cases ok) (auto simp: add_worktree_def Let_def w1 [simplified] simp del: mise_trust.simps)
qed

lemma createWorktreeAt_started:
  assumes "createWorktreeAt s workDir runID slug subdir pre fromRev w = (w', r)"
  shows "\<exists>cs. started cs w w' \<and> no_merge cs"
    and "r = Inr wt \<Longrightarrow> wt_Branch wt = pre @ ''/'' @ runID @ ''/'' @ slug \<and> wt_Slug wt = slug"
proof -
  have "(\<exists>cs. started cs w w' \<and> no_merge cs) \<and>
      (r = Inr wt \<longrightarrow> wt_Branch wt = pre @ ''/'' @ runID @ ''/'' @ slug \<and> wt_Slug wt = slug)"
  proof (cases "s_evalSymlinks s workDir")
    case None
    with assms show ?thesis
      by (intro conjI exI [of _ "[]"]) (auto simp: createWorktreeAt_def)
  next
    case (Some d)
    let ?c1 = "cmd [''git'', ''rev-parse'', fromRev] d" and ?c2 = "cmd [''git'', ''rev-parse'', ''--show-toplevel''] d"
    obtain w1 o1 where w1: "runner_Output (s_exec s) ?c1 w = (w1, o1)" by force
    obtain w2 o2 where w2: "runner_Output (s_exec s) ?c2 w1 = (w2, o2)" by force
    have r1: "started [?c1] w w1 \<and> no_merge [?c1]" and r2: "started [?c1, ?c2] w w2 \<and> no_merge [?c1, ?c2]"
      using started_Output [OF _ w1] started_trans [OF started_Output [OF _ w1] started_Output [OF _ w2]] by simp_all
    have step: "createWorktreeAt s workDir runID slug subdir pre fromRev w =
        (case o1 of None \<Rightarrow> (w1, Inl (ResolveRev fromRev)) | Some base \<Rightarrow>
         (case o2 of None \<Rightarrow> (w2, Inl ResolveToplevel) | Some toplevel \<Rightarrow>
          (case fp_rel toplevel d of None \<Rightarrow> (w2, Inl RelPath)
           | Some rel \<Rightarrow> add_worktree s d runID slug subdir pre base rel w2)))"
      by (simp add: createWorktreeAt_def Some w1 w2 split: option.splits)
    consider "w' = w1" "\<exists>e. r = Inl e" | "w' = w2" "\<exists>e. r = Inl e"
      | base rel where "add_worktree s d runID slug subdir pre base rel w2 = (w', r)"
      using assms unfolding step by (auto split: option.splits)
    then show ?thesis
    proof cases
      case 1
      with r1 show ?thesis by blast
    next
      case 2
      with r2 show ?thesis by blast
    next
      case (3 base rel)
      obtain cs where "started cs w2 w'" "no_merge cs"
        using add_worktree_started(1) [OF 3] by blast
      then have "started ([?c1, ?c2] @ cs) w w' \<and> no_merge ([?c1, ?c2] @ cs)"
        using r2 by (simp add: started_def)
      with add_worktree_started(2) [OF 3] show ?thesis by blast
    qed
  qed
  then show "\<exists>cs. started cs w w' \<and> no_merge cs"
    and "r = Inr wt \<Longrightarrow> wt_Branch wt = pre @ ''/'' @ runID @ ''/'' @ slug \<and> wt_Slug wt = slug" by blast+
qed

lemma MergeWorktree_started:
  assumes "MergeWorktree s workDir wt w = (w', r)"
  shows "\<exists>cs. started cs w w' \<and> no_merge cs \<or> (\<exists>cs. started (cs @ [cmd [''git'', ''merge'', ''--no-ff'', ''--no-edit'', wt_Branch wt] workDir]) w w' \<and> no_merge cs)"
proof -
  let ?c1 = "cmd [''git'', ''rev-parse'', wt_Branch wt] workDir"
    and ?c2 = "cmd [''git'', ''merge'', ''--no-ff'', ''--no-edit'', wt_Branch wt] workDir"
  obtain w1 o1 where w1: "runner_Output (s_exec s) ?c1 w = (w1, o1)" by force
  obtain w2 ok where w2: "runner_Run (s_exec s) ?c2 w1 = (w2, ok)" by force
  have "started [?c1] w w1" "started ([?c1] @ [?c2]) w w2"
    using started_Output [OF _ w1] started_trans [OF started_Output [OF _ w1] started_Run [OF _ w2]] by simp_all
  moreover have "w' = w1 \<or> w' = w2"
    using assms w1 w2 by (auto simp: MergeWorktree_def split: option.splits if_splits)
  moreover have "no_merge [?c1]" by simp
  ultimately show ?thesis by blast
qed

lemma RemoveWorktree_started:
  "started [cmd [''git'', ''worktree'', ''remove'', ''--force'', wt_Path wt] workDir, cmd [''git'', ''branch'', ''-D'', wt_Branch wt] workDir]
     w (fst (RemoveWorktree s workDir wt w))"
proof -
  let ?c1 = "cmd [''git'', ''worktree'', ''remove'', ''--force'', wt_Path wt] workDir"
    and ?c2 = "cmd [''git'', ''branch'', ''-D'', wt_Branch wt] workDir"
  obtain w1 ok1 where w1: "runner_Run (s_exec s) ?c1 w = (w1, ok1)" by force
  obtain w2 ok2 where w2: "runner_Run (s_exec s) ?c2 w1 = (w2, ok2)" by force
  show ?thesis
    using started_trans [OF started_Run [OF _ w1] started_Run [OF _ w2]] by (simp add: RemoveWorktree_def w1 w2)
qed

text \<open>A successful prune has restored exactly the paths out of the lane.\<close>

lemma MergeAndRevert_started:
  assumes "MergeAndRevert s m branch ool w = (w', r)"
  obtains cs where "started cs w w'" and "no_merge cs"
    and "r = None \<Longrightarrow> ool \<noteq> [] \<Longrightarrow> cmd ([''git'', ''restore'', ''--source=HEAD'', ''--staged'', ''--worktree'', ''--''] @ ool) (wt_Path m) \<in> set cs"
proof -
  let ?p = "wt_Path m"
  let ?c1 = "cmd [''git'', ''merge'', ''--no-commit'', ''--no-ff'', branch] ?p"
    and ?c2 = "cmd ([''git'', ''restore'', ''--source=HEAD'', ''--staged'', ''--worktree'', ''--''] @ ool) ?p"
    and ?c3 = "cmd [''git'', ''status'', ''--porcelain'', ''-z'', ''--''] ?p"
    and ?c4 = "cmd [''git'', ''commit'', ''-m'', ''agent '' @ wt_Slug m @ '': in-lane merge (out-of-lane pruned)''] ?p"
  obtain w1 ok1 where w1: "runner_Run (s_exec s) ?c1 w = (w1, ok1)" by force
  obtain w2 ok2 where w2: "runner_Run (s_exec s) ?c2 w1 = (w2, ok2)" by force
  obtain w3 o3 where w3: "runner_Output (s_exec s) ?c3 w2 = (w3, o3)" by force
  obtain w4 ok4 where w4: "runner_Run (s_exec s) ?c4 w3 = (w4, ok4)" by force
  obtain w5 ok5 where w5: "runner_Run (s_exec s) ?c4 w1 = (w5, ok5)" by force
  have r1: "started [?c1] w w1"
    using started_Run [OF _ w1] by simp
  have r2: "started [?c1, ?c2] w w2" and r5: "started [?c1, ?c4] w w5"
    using started_trans [OF r1 started_Run [OF _ w2]] started_trans [OF r1 started_Run [OF _ w5]] by simp_all
  have r3: "started [?c1, ?c2, ?c3] w w3"
    using started_trans [OF r2 started_Output [OF _ w3]] by simp
  have r4: "started [?c1, ?c2, ?c3, ?c4] w w4"
    using started_trans [OF r3 started_Run [OF _ w4]] by simp
  have "(w' = w1 \<and> r \<noteq> None) \<or> (w' = w5 \<and> ool = []) \<or> w' = w2 \<or> w' = w3 \<or> w' = w4"
    using assms w1 w2 w3 w4 w5
    by (auto simp: MergeAndRevert_def Let_def split: bool.splits if_splits option.splits)
  then consider "w' = w1" "r \<noteq> None" | "w' = w5" "ool = []" | "w' = w2" | "w' = w3" | "w' = w4"
    by blast
  then show thesis
  proof cases
    case 1
    with that [of "[?c1]"] r1 show ?thesis by simp
  next
    case 2
    with that [of "[?c1, ?c4]"] r5 show ?thesis by simp
  next
    case 3
    with that [of "[?c1, ?c2]"] r2 show ?thesis by simp
  next
    case 4
    with that [of "[?c1, ?c2, ?c3]"] r3 show ?thesis by simp
  next
    case 5
    with that [of "[?c1, ?c2, ?c3, ?c4]"] r4 show ?thesis by simp
  qed
qed

lemma LaneDiff_started: "LaneDiff s d base branch w = (w', r) \<Longrightarrow> \<exists>cs. started cs w w' \<and> no_merge cs"
proof -
  let ?c = "cmd [''git'', ''diff'', ''--name-only'', ''--relative'', base @ ''..'' @ branch] d"
  obtain w1 o1 where w1: "runner_Output (s_exec s) ?c w = (w1, o1)" by force
  have "started [?c] w w1 \<and> no_merge [?c]"
    using started_Output [OF _ w1] by simp
  moreover assume "LaneDiff s d base branch w = (w', r)"
  then have "w' = w1"
    unfolding LaneDiff_def w1 by (auto split: option.splits)
  ultimately show ?thesis by blast
qed

definition sidecar_cmd :: "sys \<Rightarrow> string \<Rightarrow> string \<Rightarrow> string \<Rightarrow> string list \<Rightarrow> opts" where
  "sidecar_cmd s d base branch paths =
     \<lparr>Args = [''git'', ''diff'', ''--binary'', base @ ''..'' @ branch, ''--''] @ paths, Dir = d, Env = gitPlainEnv (s_environ s)\<rparr>"

lemma WriteSidecarPatch_started:
  assumes "WriteSidecarPatch s d base branch paths dest w = (w', r)"
  shows "\<exists>cs. started cs w w' \<and> no_merge cs"
proof (cases "paths = []")
  case True
  with assms show ?thesis by (intro exI [of _ "[]"]) (simp add: WriteSidecarPatch_def)
next
  case False
  let ?c = "sidecar_cmd s d base branch paths"
  obtain w1 o1 where w1: "runner_Output (s_exec s) ?c w = (w1, o1)" by force
  have "started [?c] w w1 \<and> no_merge [?c]"
    using started_Output [OF _ w1] by (simp add: sidecar_cmd_def)
  moreover have "w_log w' = w_log w1"
    using assms False unfolding WriteSidecarPatch_def sidecar_cmd_def [symmetric] w1
    by (auto simp: Let_def split: option.splits if_splits)
  ultimately have "started [?c] w w' \<and> no_merge [?c]"
    by (simp add: started_def)
  then show ?thesis by blast
qed

lemma CreateMergeWorktree_started:
  assumes "CreateMergeWorktree s d runID slug fromSHA w = (w', r)"
  shows "\<exists>cs. started cs w w' \<and> no_merge cs"
    and "r = Inr wt \<Longrightarrow> wt_Branch wt = ''merge/'' @ runID @ ''/'' @ slug"
proof -
  have cases: "w' = w \<and> r = Inl EmptyFromSHA \<or> createWorktreeAt s d runID slug ''merge'' ''merge'' fromSHA w = (w', r)"
    using assms by (auto simp: CreateMergeWorktree_def split: if_splits)
  have "started [] w w \<and> no_merge []" by simp
  then show "\<exists>cs. started cs w w' \<and> no_merge cs"
    using cases createWorktreeAt_started(1) [of s d runID slug "''merge''" "''merge''" fromSHA w w' r] by metis
  show "wt_Branch wt = ''merge/'' @ runID @ ''/'' @ slug" if "r = Inr wt"
    using cases that createWorktreeAt_started(2) [of s d runID slug "''merge''" "''merge''" fromSHA w w' r wt] by auto
qed

text \<open>The merges of the mixed case: only the pruned branch, after the paths out of lane were restored.\<close>

definition pruned_merges :: "string \<Rightarrow> string \<Rightarrow> string \<Rightarrow> string list \<Rightarrow> opts list \<Rightarrow> bool" where
  "pruned_merges workDir runID slug ool cs \<longleftrightarrow>
     (\<forall>b d. cmd [''git'', ''merge'', ''--no-ff'', ''--no-edit'', b] d \<in> set cs \<longrightarrow>
       b = ''merge/'' @ runID @ ''/'' @ slug \<and> d = workDir \<and>
       (\<exists>p. cmd ([''git'', ''restore'', ''--source=HEAD'', ''--staged'', ''--worktree'', ''--''] @ ool) p \<in> set cs))"

lemma no_merge_pruned: "no_merge cs \<Longrightarrow> pruned_merges d runID slug ool cs"
  by (force simp: no_merge_def pruned_merges_def)

lemma pruned_mergesI:
  assumes "no_merge cs" and "no_merge ds"
    and "cmd ([''git'', ''restore'', ''--source=HEAD'', ''--staged'', ''--worktree'', ''--''] @ ool) p \<in> set cs"
    and "\<forall>b e. cmd [''git'', ''merge'', ''--no-ff'', ''--no-edit'', b] e \<in> set ms \<longrightarrow> b = ''merge/'' @ runID @ ''/'' @ slug \<and> e = d"
  shows "pruned_merges d runID slug ool (cs @ ms @ ds)"
proof -
  have "cmd [''git'', ''merge'', ''--no-ff'', ''--no-edit'', b] e \<notin> set cs \<union> set ds" for b e
    using assms(1,2) unfolding no_merge_def by (metis Args_cmd UnE)
  with assms(3,4) show ?thesis
    unfolding pruned_merges_def set_append by blast
qed

lemma merge_pruned_started:
  assumes "merge_pruned s d runID wt ool w = (w', r)" and "ool \<noteq> []"
  shows "\<exists>cs. started cs w w' \<and> pruned_merges d runID (wt_Slug wt) ool cs"
proof -
  let ?c = "cmd [''git'', ''rev-parse'', ''HEAD''] d"
  obtain w1 o1 where w1: "gitRevParse s d ''HEAD'' w = (w1, o1)" by force
  have r1: "started [?c] w w1" "no_merge [?c]"
    using started_Output [OF _ w1 [unfolded gitRevParse_def]] by simp_all
  show ?thesis
  proof (cases o1)
    case None
    with assms(1) w1 have "w' = w1" by (simp add: merge_pruned_def)
    with r1 no_merge_pruned show ?thesis by blast
  next
    case (Some head)
    obtain w2 r2 where w2: "CreateMergeWorktree s d runID (wt_Slug wt) head w1 = (w2, r2)" by force
    obtain cs2 where c2: "started cs2 w1 w2" "no_merge cs2"
      using CreateMergeWorktree_started(1) [OF w2] by blast
    have r2': "started (?c # cs2) w w2" "no_merge (?c # cs2)"
      using r1 c2 by (simp_all add: started_def)
    show ?thesis
    proof (cases r2)
      case (Inl e)
      with assms(1) w1 w2 Some have "w' = w2" by (simp add: merge_pruned_def)
      with r2' no_merge_pruned show ?thesis by blast
    next
      case (Inr m)
      have branch: "wt_Branch m = ''merge/'' @ runID @ ''/'' @ wt_Slug wt"
        by (rule CreateMergeWorktree_started(2) [OF w2 Inr])
      obtain w3 e3 where w3: "MergeAndRevert s m (wt_Branch wt) ool w2 = (w3, e3)" by force
      obtain cs3 where c3: "started cs3 w2 w3" "no_merge cs3"
        and restored: "e3 = None \<Longrightarrow> cmd ([''git'', ''restore'', ''--source=HEAD'', ''--staged'', ''--worktree'', ''--''] @ ool) (wt_Path m) \<in> set cs3"
        by (rule MergeAndRevert_started [OF w3]) (use assms(2) in blast)
      have r3: "started (?c # cs2 @ cs3) w w3" "no_merge (?c # cs2 @ cs3)"
        using r2' c3 by (simp_all add: started_def)
      show ?thesis
      proof (cases e3)
        case (Some e)
        with assms(1) w1 w2 w3 \<open>o1 = Some head\<close> Inr have "w' = w3" by (simp add: merge_pruned_def)
        with r3 no_merge_pruned show ?thesis by blast
      next
        case None
        obtain w4 e4 where w4: "MergeWorktree s d m w3 = (w4, e4)" by force
        let ?m = "cmd [''git'', ''merge'', ''--no-ff'', ''--no-edit'', wt_Branch m] d"
        let ?rm = "[cmd [''git'', ''worktree'', ''remove'', ''--force'', wt_Path m] d, cmd [''git'', ''branch'', ''-D'', wt_Branch m] d]"
        obtain cs4 where c4: "started cs4 w3 w4" "\<forall>b e. cmd [''git'', ''merge'', ''--no-ff'', ''--no-edit'', b] e \<in> set cs4 \<longrightarrow> b = wt_Branch m \<and> e = d"
          using MergeWorktree_started [OF w4] by (fastforce simp: no_merge_def)
        have "w' = w4 \<or> w' = fst (RemoveWorktree s d m w4)"
          using assms(1) w1 w2 w3 w4 None \<open>o1 = Some head\<close> Inr by (auto simp: merge_pruned_def split: option.splits)
        then have "started ((?c # cs2 @ cs3) @ cs4 @ []) w w' \<or> started ((?c # cs2 @ cs3) @ cs4 @ ?rm) w w'"
          using r3 c4(1) RemoveWorktree_started [of m d w4 s] by (auto simp: started_def)
        moreover have "pruned_merges d runID (wt_Slug wt) ool ((?c # cs2 @ cs3) @ cs4 @ ds)" if "no_merge ds" for ds
          using restored [OF None] c4(2) branch by (intro pruned_mergesI [OF r3(2) that, of _ "wt_Path m"]) simp_all
        moreover have "no_merge []" "no_merge ?rm"
          by simp_all
        ultimately show ?thesis by blast
      qed
    qed
  qed
qed

section \<open>Properties\<close>

text \<open>The merges into the coordinator's checkout that a lane allows.\<close>

definition lane_merges :: "string \<Rightarrow> string \<Rightarrow> worktree \<Rightarrow> string list \<Rightarrow> opts list \<Rightarrow> bool" where
  "lane_merges workDir runID wt ool cs \<longleftrightarrow>
     (if ool = [] then \<forall>b d. cmd [''git'', ''merge'', ''--no-ff'', ''--no-edit'', b] d \<in> set cs \<longrightarrow> b = wt_Branch wt \<and> d = workDir
      else pruned_merges workDir runID (wt_Slug wt) ool cs)"

lemma no_merge_cmd: "no_merge cs \<Longrightarrow> cmd [''git'', ''merge'', ''--no-ff'', ''--no-edit'', b] d \<notin> set cs"
  unfolding no_merge_def by (metis Args_cmd)

lemma lane_merges_append:
  assumes "no_merge cs" and "lane_merges workDir runID wt ool ds"
  shows "lane_merges workDir runID wt ool (cs @ ds)"
proof (cases "ool = []")
  case True
  with assms(2) no_merge_cmd [OF assms(1)] show ?thesis
    unfolding lane_merges_def set_append by (simp only: if_True simp_thms) blast
next
  case False
  with assms(2) no_merge_cmd [OF assms(1)] show ?thesis
    unfolding lane_merges_def pruned_merges_def set_append by (simp only: if_False simp_thms) blast
qed

lemma lane_merges_none: "no_merge cs \<Longrightarrow> lane_merges workDir runID wt ool cs"
  using no_merge_cmd [of cs] by (simp add: lane_merges_def no_merge_pruned)

lemma merge_step_started:
  assumes "(if ool = [] then MergeWorktree s workDir wt w else merge_pruned s workDir runID wt ool w) = (w', e)"
  shows "\<exists>cs. started cs w w' \<and> lane_merges workDir runID wt ool cs"
proof (cases "ool = []")
  case True
  then have m: "MergeWorktree s workDir wt w = (w', e)"
    using assms by simp
  let ?m = "cmd [''git'', ''merge'', ''--no-ff'', ''--no-edit'', wt_Branch wt] workDir"
  have "lane_merges workDir runID wt ool [?m]"
    unfolding lane_merges_def using True by simp
  then have "lane_merges workDir runID wt ool (cs @ [?m])" if "no_merge cs" for cs
    using lane_merges_append that by blast
  with MergeWorktree_started [OF m] lane_merges_none show ?thesis by blast
next
  case False
  then show ?thesis
    using merge_pruned_started assms by (simp add: lane_merges_def)
qed

lemma sidecar_step_started:
  assumes "(if ool \<noteq> [] then WriteSidecarPatch s workDir base branch ool dest w else (w, None)) = (w', e)"
  shows "\<exists>cs. started cs w w' \<and> no_merge cs"
proof (cases "ool = []")
  case True
  with assms show ?thesis by (intro exI [of _ "[]"]) simp
next
  case False
  then have "WriteSidecarPatch s workDir base branch ool dest w = (w', e)"
    using assms by simp
  then show ?thesis by (rule WriteSidecarPatch_started)
qed

text \<open>The three places where \<open>reconcileLane\<close> returns, with the worlds there.\<close>

lemma reconcileLane_returns:
  assumes "LaneDiff s workDir (wt_Base wt) (wt_Branch wt) w = (w1, Some paths)"
    and "LanePartition paths bp = (i, ool)" and "reconcileLane s workDir runID wt bp w = (w', r)"
  obtains w2 e2 w3 e3 where
    "(if ool \<noteq> [] then WriteSidecarPatch s workDir (wt_Base wt) (wt_Branch wt) ool (fp_join [workDir, sidecar_rel runID (wt_Slug wt)]) w1
      else (w1, None)) = (w2, e2)"
    and "(if ool = [] then MergeWorktree s workDir wt w2 else merge_pruned s workDir runID wt ool w2) = (w3, e3)"
    and "w' = w1 \<or> w' = w2 \<or> w' = w3 \<and> i \<noteq> []"
    and "\<forall>out. r = Inr out \<longrightarrow> out = \<lparr>ro_merged = (i \<noteq> []), ro_sidecarPath = if ool \<noteq> [] then sidecar_rel runID (wt_Slug wt) else ''''\<rparr>"
proof -
  let ?side = "if ool \<noteq> [] then sidecar_rel runID (wt_Slug wt) else ''''"
  obtain w2 e2 where w2: "(if ool \<noteq> [] then WriteSidecarPatch s workDir (wt_Base wt) (wt_Branch wt) ool
      (fp_join [workDir, sidecar_rel runID (wt_Slug wt)]) w1 else (w1, None)) = (w2, e2)" by force
  have w2': "(if ool \<noteq> [] then WriteSidecarPatch s workDir (wt_Base wt) (wt_Branch wt) ool
      (fp_join [workDir, ?side]) w1 else (w1, None)) = (w2, e2)"
    using w2 by (cases "ool = []") simp_all
  obtain w3 e3 where w3: "(if ool = [] then MergeWorktree s workDir wt w2 else merge_pruned s workDir runID wt ool w2) = (w3, e3)" by force
  have step: "reconcileLane s workDir runID wt bp w =
      (if paths = [] then (w1, Inr \<lparr>ro_merged = False, ro_sidecarPath = ''''\<rparr>)
       else case e2 of Some e \<Rightarrow> (w2, Inl e)
       | None \<Rightarrow> if i = [] then (w2, Inr \<lparr>ro_merged = False, ro_sidecarPath = ?side\<rparr>)
         else case e3 of Some e \<Rightarrow> (w3, Inl e)
         | None \<Rightarrow> (w3, Inr \<lparr>ro_merged = True, ro_sidecarPath = ?side\<rparr>))"
    unfolding reconcileLane_def assms(1) assms(2) prod.case option.case Let_def w2' w3 by (cases e2; cases e3) simp_all
  have "i = [] \<and> ool = []" if "paths = []"
    using assms(2) that by (simp add: LanePartition_def)
  then show thesis
    using assms(3) unfolding step by (intro that [OF w2 w3]) (auto split: if_splits option.splits)
qed

text \<open>
  \<open>LanePartition\<close>: The two lists are sorted and together hold every reported path once
  for each time it was reported; a path is in the lane exactly when it is the brick's path
  or below it, and a brick with the empty path has no lane.
\<close>

theorem LanePartition_exact:
  "LanePartition paths bp = (i, ool) \<Longrightarrow>
    sorted i \<and> sorted ool \<and> mset i + mset ool = mset (filter (\<lambda>p. p \<noteq> '''') paths) \<and>
    (\<forall>p \<in> set paths. p \<noteq> '''' \<longrightarrow> (p \<in> set i \<longleftrightarrow> p \<notin> set ool) \<and>
      (p \<in> set i \<longleftrightarrow> trim_suffix bp ''/'' \<noteq> '''' \<and> (p = trim_suffix bp ''/'' \<or> ancestor (trim_suffix bp ''/'') p)))"
  using multiset_partition [of "mset (filter (\<lambda>p. p \<noteq> '''') paths)" "in_lane bp"]
  by (auto simp: LanePartition_def Let_def in_lane_def ancestor_def simp flip: mset_filter)

theorem LanePartition_exact_witness:
  "LanePartition [''b/x'', ''a/z'', ''a/y''] ''a/'' = ([''a/y'', ''a/z''], [''b/x'']) \<and> sorted [''a/y'', ''a/z'' :: string]"
proof -
  have eq: "LanePartition [''b/x'', ''a/z'', ''a/y''] ''a/'' = ([''a/y'', ''a/z''], [''b/x''])"
    by code_simp
  with LanePartition_exact [OF eq] show ?thesis by blast
qed

text \<open>
  C13 (\<open>reconcileLane\<close>). Whatever git answers, the agent's own branch is merged into the
  coordinator only when every path git reported is in the lane; when some path is out of the lane, the only branch
  merged is the pruned one, and the paths out of the lane were restored in a worktree; when no
  path is in the lane nothing is merged. The outcome says merged exactly when a path is in
  the lane, and names a sidecar exactly when a path is out of it.
\<close>

theorem reconcileLane_merges:
  assumes "LaneDiff s workDir (wt_Base wt) (wt_Branch wt) w = (w1, Some paths)"
    and "LanePartition paths bp = (i, ool)" and "reconcileLane s workDir runID wt bp w = (w', r)"
  shows "(\<exists>cs. w_log w' = w_log w @ cs \<and> (i = [] \<longrightarrow> no_merge cs) \<and> lane_merges workDir runID wt ool cs) \<and>
    (\<forall>out. r = Inr out \<longrightarrow> (ro_merged out \<longleftrightarrow> i \<noteq> []) \<and>
      ro_sidecarPath out = (if ool \<noteq> [] then sidecar_rel runID (wt_Slug wt) else ''''))"
proof -
  obtain cs1 where c1: "started cs1 w w1" "no_merge cs1"
    using LaneDiff_started [OF assms(1)] by blast
  obtain w2 e2 w3 e3 where w2: "(if ool \<noteq> [] then WriteSidecarPatch s workDir (wt_Base wt) (wt_Branch wt) ool
      (fp_join [workDir, sidecar_rel runID (wt_Slug wt)]) w1 else (w1, None)) = (w2, e2)"
    and w3: "(if ool = [] then MergeWorktree s workDir wt w2 else merge_pruned s workDir runID wt ool w2) = (w3, e3)"
    and ret: "w' = w1 \<or> w' = w2 \<or> w' = w3 \<and> i \<noteq> []"
    and out: "\<forall>out. r = Inr out \<longrightarrow> out = \<lparr>ro_merged = (i \<noteq> []), ro_sidecarPath = if ool \<noteq> [] then sidecar_rel runID (wt_Slug wt) else ''''\<rparr>"
    by (rule reconcileLane_returns [OF assms])
  obtain cs2 where c2: "started cs2 w1 w2" "no_merge cs2"
    using sidecar_step_started [OF w2] by blast
  obtain cs3 where c3: "started cs3 w2 w3" "lane_merges workDir runID wt ool cs3"
    using merge_step_started [OF w3] by blast
  have "w_log w1 = w_log w @ cs1" "w_log w2 = w_log w @ (cs1 @ cs2)" "w_log w3 = w_log w @ ((cs1 @ cs2) @ cs3)" "no_merge (cs1 @ cs2)"
    using c1 c2 c3(1) by (simp_all add: started_def)
  note logs = this
  have "lane_merges workDir runID wt ool cs1" "lane_merges workDir runID wt ool (cs1 @ cs2)"
    "lane_merges workDir runID wt ool ((cs1 @ cs2) @ cs3)"
    using lane_merges_none [OF c1(2)] lane_merges_none [OF logs(4)] lane_merges_append [OF logs(4) c3(2)] by blast+
  note lanes = this
  have "\<exists>cs. w_log w' = w_log w @ cs \<and> (i = [] \<longrightarrow> no_merge cs) \<and> lane_merges workDir runID wt ool cs"
    using ret
  proof (elim disjE conjE)
    assume "w' = w1"
    with logs lanes c1 show ?thesis by (intro exI [of _ cs1]) simp
  next
    assume "w' = w2"
    with logs lanes show ?thesis by (intro exI [of _ "cs1 @ cs2"]) simp
  next
    assume "w' = w3" "i \<noteq> []"
    with logs lanes show ?thesis by (intro exI [of _ "(cs1 @ cs2) @ cs3"]) simp
  qed
  moreover have "(ro_merged out' \<longleftrightarrow> i \<noteq> []) \<and> ro_sidecarPath out' = (if ool \<noteq> [] then sidecar_rel runID (wt_Slug wt) else '''')"
    if "r = Inr out'" for out'
    using out that by (simp only: reconcileOutcome.simps simp_thms) simp
  ultimately show ?thesis by blast
qed

definition quiet_exec :: exec where
  "quiet_exec o1 w = (w_fs w, Some (if Args o1 ! 1 = ''diff'' then ''a/x'' @ [newline] @ ''b/y'' else ''0''))"

definition quiet_sys :: sys where
  "quiet_sys = \<lparr>s_exec = quiet_exec, s_evalSymlinks = Some, s_mkdir = (\<lambda>_. True), s_environ = []\<rparr>"

definition sample_wt :: worktree where
  "sample_wt = \<lparr>wt_Slug = ''s'', wt_Path = ''/w'', wt_AgentWorkDir = ''/w'', wt_Branch = ''dispatch/r/s'', wt_Base = ''0''\<rparr>"

definition sample_world :: world where
  "sample_world = \<lparr>w_fs = \<lparr>fs_files = Map.empty, fs_clock = 0, fs_noread = (\<lambda>_. False), fs_nowrite = (\<lambda>_. False)\<rparr>, w_log = []\<rparr>"

theorem reconcileLane_merges_witness:
  "\<exists>cs. w_log (fst (reconcileLane quiet_sys ''/c'' ''r'' sample_wt ''z'' sample_world)) = cs \<and> no_merge cs"
proof -
  obtain w1 where diff: "LaneDiff quiet_sys ''/c'' (wt_Base sample_wt) (wt_Branch sample_wt) sample_world = (w1, Some [''a/x'', ''b/y''])"
  proof -
    have "snd (LaneDiff quiet_sys ''/c'' (wt_Base sample_wt) (wt_Branch sample_wt) sample_world) = Some [''a/x'', ''b/y'']"
      by code_simp
    then show thesis using that by (metis prod.collapse)
  qed
  have part: "LanePartition [''a/x'', ''b/y''] ''z'' = ([], [''a/x'', ''b/y''])"
    by code_simp
  from reconcileLane_merges [OF diff part prod.collapse [symmetric], of "''r''"] show ?thesis
    by (auto simp: sample_world_def)
qed

text \<open>
  \<open>WriteSidecarPatch\<close>, error: The sidecar holds git's patch with the white space at both ends cut and one
  newline added, so it is the patch git printed exactly when that neither begins with
  white space nor ends with more than the final newline: a patch whose last line is
  an empty context line is not preserved verbatim.
\<close>

theorem WriteSidecarPatch_trimmed:
  assumes "paths \<noteq> []" and "s_exec s (sidecar_cmd s d base branch paths) w = (fs1, Some patch)" and "trim_space patch \<noteq> ''''"
    and "\<not> fs_nowrite fs1 dest"
  shows "\<exists>w'. WriteSidecarPatch s d base branch paths dest w = (w', None) \<and>
    file_data (w_fs w') dest = Some (trim_space patch @ [newline]) \<and>
    (file_data (w_fs w') dest = Some patch \<longleftrightarrow> patch = trim_space patch @ [newline])"
proof -
  let ?w1 = "w\<lparr>w_fs := fs1, w_log := w_log w @ [sidecar_cmd s d base branch paths]\<rparr>"
  have out: "runner_Output (s_exec s) (sidecar_cmd s d base branch paths) w = (?w1, Some (trim_space patch))"
    using assms(2) by (simp add: runner_Output_def raw_output_def) (simp add: sidecar_cmd_def)
  have "[newline] \<in> set space_runes"
    by code_simp
  then have "\<not> has_suffix (trim_space patch) [newline]"
    using trim_space_trailing [of patch] by (simp add: trailing_space_0_iff)
  moreover obtain fs2 where fs2: "WriteFile dest (trim_space patch @ [newline]) 420 fs1 = Some fs2"
    using assms(4) by (auto simp: WriteFile_def Let_def)
  ultimately have "WriteSidecarPatch s d base branch paths dest w = (?w1\<lparr>w_fs := fs2\<rparr>, None)"
    using assms(1,3) unfolding WriteSidecarPatch_def sidecar_cmd_def [symmetric] out by (simp add: Let_def)
  then show ?thesis
    using WriteFile_data [OF fs2] by auto
qed

definition patch_exec :: exec where
  "patch_exec o1 w = (w_fs w, Some (''+x'' @ [newline] @ '' '' @ [newline]))"

theorem WriteSidecarPatch_trimmed_witness:
  "\<exists>w'. WriteSidecarPatch (quiet_sys\<lparr>s_exec := patch_exec\<rparr>) ''/c'' ''0'' ''b'' [''p''] ''/o'' sample_world = (w', None) \<and>
    file_data (w_fs w') ''/o'' = Some (''+x'' @ [newline]) \<and> file_data (w_fs w') ''/o'' \<noteq> Some (''+x'' @ [newline] @ '' '' @ [newline])"
proof -
  have trim: "trim_space (''+x'' @ [newline] @ '' '' @ [newline]) = ''+x''"
    by code_simp
  from WriteSidecarPatch_trimmed [of "[''p'']" "quiet_sys\<lparr>s_exec := patch_exec\<rparr>" "''/c''" "''0''" "''b''" sample_world
      "w_fs sample_world" "''+x'' @ [newline] @ '' '' @ [newline]" "''/o''"] trim
  show ?thesis by (auto simp: patch_exec_def sample_world_def)
qed

text \<open>
  \<open>MergeAndRevert\<close>, error: The check after the restore reads the output of \<open>git status\<close> with the
  white space at its ends cut: a file whose first status column is a space, listed first, loses
  that column, and the check looks for a path without its first letter.
\<close>

theorem status_check_misses_first:
  "status_paths ('' M a.txt'' @ [CHR 0x00]) = [''a.txt''] \<and>
   status_paths (trim_space ('' M a.txt'' @ [CHR 0x00])) = [''.txt'']"
  by code_simp

end
