(* ===== verification/Acp.thy ===== *)
theory Acp
  imports Lane Complex_Main
begin

text \<open>
  \<open>lib/dispatch/acp.go\<close>: the agent that is driven over the Agent Client Protocol. The fence
  of the file operations, the scrubbed environment of the bridge, the prompt, the permission
  answers, the usage counters and \<open>runAgentACP\<close>. The protocol library (\<open>acp-go-sdk\<close>) is the
  parameter \<open>sdk\<close>; the text of the log file, to which the bridge also writes its own errors, is
  not modelled. The cost, a \<open>float64\<close> that is only copied, is a rational.
\<close>

section \<open>The environment and the prompt\<close>

definition filterEnv :: "string list \<Rightarrow> string list \<Rightarrow> string list" where
  "filterEnv env drops = filter (\<lambda>e. \<not> list_ex (\<lambda>d. has_prefix e (d @ ''='')) drops) env"

definition scrubbed_names :: "string list" where
  "scrubbed_names =
     [''CLAUDECODE'', ''PWD'', ''OLDPWD'', ''MISE_PROJECT_ROOT'', ''MISE_ORIGINAL_CWD'', ''MISE_CONFIG_ROOT'',
      ''MISE_TASK_DIR'', ''MISE_TASK_FILE'', ''MISE_TASK_NAME'', ''CLAUDE_CODE_SESSION_ID'', ''CLAUDE_CODE_ENTRYPOINT'',
      ''CLAUDE_CODE_EXECPATH'', ''CLAUDE_PROJECT_DIR'', ''GIT_DIR'', ''GIT_WORK_TREE'', ''GIT_INDEX_FILE'']"

definition bridge_env :: "string list \<Rightarrow> string \<Rightarrow> string list" where
  "bridge_env environ workDir = filterEnv environ scrubbed_names @ [''PWD='' @ workDir]"

text \<open>
  \<open>strings.NewReplacer(...).Replace\<close>: from left to right, at each position the first pair whose old
  string is there is replaced; what was put in is not looked at again. The old strings are not empty.
\<close>

function replacer :: "(string \<times> string) list \<Rightarrow> string \<Rightarrow> string" where
  "replacer pairs s =
     (if s = [] then []
      else case find (\<lambda>(old, new). has_prefix s old) pairs of
        Some (old, new) \<Rightarrow> new @ replacer pairs (drop (max 1 (length old)) s)
      | None \<Rightarrow> hd s # replacer pairs (tl s))"
  by pat_completeness auto
termination
  by (relation "measure (\<lambda>(_, s). length s)") auto

declare replacer.simps [simp del]

definition resolve_prompt :: "string \<Rightarrow> string \<Rightarrow> string \<Rightarrow> string \<Rightarrow> string \<Rightarrow> string" where
  "resolve_prompt prompt slug workDir runID plansDir =
     replacer [(''{{slug}}'', slug), (''{{worktree}}'', workDir), (''{{run}}'', runID), (''{{plans_dir}}'', plansDir)] prompt"

section \<open>The fence\<close>

text \<open>
  \<open>resolveExistingPrefix\<close>: the loop with its variables \<open>cur\<close> and \<open>suffix\<close>. \<open>eval\<close> is
  \<open>filepath.EvalSymlinks\<close>. The loop ends because the parent of a path that is not its own
  parent is shorter.
\<close>

function resolve_from :: "(string \<Rightarrow> string option) \<Rightarrow> string \<Rightarrow> string \<Rightarrow> string \<Rightarrow> string" where
  "resolve_from eval p cur sfx =
     (case eval cur of
        Some resolved \<Rightarrow> if sfx = '''' then resolved else fp_join [resolved, sfx]
      | None \<Rightarrow>
          let parent = fp_dir cur in
          if parent = cur then p else resolve_from eval p parent (fp_join [fp_base cur, sfx]))"
  by pat_completeness auto
termination
  by (relation "measure (\<lambda>(_, _, cur, _). up_measure cur)") (auto intro: fp_dir_up)

declare resolve_from.simps [simp del]

definition resolveExistingPrefix :: "(string \<Rightarrow> string option) \<Rightarrow> string \<Rightarrow> string" where
  "resolveExistingPrefix eval p = resolve_from eval p p ''''"

datatype fence_error = NotAbsolute | WorkDirUnresolved | OutsideWorktree

definition fenceWorkDir :: "(string \<Rightarrow> string option) \<Rightarrow> string \<Rightarrow> string \<Rightarrow> fence_error option" where
  "fenceWorkDir eval workDir path =
     (if \<not> fp_is_abs path then Some NotAbsolute
      else if workDir = '''' then None
      else case eval workDir of
        None \<Rightarrow> Some WorkDirUnresolved
      | Some wd \<Rightarrow>
          (case fp_rel wd (resolveExistingPrefix eval (fp_clean path)) of
             None \<Rightarrow> Some OutsideWorktree
           | Some rel \<Rightarrow> if rel = ''..'' \<or> has_prefix rel ''../'' then Some OutsideWorktree else None))"

datatype file_error = Fenced fence_error | IOError

definition ReadTextFile :: "(string \<Rightarrow> string option) \<Rightarrow> string \<Rightarrow> string \<Rightarrow> gofs \<Rightarrow> file_error + string" where
  "ReadTextFile eval workDir path fs =
     (case fenceWorkDir eval workDir path of
        Some e \<Rightarrow> Inl (Fenced e)
      | None \<Rightarrow> (case ReadFile fs path of ReadData b \<Rightarrow> Inr b | _ \<Rightarrow> Inl IOError))"


section \<open>Permissions and usage\<close>

datatype perm_kind = AllowOnce | AllowAlways | OtherKind string

record perm_option =
  OptionId :: string
  Kind :: perm_kind

text \<open>\<open>None\<close> is the outcome \<open>Cancelled\<close>.\<close>

definition RequestPermission :: "perm_option list \<Rightarrow> string option" where
  "RequestPermission options =
     (case options of
        [] \<Rightarrow> None
      | first # _ \<Rightarrow>
          (case find (\<lambda>opt. Kind opt = AllowAlways \<or> Kind opt = AllowOnce) options of
             Some opt \<Rightarrow> Some (OptionId opt)
           | None \<Rightarrow> Some (OptionId first)))"

record usage_update =
  uu_Size :: int
  uu_Used :: int
  uu_Cost :: "(rat \<times> string) option"

record acpClient =
  costAmount :: rat
  costCurrency :: string
  contextSize :: int
  contextUsed :: int
  usageUpdateCount :: nat

definition new_client :: acpClient where
  "new_client = \<lparr>costAmount = 0, costCurrency = '''', contextSize = 0, contextUsed = 0, usageUpdateCount = 0\<rparr>"

definition recordUsage :: "usage_update \<Rightarrow> acpClient \<Rightarrow> acpClient" where
  "recordUsage u c =
     (let c = c\<lparr>usageUpdateCount := usageUpdateCount c + 1, contextSize := uu_Size u, contextUsed := uu_Used u\<rparr> in
      case uu_Cost u of None \<Rightarrow> c | Some (amount, currency) \<Rightarrow> c\<lparr>costAmount := amount, costCurrency := currency\<rparr>)"

text \<open>The session updates; all but the last only write a log line.\<close>

datatype session_update =
    AgentMessageChunk string | UserMessageChunk string | AgentThoughtChunk string | ToolCall string string
  | ToolCallUpdate string | PlanEntries nat | UsageUpdate usage_update | OtherUpdate

definition SessionUpdate :: "session_update \<Rightarrow> acpClient \<Rightarrow> acpClient" where
  "SessionUpdate u c = (case u of UsageUpdate uu \<Rightarrow> recordUsage uu c | _ \<Rightarrow> c)"

section \<open>runAgentACP\<close>

record agentRunInfo =
  ri_SessionID :: string
  ri_InputTokens :: int
  ri_OutputTokens :: int
  ri_CacheReadTokens :: int
  ri_CacheWriteTokens :: int
  ri_ThoughtTokens :: int
  ri_TotalTokens :: int
  ri_CostAmount :: rat
  ri_CostCurrency :: string

definition no_info :: agentRunInfo where
  "no_info = \<lparr>ri_SessionID = '''', ri_InputTokens = 0, ri_OutputTokens = 0, ri_CacheReadTokens = 0, ri_CacheWriteTokens = 0,
     ri_ThoughtTokens = 0, ri_TotalTokens = 0, ri_CostAmount = 0, ri_CostCurrency = ''''\<rparr>"

definition populateInfo :: "acpClient \<Rightarrow> agentRunInfo \<Rightarrow> agentRunInfo" where
  "populateInfo c info = info\<lparr>ri_CostAmount := costAmount c, ri_CostCurrency := costCurrency c\<rparr>"

record prompt_usage =
  pu_Input :: int
  pu_Output :: int
  pu_Total :: int
  pu_CachedRead :: "int option"
  pu_CachedWrite :: "int option"
  pu_Thought :: "int option"

definition add_usage :: "prompt_usage \<Rightarrow> agentRunInfo \<Rightarrow> agentRunInfo" where
  "add_usage u info =
     info\<lparr>ri_InputTokens := pu_Input u, ri_OutputTokens := pu_Output u, ri_TotalTokens := pu_Total u,
          ri_CacheReadTokens := (case pu_CachedRead u of None \<Rightarrow> ri_CacheReadTokens info | Some n \<Rightarrow> n),
          ri_CacheWriteTokens := (case pu_CachedWrite u of None \<Rightarrow> ri_CacheWriteTokens info | Some n \<Rightarrow> n),
          ri_ThoughtTokens := (case pu_Thought u of None \<Rightarrow> ri_ThoughtTokens info | Some n \<Rightarrow> n)\<rparr>"

datatype acp_error =
    EmptyPrompt | MkdirLog | CreateLog | MkdirClaude | WriteSettings | StartBridge | Initialize | NewSession | PromptFailed

text \<open>
  The protocol library and the bridge: start the bridge, initialize, open a session in a directory, and
  one prompt with the session updates it sends; \<open>None\<close> is an error.
\<close>

record acp_sdk =
  sdk_start :: "opts \<Rightarrow> world \<Rightarrow> world \<times> bool"
  sdk_initialize :: "world \<Rightarrow> world \<times> bool"
  sdk_newSession :: "string \<Rightarrow> world \<Rightarrow> world \<times> string option"
  sdk_prompt :: "string \<Rightarrow> string \<Rightarrow> world \<Rightarrow> world \<times> session_update list \<times> prompt_usage option option"

text \<open>From the session on: the session id file, the prompt and the usage.\<close>

definition acp_prompt :: "sys \<Rightarrow> acp_sdk \<Rightarrow> string \<Rightarrow> string \<Rightarrow> string \<Rightarrow> string \<Rightarrow> world \<Rightarrow>
    world \<times> agentRunInfo \<times> acp_error option" where
  "acp_prompt s sdk slug logPath sessionID prompt w =
     (let info = no_info\<lparr>ri_SessionID := sessionID\<rparr>;
          sessionIDPath = fp_join [fp_dir logPath, ''..'', ''sessions'', slug @ ''.id''];
          w1 = (if s_mkdir s (fp_dir sessionIDPath) then
                  (case WriteFile sessionIDPath (sessionID @ [newline]) 420 (w_fs w) of
                     None \<Rightarrow> w | Some fs \<Rightarrow> w\<lparr>w_fs := fs\<rparr>)
                else w)
      in case sdk_prompt sdk sessionID prompt w1 of
        (w2, updates, resp) \<Rightarrow>
          let info = populateInfo (fold SessionUpdate updates new_client) info in
          case resp of
            None \<Rightarrow> (w2, info, Some PromptFailed)
          | Some None \<Rightarrow> (w2, info, None)
          | Some (Some usage) \<Rightarrow> (w2, add_usage usage info, None))"

definition settingsJSON :: string where
  "settingsJSON = ''{'' @ quoted ''permissions'' @ '':{'' @ quoted ''defaultMode'' @ '':'' @ quoted ''bypassPermissions'' @ ''}}''"

definition acp_session :: "sys \<Rightarrow> acp_sdk \<Rightarrow> string list \<Rightarrow> string \<Rightarrow> string \<Rightarrow> string \<Rightarrow> string \<Rightarrow> world \<Rightarrow>
    world \<times> agentRunInfo \<times> acp_error option" where
  "acp_session s sdk bridge slug workDir logPath prompt w =
     (case sdk_start sdk \<lparr>Args = bridge, Dir = workDir, Env = bridge_env (s_environ s) workDir\<rparr> w of
        (w1, False) \<Rightarrow> (w1, no_info, Some StartBridge)
      | (w1, True) \<Rightarrow>
     (case sdk_initialize sdk w1 of
        (w2, False) \<Rightarrow> (w2, no_info, Some Initialize)
      | (w2, True) \<Rightarrow>
     (case sdk_newSession sdk workDir w2 of
        (w3, None) \<Rightarrow> (w3, no_info, Some NewSession)
      | (w3, Some sessionID) \<Rightarrow> acp_prompt s sdk slug logPath sessionID prompt w3)))"

definition runAgentACP :: "sys \<Rightarrow> acp_sdk \<Rightarrow> string list \<Rightarrow> string \<Rightarrow> string \<Rightarrow> string \<Rightarrow> string \<Rightarrow> string \<Rightarrow> string \<Rightarrow> world \<Rightarrow>
    world \<times> agentRunInfo \<times> acp_error option" where
  "runAgentACP s sdk bridge prompt slug runID workDir logPath plansDir w =
     (let resolvedPrompt = resolve_prompt prompt slug workDir runID plansDir;
          projectClaudeDir = fp_join [workDir, ''.claude'']
      in if resolvedPrompt = '''' then (w, no_info, Some EmptyPrompt)
         else if \<not> s_mkdir s (fp_dir logPath) then (w, no_info, Some MkdirLog)
         else case WriteFile logPath '''' 438 (w_fs w) of
           None \<Rightarrow> (w, no_info, Some CreateLog)
         | Some fs1 \<Rightarrow>
             if \<not> s_mkdir s projectClaudeDir then (w\<lparr>w_fs := fs1\<rparr>, no_info, Some MkdirClaude)
             else case WriteFile (fp_join [projectClaudeDir, ''settings.json'']) settingsJSON 420 fs1 of
               None \<Rightarrow> (w\<lparr>w_fs := fs1\<rparr>, no_info, Some WriteSettings)
             | Some fs2 \<Rightarrow> acp_session s sdk bridge slug workDir logPath resolvedPrompt (w\<lparr>w_fs := fs2\<rparr>))"

section \<open>Relative paths\<close>

lemma strip_common_prefix:
  "strip_common xs ys = (b, t) \<Longrightarrow> (b = [] \<longleftrightarrow> prefix xs ys) \<and> (b = [] \<longrightarrow> ys = xs @ t)"
  by (induction xs ys rule: strip_common.induct) (auto split: if_splits)

lemma join_dotdot: "join ''/'' (''..'' # xs) = ''..'' \<or> has_prefix (join ''/'' (''..'' # xs)) ''../''"
  by (cases xs) (simp_all add: has_prefix_iff)

text \<open>No component of a rooted path that was cleaned is \<open>..\<close>.\<close>

lemma clean_rooted_no_dotdot: "''..'' \<notin> set (clean_parts True cs)"
proof -
  have "''..'' \<notin> set (clean_step True stack c)" if "''..'' \<notin> set stack" for stack c
    using that by (auto split: list.splits)
  then have "''..'' \<notin> set (foldl (clean_step True) stack cs)" if "''..'' \<notin> set stack" for stack
    using that by (induction cs arbitrary: stack) (simp_all del: clean_step.simps)
  then show ?thesis
    by (simp add: clean_parts_def)
qed

lemma path_parts_abs:
  assumes "fp_is_abs p"
  shows "set (path_parts p) \<subseteq> set (clean_parts True (split_on slash p))" and "fp_is_abs (fp_clean p)"
proof -
  let ?cs = "clean_parts True (split_on slash p)"
  have p: "p \<noteq> ''''" "hd p = slash"
    using assms by (auto simp: fp_is_abs_def has_prefix_iff)
  then have clean: "fp_clean p = ''/'' @ join ''/'' ?cs"
    by (simp add: fp_clean_def Let_def)
  have "slash \<notin> set c" if "c \<in> set ?cs" for c
    using that clean_parts_subset split_on_sep_free by blast
  then have "?cs \<noteq> [] \<Longrightarrow> split_on slash (join ''/'' ?cs) = ?cs"
    by (intro split_join) auto
  then show "set (path_parts p) \<subseteq> set ?cs"
    unfolding path_parts_def clean by (cases "?cs = []") auto
  show "fp_is_abs (fp_clean p)"
    unfolding clean by (simp add: fp_is_abs_def has_prefix_iff)
qed

lemma path_parts_no_dotdot: "fp_is_abs p \<Longrightarrow> ''..'' \<notin> set (path_parts p)"
  using path_parts_abs(1) clean_rooted_no_dotdot by blast

text \<open>The loop stays on absolute paths when symbolic links of absolute paths resolve to absolute paths.\<close>

lemma fp_dir_abs: "fp_is_abs p \<Longrightarrow> fp_is_abs (fp_dir p)"
proof -
  assume "fp_is_abs p"
  then obtain q where "p = slash # q"
    by (auto simp: fp_is_abs_def has_prefix_iff)
  then have "fp_is_abs (rev (dropWhile (\<lambda>c. c \<noteq> slash) (rev p)))"
    by (simp add: dropWhile_append fp_is_abs_def has_prefix_iff) (metis rev_rev_ident)
  then show ?thesis
    unfolding fp_dir_def by (rule path_parts_abs(2))
qed

lemma fp_join_abs: "fp_is_abs p \<Longrightarrow> fp_is_abs (fp_join [p, q])"
proof -
  assume "fp_is_abs p"
  then have "fp_is_abs (p @ slash # q)" "p \<noteq> ''''"
    by (auto simp: fp_is_abs_def has_prefix_iff)
  then show ?thesis
    using path_parts_abs(2) by (simp add: fp_join_def)
qed

lemma resolve_from_abs:
  assumes "\<And>q r. eval q = Some r \<Longrightarrow> fp_is_abs q \<Longrightarrow> fp_is_abs r" and "fp_is_abs p" and "fp_is_abs cur"
  shows "fp_is_abs (resolve_from eval p cur sfx)"
  using assms
proof (induction eval p cur sfx rule: resolve_from.induct)
  case (1 eval p cur sfx)
  show ?case
  proof (cases "eval cur")
    case None
    then show ?thesis
      using 1(1) [OF None refl] 1(2-4) fp_dir_abs [OF 1(4)] by (subst resolve_from.simps) (simp add: Let_def)
  next
    case (Some r)
    then show ?thesis
      using 1(2) [OF Some 1(4)] fp_join_abs by (subst resolve_from.simps) simp
  qed
qed

text \<open>The relative path leaves the base exactly when the base is not a prefix, by components.\<close>

lemma fp_rel_inside:
  assumes "fp_is_abs base" and "fp_is_abs targ"
  shows "(\<exists>rel. fp_rel base targ = Some rel \<and> rel \<noteq> ''..'' \<and> \<not> has_prefix rel ''../'') \<longleftrightarrow> prefix (path_parts base) (path_parts targ)"
proof -
  obtain b t where bt: "strip_common (path_parts base) (path_parts targ) = (b, t)"
    by force
  note sp = strip_common_prefix [OF bt]
  have abs: "fp_is_abs (fp_clean base) = fp_is_abs (fp_clean targ)"
    using path_parts_abs(2) assms by simp
  show ?thesis
  proof (cases b)
    case Nil
    let ?r = "join ''/'' t"
    have "''..'' \<notin> set t"
      using sp Nil path_parts_no_dotdot [OF assms(2)] by auto
    moreover have "set t \<subseteq> set (path_parts targ)"
      using sp Nil by auto
    then have "slash \<notin> set c" if "c \<in> set t" for c
      using that split_on_sep_free [of c slash "fp_clean targ"] by (auto simp: path_parts_def)
    then have "t \<noteq> [] \<Longrightarrow> split_on slash ?r = t"
      by (intro split_join) auto
    ultimately have "?r \<noteq> ''..'' \<and> \<not> has_prefix ?r ''../''"
      by (cases "t = []") (force simp: has_prefix_iff split_on_no_sep)+
    moreover have "fp_rel base targ = Some (if ?r = '''' then ''.'' else ?r)"
      unfolding fp_rel_def bt using abs Nil by (simp add: Let_def)
    ultimately show ?thesis
      using sp Nil by (simp add: has_prefix_iff)
  next
    case (Cons c cs)
    then show ?thesis
      using sp join_dotdot [of "replicate (length cs) ''..'' @ t"] by (auto simp: fp_rel_def bt Let_def has_prefix_iff split: if_splits)
  qed
qed

section \<open>The prompt\<close>

lemma replacer_Nil [simp]: "replacer pairs [] = []"
  by (simp add: replacer.simps)

text \<open>A text in which no placeholder begins is kept, up to the next one.\<close>

lemma replacer_skip:
  assumes "\<forall>(old, new) \<in> set pairs. \<exists>c rest. old = c # rest \<and> c \<notin> set s"
  shows "replacer pairs (s @ t) = s @ replacer pairs t"
  using assms
proof (induction s)
  case (Cons c s)
  have "find (\<lambda>(old, new). has_prefix ((c # s) @ t) old) pairs = None"
    using Cons.prems by (fastforce simp: find_None_iff has_prefix_iff)
  then show ?case
    using Cons by (subst replacer.simps) (fastforce split: prod.splits)
qed simp

lemma replacer_hit:
  assumes "find (\<lambda>(old, new). has_prefix (old1 @ t) old) pairs = Some (old1, new1)" and "old1 \<noteq> []"
  shows "replacer pairs (old1 @ t) = new1 @ replacer pairs t"
proof -
  have "max 1 (length old1) = length old1"
    using assms(2) by (cases old1) simp_all
  then show ?thesis
    using assms by (subst replacer.simps) simp
qed

section \<open>Properties\<close>

text \<open>
  C39 (\<open>fenceWorkDir\<close>). An absolute path passes the fence of a worktree that resolves to \<open>wd\<close>
  exactly when the path, with its longest existing prefix resolved, is \<open>wd\<close> or below it,
  component by component; a relative path never passes.
\<close>

theorem fence_exact:
  assumes "\<forall>q r. eval q = Some r \<longrightarrow> fp_is_abs q \<longrightarrow> fp_is_abs r" and "fp_is_abs workDir" and "eval workDir = Some wd"
  shows "fenceWorkDir eval workDir path = None \<longleftrightarrow>
    fp_is_abs path \<and> prefix (path_parts wd) (path_parts (resolveExistingPrefix eval (fp_clean path)))"
proof (cases "fp_is_abs path")
  case True
  have "fp_is_abs (resolveExistingPrefix eval (fp_clean path))"
    unfolding resolveExistingPrefix_def using assms(1) path_parts_abs(2) [OF True] by (intro resolve_from_abs) blast+
  moreover have "fp_is_abs wd"
    using assms by blast
  ultimately
  have "prefix (path_parts wd) (path_parts (resolveExistingPrefix eval (fp_clean path))) \<longleftrightarrow>
      (\<exists>rel. fp_rel wd (resolveExistingPrefix eval (fp_clean path)) = Some rel \<and> rel \<noteq> ''..'' \<and> \<not> has_prefix rel ''../'')"
    using fp_rel_inside by simp
  moreover have "workDir \<noteq> ''''"
    using assms(2) by (auto simp: fp_is_abs_def has_prefix_iff)
  ultimately show ?thesis
    using True assms(3) by (auto simp: fenceWorkDir_def split: option.splits)
qed (simp add: fenceWorkDir_def)

text \<open>Symbolic links of a sample system: \<open>/tmp\<close> is a link to \<open>/private\<close>; \<open>/private/wt\<close> exists.\<close>

definition sample_eval :: "string \<Rightarrow> string option" where
  "sample_eval p = map_of [(''/tmp/wt'', ''/private/wt''), (''/private/wt'', ''/private/wt''), (''/private'', ''/private''), (''/tmp'', ''/private''), (''/'', ''/'')] p"

theorem fence_exact_witness:
  "fenceWorkDir sample_eval ''/tmp/wt'' ''/tmp/wt/new.txt'' = None \<and>
   fenceWorkDir sample_eval ''/tmp/wt'' ''/tmp/wt/../other'' \<noteq> None"
proof -
  have abs: "\<forall>q r. sample_eval q = Some r \<longrightarrow> fp_is_abs q \<longrightarrow> fp_is_abs r"
    by (simp add: sample_eval_def fp_is_abs_def has_prefix_iff)
  have
    "prefix (path_parts ''/private/wt'') (path_parts (resolveExistingPrefix sample_eval (fp_clean ''/tmp/wt/new.txt'')))"
    "\<not> prefix (path_parts ''/private/wt'') (path_parts (resolveExistingPrefix sample_eval (fp_clean ''/tmp/wt/../other'')))"
    "sample_eval ''/tmp/wt'' = Some ''/private/wt''" "fp_is_abs ''/tmp/wt''" "fp_is_abs ''/tmp/wt/new.txt''"
    by code_simp+
  with fence_exact [OF abs, of "''/tmp/wt''" "''/private/wt''"] show ?thesis
    by simp
qed

text \<open>
  A path whose last component does not resolve passes the fence when its directory does, be it
  a missing file or a symbolic link whose target is missing: for the latter \<open>os.WriteFile\<close>
  follows the link and creates the target, wherever it is.
\<close>

lemma fence_unresolved_link:
  "fenceWorkDir (\<lambda>p. if p = ''/w'' then Some ''/w'' else None) ''/w'' ''/w/link'' = None"
  by code_simp



text \<open>
  \<open>runAgentACP\<close>, the environment: The bridge sees the variables of the coordinator in
  their order without the scrubbed ones, and one \<open>PWD\<close>, the agent's directory.
\<close>

theorem bridge_env_scrubbed:
  "filter (\<lambda>e. has_prefix e ''PWD='') (bridge_env environ workDir) = [''PWD='' @ workDir] \<and>
   butlast (bridge_env environ workDir) = filter (\<lambda>e. \<forall>d \<in> set scrubbed_names. \<not> has_prefix e (d @ ''='')) environ"
proof -
  have "''PWD'' \<in> set scrubbed_names"
    by (simp add: scrubbed_names_def)
  then have "filter (\<lambda>e. has_prefix e ''PWD='') (filterEnv environ scrubbed_names) = []"
    unfolding filterEnv_def filter_filter filter_empty_conv list_ex_iff by force
  then show ?thesis
    by (simp add: bridge_env_def filterEnv_def list_ex_iff has_prefix_iff)
qed

theorem bridge_env_scrubbed_witness:
  "bridge_env [''PWD=/c'', ''HOME=/h''] ''/w'' = [''HOME=/h'', ''PWD=/w'']"
proof -
  let ?x = "bridge_env [''PWD=/c'', ''HOME=/h''] ''/w''"
  have kept: "filter (\<lambda>e. \<forall>d \<in> set scrubbed_names. \<not> has_prefix e (d @ ''='')) [''PWD=/c'', ''HOME=/h''] = [''HOME=/h'']"
    by code_simp
  have pwd: "last ?x = ''PWD=/w''" and ne: "?x \<noteq> []"
    by code_simp+
  have b: "butlast ?x = [''HOME=/h'']"
    using conjunct2 [OF bridge_env_scrubbed, of "[''PWD=/c'', ''HOME=/h'']" "''/w''"] unfolding kept .
  show ?thesis
    using append_butlast_last_id [OF ne] unfolding b pwd by (simp only: append_Cons append_Nil)
qed

end
