(* ===== verification/Partition.thy ===== *)
theory Partition
  imports Bricks
begin

text \<open>
  \<open>lib/dispatch/partition.go\<close>: the split of the brick set into the shared bricks,
  which the coordinator merges itself, and the groups that sub-agents work on in
  parallel.

  The definitions follow \<open>PartitionBricks\<close>: the index by path (later entries of the
  \<open>range\<close> overwrite earlier ones), \<open>nearestAncestor\<close> as the fold over the sorted
  paths, \<open>groupRoot\<close> as the loop that walks up through non-shared ancestors, and the
  final pass over the sorted paths. A parameter \<open>paths\<close> or \<open>shared\<close> of a definition
  is the variable the Go closure captures.
\<close>

section \<open>The model\<close>

record partition =
  Shared :: "string list"
  Groups :: "(string, string list) gomap"

definition AgentCount :: "partition \<Rightarrow> nat" where
  "AgentCount p = length (Groups p)"

record sharedCandidate =
  sc_slug :: string
  sc_size :: nat

text \<open>The key orders by size descending, then by slug ascending.\<close>

definition cand_key :: "sharedCandidate \<Rightarrow> int \<times> string" where
  "cand_key c = (- int (sc_size c), sc_slug c)"

definition suggestSharedCandidates :: "partition \<Rightarrow> nat \<Rightarrow> sharedCandidate list" where
  "suggestSharedCandidates p threshold =
     take 5 (sort_key cand_key
       (map (\<lambda>(slug, members). \<lparr>sc_slug = slug, sc_size = length members\<rparr>)
         (filter (\<lambda>(slug, members). length members > threshold) (Groups p))))"

text \<open>The entries the first loop keeps, and the three variables it fills.\<close>

definition indexed :: "bricks \<Rightarrow> bricks" where
  "indexed bs = filter (\<lambda>(slug, b). slug \<noteq> '''' \<and> bi_path b \<noteq> '''') bs"

definition pathToSlug :: "bricks \<Rightarrow> (string, string) gomap" where
  "pathToSlug bs = foldl (\<lambda>m (slug, b). AList.update (bi_path b) slug m) [] (indexed bs)"

definition pathShared :: "bricks \<Rightarrow> (string, bool) gomap" where
  "pathShared bs = foldl (\<lambda>m (slug, b). AList.update (bi_path b) (IsShared b) m) [] (indexed bs)"

definition brick_paths :: "bricks \<Rightarrow> string list" where
  "brick_paths bs = sort (map (\<lambda>(slug, b). bi_path b) (indexed bs))"

definition nearest_step :: "string \<Rightarrow> string \<Rightarrow> string \<Rightarrow> string" where
  "nearest_step p best q =
     (if q = p then best
      else if \<not> has_prefix p (q @ ''/'') then best
      else if length q > length best then q else best)"

definition nearestAncestor :: "string list \<Rightarrow> string \<Rightarrow> string" where
  "nearestAncestor paths p = foldl (nearest_step p) '''' paths"

lemma nearest_step_cases:
  "foldl (nearest_step p) best paths = best \<or> ancestor (foldl (nearest_step p) best paths) p"
proof (induction paths arbitrary: best)
  case (Cons q paths)
  have "nearest_step p best q = best \<or> ancestor (nearest_step p best q) p"
    by (simp add: nearest_step_def ancestor_def)
  with Cons [of "nearest_step p best q"] show ?case
    by auto
qed simp

lemma nearestAncestor_shorter:
  "nearestAncestor paths p \<noteq> '''' \<Longrightarrow> length (nearestAncestor paths p) < length p"
  using nearest_step_cases [of p "''''" paths] path.anc_depth
  by (auto simp: nearestAncestor_def)

function groupRoot :: "string list \<Rightarrow> (string, bool) gomap \<Rightarrow> string \<Rightarrow> string" where
  "groupRoot paths shared current =
     (let parent = nearestAncestor paths current in
      if parent = '''' \<or> get_or False shared parent then current
      else groupRoot paths shared parent)"
  by pat_completeness auto
termination
  by (relation "measure (\<lambda>(_, _, current). length current)") (auto dest: nearestAncestor_shorter)

declare groupRoot.simps [simp del]

text \<open>One iteration of the final loop.\<close>

definition partition_step :: "bricks \<Rightarrow> partition \<Rightarrow> string \<Rightarrow> partition" where
  "partition_step bs part p =
     (let slug = get_or '''' (pathToSlug bs) p in
      if get_or False (pathShared bs) p then part\<lparr>Shared := Shared part @ [slug]\<rparr>
      else
        let root = get_or '''' (pathToSlug bs) (groupRoot (brick_paths bs) (pathShared bs) p);
            rootSlug = (if root = '''' then slug else root)
        in part\<lparr>Groups := AList.update rootSlug (get_or [] (Groups part) rootSlug @ [slug]) (Groups part)\<rparr>)"

definition PartitionBricks :: "bricks \<Rightarrow> partition" where
  "PartitionBricks bs =
     (let part = foldl (partition_step bs) \<lparr>Shared = [], Groups = []\<rparr> (brick_paths bs) in
      \<lparr>Shared = sort (Shared part), Groups = map (\<lambda>(k, members). (k, sort members)) (Groups part)\<rparr>)"

section \<open>The walk to the group root\<close>

lemma brick_paths_ne: "'''' \<notin> set (brick_paths bs)"
  by (auto simp: brick_paths_def indexed_def)

text \<open>The invariant of the loop of \<open>nearestAncestor\<close>.\<close>

lemma nearest_fold:
  assumes "best = '''' \<or> (best \<in> A \<and> ancestor best p)"
  shows "(let r = foldl (nearest_step p) best paths in
      (r = '''' \<or> (r \<in> A \<union> set paths \<and> ancestor r p)) \<and> length best \<le> length r \<and>
      (\<forall>q \<in> set paths. ancestor q p \<longrightarrow> length q \<le> length r))"
  using assms
proof (induction paths arbitrary: best A)
  case (Cons q paths)
  let ?b = "nearest_step p best q"
  have "?b = '''' \<or> (?b \<in> insert q A \<and> ancestor ?b p)"
    using Cons.prems by (auto simp: nearest_step_def ancestor_def)
  moreover have "length best \<le> length ?b" "ancestor q p \<longrightarrow> length q \<le> length ?b"
    using path.anc_irrefl by (auto simp: nearest_step_def ancestor_def)
  ultimately show ?case
    using Cons.IH [of ?b "insert q A"] by (auto simp: Let_def)
qed (simp add: Let_def)

definition parent_of :: "string list \<Rightarrow> string \<Rightarrow> string option" where
  "parent_of paths p = (let q = nearestAncestor paths p in if q = '''' then None else Some q)"

lemma nearestAncestor_bound:
  "q \<in> set paths \<Longrightarrow> ancestor q p \<Longrightarrow> length q \<le> length (nearestAncestor paths p)"
  using nearest_fold [of "''''" "{}" p paths] by (auto simp: Let_def nearestAncestor_def)

lemma nearestAncestor_in:
  "nearestAncestor paths p \<noteq> '''' \<Longrightarrow>
     nearestAncestor paths p \<in> set paths \<and> ancestor (nearestAncestor paths p) p"
  using nearest_fold [of "''''" "{}" p paths] by (auto simp: Let_def nearestAncestor_def)

lemmas parent_of_defs = parent_of_def Let_def

interpretation grp: forest ancestor length "set (brick_paths bs)" "get_or False (pathShared bs)"
  "parent_of (brick_paths bs)" "groupRoot (brick_paths bs) (pathShared bs)"
  for bs :: bricks
proof
  fix p q r
  show "\<not> ancestor q p" if "parent_of (brick_paths bs) p = None" "q \<in> set (brick_paths bs)"
    using that nearestAncestor_bound [of q "brick_paths bs" p] brick_paths_ne [of bs]
    by (auto simp: parent_of_defs split: if_splits)
  show "q \<in> set (brick_paths bs)" "ancestor q p" if "parent_of (brick_paths bs) p = Some q"
    using that nearestAncestor_in [of "brick_paths bs" p]
    by (auto simp: parent_of_defs split: if_splits)
  show "r = q \<or> ancestor r q"
    if "parent_of (brick_paths bs) p = Some q" "r \<in> set (brick_paths bs)" "ancestor r p"
    using that nearestAncestor_in [of "brick_paths bs" p]
      nearestAncestor_bound [OF that(2,3)] path.anc_by_depth [of r p q] path.anc_depth_inj [of r p q]
    by (auto simp: parent_of_defs le_less split: if_splits)
  show "groupRoot (brick_paths bs) (pathShared bs) p =
      (case parent_of (brick_paths bs) p of None \<Rightarrow> p
       | Some q \<Rightarrow> if get_or False (pathShared bs) q then p
                   else groupRoot (brick_paths bs) (pathShared bs) q)"
    by (simp add: parent_of_defs groupRoot.simps [of _ _ p])
qed

section \<open>The index by path\<close>

text \<open>
  The hypothesis of the theorems: the map has unique keys and no two indexed bricks
  share a path.
\<close>

definition wf_lattice :: "bricks \<Rightarrow> bool" where
  "wf_lattice bs \<longleftrightarrow> wf_map bs \<and> unique_paths (indexed bs)"

lemma indexed_paths_distinct: "wf_lattice bs \<Longrightarrow> distinct (map (\<lambda>(slug, b). bi_path b) (indexed bs))"
  by (simp add: wf_lattice_def distinct_map unique_paths_def indexed_def wf_map_distinct)

lemma path_index:
  assumes "wf_lattice bs"
  shows "foldl (\<lambda>m (slug, b). AList.update (bi_path b) (g slug b) m) [] (indexed bs)
    = map (\<lambda>(slug, b). (bi_path b, g slug b)) (indexed bs)"
  using foldl_update_distinct [OF indexed_paths_distinct [OF assms], of "\<lambda>(slug, b). g slug b"]
  by (simp add: case_prod_unfold)

lemma path_index_get:
  assumes "wf_lattice bs" and "(s, b) \<in> set (indexed bs)"
  shows "get_or z (foldl (\<lambda>m (slug, b). AList.update (bi_path b) (g slug b) m) [] (indexed bs)) (bi_path b)
    = g s b"
proof (rule get_or_in)
  show "wf_map (foldl (\<lambda>m (slug, b). AList.update (bi_path b) (g slug b) m) [] (indexed bs))"
    unfolding path_index [OF assms(1)]
    using indexed_paths_distinct [OF assms(1)] by (simp add: wf_map_def comp_def case_prod_unfold)
  show "(bi_path b, g s b)
      \<in> set (foldl (\<lambda>m (slug, b). AList.update (bi_path b) (g slug b) m) [] (indexed bs))"
    unfolding path_index [OF assms(1)] using assms(2) by force
qed

lemma pathToSlug_get:
  "wf_lattice bs \<Longrightarrow> (s, b) \<in> set (indexed bs) \<Longrightarrow> get_or z (pathToSlug bs) (bi_path b) = s"
  unfolding pathToSlug_def by (rule path_index_get)

lemma pathShared_get:
  "wf_lattice bs \<Longrightarrow> (s, b) \<in> set (indexed bs) \<Longrightarrow> get_or z (pathShared bs) (bi_path b) = IsShared b"
  unfolding pathShared_def by (rule path_index_get)

lemma indexed_slug_ne: "(s, b) \<in> set (indexed bs) \<Longrightarrow> s \<noteq> ''''"
  by (simp add: indexed_def)

lemma indexed_in_paths: "(s, b) \<in> set (indexed bs) \<Longrightarrow> bi_path b \<in> set (brick_paths bs)"
  by (force simp: brick_paths_def)

lemma brick_paths_cases:
  assumes "p \<in> set (brick_paths bs)"
  obtains s b where "(s, b) \<in> set (indexed bs)" and "p = bi_path b"
  using assms by (auto simp: brick_paths_def)

lemma indexed_slug_inj:
  "wf_lattice bs \<Longrightarrow> (s, b) \<in> set (indexed bs) \<Longrightarrow> (s, b') \<in> set (indexed bs) \<Longrightarrow> b = b'"
  by (metis indexed_def map_of_in_set option.inject wf_lattice_def wf_map_filter)

lemma indexed_path_inj:
  "wf_lattice bs \<Longrightarrow> (s, b) \<in> set (indexed bs) \<Longrightarrow> (s', b') \<in> set (indexed bs) \<Longrightarrow>
     bi_path b = bi_path b' \<longleftrightarrow> s = s'"
  by (metis indexed_slug_inj unique_pathsD wf_lattice_def)

text \<open>The key a path is filed under: the slug of its group root.\<close>

definition root_slug :: "bricks \<Rightarrow> string \<Rightarrow> string" where
  "root_slug bs p = get_or '''' (pathToSlug bs) (groupRoot (brick_paths bs) (pathShared bs) p)"

lemma root_slug_in:
  assumes "wf_lattice bs" and "p \<in> set (brick_paths bs)"
  obtains b where "(root_slug bs p, b) \<in> set (indexed bs)"
    and "groupRoot (brick_paths bs) (pathShared bs) p = bi_path b"
proof -
  from grp.climb_node [OF assms(2)] obtain s b
    where sb: "(s, b) \<in> set (indexed bs)" and r: "groupRoot (brick_paths bs) (pathShared bs) p = bi_path b"
    by (rule brick_paths_cases)
  with pathToSlug_get [OF assms(1) sb] show thesis
    by (intro that [of b]) (simp_all add: root_slug_def)
qed

section \<open>The final pass\<close>

abbreviation slug_at :: "bricks \<Rightarrow> string \<Rightarrow> string" where
  "slug_at bs \<equiv> get_or '''' (pathToSlug bs)"

abbreviation shared_at :: "bricks \<Rightarrow> string \<Rightarrow> bool" where
  "shared_at bs \<equiv> get_or False (pathShared bs)"

lemma partition_step_eq:
  assumes "wf_lattice bs" and "p \<in> set (brick_paths bs)"
  shows "partition_step bs part p =
    (if shared_at bs p then part\<lparr>Shared := Shared part @ [slug_at bs p]\<rparr>
     else part\<lparr>Groups := AList.update (root_slug bs p)
                 (get_or [] (Groups part) (root_slug bs p) @ [slug_at bs p]) (Groups part)\<rparr>)"
proof -
  have "root_slug bs p \<noteq> ''''"
    using assms by (metis indexed_slug_ne root_slug_in)
  then show ?thesis
    by (simp add: partition_step_def Let_def root_slug_def)
qed

text \<open>What the loop of the final pass adds to the partition built so far.\<close>

definition pass_adds :: "bricks \<Rightarrow> string list \<Rightarrow> partition \<Rightarrow> partition \<Rightarrow> bool" where
  "pass_adds bs ps part part' \<longleftrightarrow>
     Shared part' = Shared part @ map (slug_at bs) (filter (shared_at bs) ps) \<and>
     (\<forall>k. get_or [] (Groups part') k = get_or [] (Groups part) k
        @ map (slug_at bs) (filter (\<lambda>p. \<not> shared_at bs p \<and> root_slug bs p = k) ps)) \<and>
     set (keys (Groups part')) = set (keys (Groups part))
        \<union> root_slug bs ` {p \<in> set ps. \<not> shared_at bs p} \<and>
     wf_map (Groups part') \<and>
     mset (concat (map snd (Groups part'))) = mset (concat (map snd (Groups part)))
        + mset (map (slug_at bs) (filter (\<lambda>p. \<not> shared_at bs p) ps))"

lemma pass_adds_step:
  assumes "wf_lattice bs" and "p \<in> set (brick_paths bs)" and "wf_map (Groups part)"
  shows "pass_adds bs [p] part (partition_step bs part p)"
  using assms(3) unfolding pass_adds_def partition_step_eq [OF assms(1,2)]
  by (auto simp: get_or_update mset_append_entry wf_map_update dom_update)

lemma pass_adds_trans:
  "pass_adds bs ps part part' \<Longrightarrow> pass_adds bs qs part' part'' \<Longrightarrow> pass_adds bs (ps @ qs) part part''"
  unfolding pass_adds_def by auto

lemma partition_fold:
  assumes "wf_lattice bs" and "set ps \<subseteq> set (brick_paths bs)" and "wf_map (Groups part)"
  shows "pass_adds bs ps part (foldl (partition_step bs) part ps)"
  using assms(2,3)
proof (induction ps arbitrary: part)
  case (Cons p ps)
  then have step: "pass_adds bs [p] part (partition_step bs part p)"
    using pass_adds_step [OF assms(1)] by simp
  then have "wf_map (Groups (partition_step bs part p))"
    by (simp add: pass_adds_def)
  with Cons step show ?case
    using pass_adds_trans [OF step] by simp
qed (simp add: pass_adds_def)

text \<open>The partition in terms of the paths: the starting point of the theorems.\<close>

lemma PartitionBricks_pass:
  assumes "wf_lattice bs"
  obtains part where "pass_adds bs (brick_paths bs) \<lparr>Shared = [], Groups = []\<rparr> part"
    and "PartitionBricks bs =
      \<lparr>Shared = sort (Shared part), Groups = map (\<lambda>(k, members). (k, sort members)) (Groups part)\<rparr>"
  using partition_fold [OF assms, of "brick_paths bs" "\<lparr>Shared = [], Groups = []\<rparr>"]
  by (auto simp: PartitionBricks_def Let_def)

lemma map_slug_paths:
  assumes "wf_lattice bs"
  shows "mset (map (slug_at bs) (filter P (brick_paths bs)))
    = mset (map fst (filter (\<lambda>(s, b). P (bi_path b)) (indexed bs)))"
proof -
  have "map (slug_at bs) (filter P (map (\<lambda>(s, b). bi_path b) es))
      = map fst (filter (\<lambda>(s, b). P (bi_path b)) es)" if "set es \<subseteq> set (indexed bs)" for es
    using that pathToSlug_get [OF assms] by (induction es) auto
  then have "mset (map (slug_at bs) (filter P (map (\<lambda>(s, b). bi_path b) (indexed bs))))
      = mset (map fst (filter (\<lambda>(s, b). P (bi_path b)) (indexed bs)))"
    by simp
  then show ?thesis
    by (simp add: brick_paths_def)
qed

lemma set_slug_paths:
  assumes "wf_lattice bs"
  shows "slug_at bs ` {p \<in> set (brick_paths bs). P p} = {s. \<exists>b. (s, b) \<in> set (indexed bs) \<and> P (bi_path b)}"
  using arg_cong [OF map_slug_paths [OF assms, of P], of set_mset] by (force simp: image_iff)

lemma Groups_entry:
  assumes "wf_lattice bs" and "(k, ms) \<in> set (Groups (PartitionBricks bs))"
  shows "set ms = {s. \<exists>b. (s, b) \<in> set (indexed bs) \<and> \<not> IsShared b \<and> root_slug bs (bi_path b) = k}"
    and "sorted ms"
    and "\<exists>s b. (s, b) \<in> set (indexed bs) \<and> \<not> IsShared b \<and> root_slug bs (bi_path b) = k"
proof -
  from assms(1) obtain part where pass: "pass_adds bs (brick_paths bs) \<lparr>Shared = [], Groups = []\<rparr> part"
    and eq: "PartitionBricks bs =
      \<lparr>Shared = sort (Shared part), Groups = map (\<lambda>(k, members). (k, sort members)) (Groups part)\<rparr>"
    by (rule PartitionBricks_pass)
  from assms(2) obtain ms' where ms': "(k, ms') \<in> set (Groups part)" and ms: "ms = sort ms'"
    by (auto simp: eq)
  have "wf_map (Groups part)"
    using pass by (simp add: pass_adds_def)
  then have get: "get_or [] (Groups part) k = ms'"
    using get_or_in ms' by metis
  have "ms' = map (slug_at bs) (filter (\<lambda>p. \<not> shared_at bs p \<and> root_slug bs p = k) (brick_paths bs))"
    using pass get by (simp add: pass_adds_def get_or_def)
  then have "set ms = slug_at bs ` {p \<in> set (brick_paths bs). \<not> shared_at bs p \<and> root_slug bs p = k}"
    by (simp add: ms)
  then show "set ms = {s. \<exists>b. (s, b) \<in> set (indexed bs) \<and> \<not> IsShared b \<and> root_slug bs (bi_path b) = k}"
    unfolding set_slug_paths [OF assms(1)] using pathShared_get [OF assms(1)] by auto
  show "sorted ms"
    by (simp add: ms)
  have "k \<in> root_slug bs ` {p \<in> set (brick_paths bs). \<not> shared_at bs p}"
  proof -
    have "set (keys (Groups part)) = root_slug bs ` {p \<in> set (brick_paths bs). \<not> shared_at bs p}"
      using pass by (simp add: pass_adds_def)
    then show ?thesis
      using image_eqI [OF _ ms', of k fst] by simp
  qed
  then show "\<exists>s b. (s, b) \<in> set (indexed bs) \<and> \<not> IsShared b \<and> root_slug bs (bi_path b) = k"
    using pathShared_get [OF assms(1)] brick_paths_cases [of _ bs] by (smt (verit) image_iff mem_Collect_eq)
qed

lemma Groups_key:
  assumes "wf_lattice bs" and "(s, b) \<in> set (indexed bs)" and "\<not> IsShared b"
  shows "\<exists>ms. (root_slug bs (bi_path b), ms) \<in> set (Groups (PartitionBricks bs))"
proof -
  from assms(1) obtain part where pass: "pass_adds bs (brick_paths bs) \<lparr>Shared = [], Groups = []\<rparr> part"
    and eq: "PartitionBricks bs =
      \<lparr>Shared = sort (Shared part), Groups = map (\<lambda>(k, members). (k, sort members)) (Groups part)\<rparr>"
    by (rule PartitionBricks_pass)
  have "bi_path b \<in> {p \<in> set (brick_paths bs). \<not> shared_at bs p}"
    using assms indexed_in_paths pathShared_get by auto
  then have "root_slug bs (bi_path b) \<in> set (keys (Groups part))"
    using pass by (auto simp: pass_adds_def)
  then show ?thesis
    by (force simp: eq)
qed

definition same_group :: "partition \<Rightarrow> string \<Rightarrow> string \<Rightarrow> bool" where
  "same_group part s t \<longleftrightarrow> (\<exists>(k, ms) \<in> set (Groups part). s \<in> set ms \<and> t \<in> set ms)"

lemma same_group_root:
  assumes "wf_lattice bs" and "(s, b) \<in> set (indexed bs)" and "(t, c) \<in> set (indexed bs)"
    and "\<not> IsShared b" and "\<not> IsShared c"
  shows "same_group (PartitionBricks bs) s t \<longleftrightarrow>
    groupRoot (brick_paths bs) (pathShared bs) (bi_path b) = groupRoot (brick_paths bs) (pathShared bs) (bi_path c)"
proof -
  have member: "u \<in> set ms \<longleftrightarrow> root_slug bs (bi_path d) = k"
    if "(k, ms) \<in> set (Groups (PartitionBricks bs))" "(u, d) \<in> set (indexed bs)" "\<not> IsShared d" for k ms u d
    using Groups_entry(1) [OF assms(1) that(1)] that(2,3) indexed_slug_inj [OF assms(1) that(2)] by blast
  have "same_group (PartitionBricks bs) s t \<longleftrightarrow> root_slug bs (bi_path b) = root_slug bs (bi_path c)"
    using member [OF _ assms(2,4)] member [OF _ assms(3,5)] Groups_key [OF assms(1,2,4)]
    unfolding same_group_def by (metis (no_types, lifting) case_prodE case_prodI)
  also have "\<dots> \<longleftrightarrow>
    groupRoot (brick_paths bs) (pathShared bs) (bi_path b) = groupRoot (brick_paths bs) (pathShared bs) (bi_path c)"
    using root_slug_in [OF assms(1) indexed_in_paths [OF assms(2)]]
      root_slug_in [OF assms(1) indexed_in_paths [OF assms(3)]] indexed_path_inj [OF assms(1)]
    by metis
  finally show ?thesis .
qed

section \<open>The theorems\<close>

text \<open>
  C15 (\<open>PartitionBricks\<close>). Every brick with a slug and a path is placed exactly once:
  the shared list and the groups together hold each of their slugs once, and the
  shared list holds exactly the bricks for which \<open>IsShared\<close> is true. The lists are
  sorted and the groups have distinct keys.
\<close>

theorem PartitionBricks_places_once:
  assumes "wf_lattice bs"
  defines "part \<equiv> PartitionBricks bs"
  shows "mset (Shared part) + mset (concat (map snd (Groups part))) = mset (map fst (indexed bs))
    \<and> distinct (Shared part @ concat (map snd (Groups part)))
    \<and> set (Shared part) = {s. \<exists>b. (s, b) \<in> set (indexed bs) \<and> IsShared b}
    \<and> sorted (Shared part) \<and> (\<forall>(k, ms) \<in> set (Groups part). sorted ms) \<and> wf_map (Groups part)"
proof -
  from assms(1) obtain raw where pass: "pass_adds bs (brick_paths bs) \<lparr>Shared = [], Groups = []\<rparr> raw"
    and eq: "part = \<lparr>Shared = sort (Shared raw), Groups = map (\<lambda>(k, ms). (k, sort ms)) (Groups raw)\<rparr>"
    unfolding part_def by (rule PartitionBricks_pass)
  have members: "mset (concat (map snd (Groups part))) = mset (concat (map snd (Groups raw)))"
    by (simp add: eq mset_concat comp_def case_prod_unfold)
  have "mset (Shared part) + mset (concat (map snd (Groups part)))
      = mset (map (slug_at bs) (filter (\<lambda>p. True) (brick_paths bs)))"
  proof -
    have "mset (Shared part) = image_mset (slug_at bs) {#p \<in># mset (brick_paths bs). shared_at bs p#}"
      and "mset (concat (map snd (Groups part)))
        = image_mset (slug_at bs) {#p \<in># mset (brick_paths bs). \<not> shared_at bs p#}"
      unfolding members using pass by (simp_all add: pass_adds_def eq)
    then show ?thesis
      using multiset_partition [of "mset (brick_paths bs)" "shared_at bs"] by (metis filter_True image_mset_union mset_map)
  qed
  also have "\<dots> = mset (map fst (indexed bs))"
    unfolding map_slug_paths [OF assms(1)] by simp
  finally have all: "mset (Shared part) + mset (concat (map snd (Groups part))) = mset (map fst (indexed bs))" .
  have "distinct (map fst (indexed bs))"
    using assms(1) wf_map_filter unfolding wf_lattice_def indexed_def wf_map_def by blast
  with all have "distinct (Shared part @ concat (map snd (Groups part)))"
    by (metis mset_append mset_eq_imp_distinct_iff)
  moreover have "set (Shared part) = {s. \<exists>b. (s, b) \<in> set (indexed bs) \<and> IsShared b}"
    using pass set_slug_paths [OF assms(1), of "shared_at bs"] pathShared_get [OF assms(1)]
    by (auto simp: pass_adds_def eq)
  moreover have "wf_map (Groups part)" "\<forall>(k, ms) \<in> set (Groups part). sorted ms" "sorted (Shared part)"
    using pass by (auto simp: eq pass_adds_def wf_map_def comp_def case_prod_unfold)
  ultimately show ?thesis
    using all by blast
qed

text \<open>
  \<open>unbroken bs r p\<close>: \<open>r\<close> is \<open>p\<close> or an ancestor of it, and no shared brick lies on the
  way from \<open>r\<close> (included) to \<open>p\<close> (excluded).
\<close>

definition unbroken :: "bricks \<Rightarrow> string \<Rightarrow> string \<Rightarrow> bool" where
  "unbroken bs r p \<longleftrightarrow> (r = p \<or> ancestor r p) \<and>
     (\<forall>(s, b) \<in> set (indexed bs).
        (bi_path b = r \<or> ancestor r (bi_path b)) \<and> ancestor (bi_path b) p \<longrightarrow> \<not> IsShared b)"

lemma unbroken_chain:
  assumes "wf_lattice bs"
  shows "unmarked_chain ancestor (set (brick_paths bs)) (shared_at bs) r p \<longleftrightarrow> unbroken bs r p"
  using indexed_in_paths pathShared_get [OF assms] brick_paths_cases
  unfolding unmarked_chain_def unbroken_def by (smt (verit) case_prodD case_prodI2)

text \<open>
  C16 (\<open>PartitionBricks\<close>). Two non-shared bricks are in the same group exactly when some
  brick of the lattice is reached from both by walking up through non-shared bricks:
  the groups are the connected components of the path tree without the shared bricks.
\<close>

theorem PartitionBricks_groups:
  assumes "wf_lattice bs" and "(s, b) \<in> set (indexed bs)" and "(t, c) \<in> set (indexed bs)"
    and "\<not> IsShared b" and "\<not> IsShared c"
  shows "same_group (PartitionBricks bs) s t \<longleftrightarrow>
    (\<exists>(u, d) \<in> set (indexed bs). unbroken bs (bi_path d) (bi_path b) \<and> unbroken bs (bi_path d) (bi_path c))"
proof -
  have "same_group (PartitionBricks bs) s t \<longleftrightarrow>
      (\<exists>r \<in> set (brick_paths bs). unbroken bs r (bi_path b) \<and> unbroken bs r (bi_path c))"
    using same_group_root [OF assms] grp.climb_eq_iff [OF assms(2,3) [THEN indexed_in_paths]]
    by (simp add: unbroken_chain [OF assms(1)])
  also have "\<dots> \<longleftrightarrow> (\<exists>(u, d) \<in> set (indexed bs).
      unbroken bs (bi_path d) (bi_path b) \<and> unbroken bs (bi_path d) (bi_path c))"
    by (auto simp: brick_paths_def case_prod_unfold)
  finally show ?thesis .
qed

text \<open>
  C17 (\<open>PartitionBricks\<close>). Of two non-shared bricks on one branch of the tree, the lower
  one is in the group of the upper one exactly when no shared brick lies between them;
  so two groups can only nest below each other through a shared brick.
\<close>

theorem PartitionBricks_branch:
  assumes "wf_lattice bs" and "(s, b) \<in> set (indexed bs)" and "(t, c) \<in> set (indexed bs)"
    and "\<not> IsShared b" and "\<not> IsShared c" and "ancestor (bi_path b) (bi_path c)"
  shows "same_group (PartitionBricks bs) s t \<longleftrightarrow>
    (\<forall>(u, d) \<in> set (indexed bs).
       ancestor (bi_path b) (bi_path d) \<and> ancestor (bi_path d) (bi_path c) \<longrightarrow> \<not> IsShared d)"
proof -
  have "same_group (PartitionBricks bs) s t \<longleftrightarrow> (\<forall>q \<in> set (brick_paths bs).
      (q = bi_path b \<or> ancestor (bi_path b) q) \<and> ancestor q (bi_path c) \<longrightarrow> \<not> shared_at bs q)"
    using same_group_root [OF assms(1-5)] grp.climb_anc_eq_iff [OF assms(2) [THEN indexed_in_paths] assms(6)]
    by simp
  also have "\<dots> \<longleftrightarrow> (\<forall>(u, d) \<in> set (indexed bs).
       (bi_path d = bi_path b \<or> ancestor (bi_path b) (bi_path d)) \<and> ancestor (bi_path d) (bi_path c)
       \<longrightarrow> \<not> IsShared d)"
    using indexed_in_paths pathShared_get [OF assms(1)] brick_paths_cases
    by (smt (verit) case_prodD case_prodI2)
  also have "\<dots> \<longleftrightarrow> (\<forall>(u, d) \<in> set (indexed bs).
       ancestor (bi_path b) (bi_path d) \<and> ancestor (bi_path d) (bi_path c) \<longrightarrow> \<not> IsShared d)"
    using unique_pathsD assms(1,2,4) unfolding wf_lattice_def by (smt (verit) case_prodD case_prodI2)
  finally show ?thesis .
qed

text \<open>
  \<open>PartitionBricks\<close>: The key of a group is the slug of one of its members, every
  other member lies below that brick, and the nearest brick above it, if there is
  one, is shared: the key is the topmost brick of its group.
\<close>

theorem PartitionBricks_key:
  assumes "wf_lattice bs" and "(k, ms) \<in> set (Groups (PartitionBricks bs))"
  shows "k \<in> set ms \<and> (\<exists>d. (k, d) \<in> set (indexed bs) \<and>
    (\<forall>(s, b) \<in> set (indexed bs). s \<in> set ms \<longrightarrow> bi_path b = bi_path d \<or> ancestor (bi_path d) (bi_path b)) \<and>
    (case parent_of (brick_paths bs) (bi_path d) of None \<Rightarrow> True
     | Some q \<Rightarrow> (\<exists>(u, e) \<in> set (indexed bs). bi_path e = q \<and> IsShared e)))"
proof -
  from Groups_entry(3) [OF assms] obtain s b
    where sb: "(s, b) \<in> set (indexed bs)" "\<not> IsShared b" and k: "root_slug bs (bi_path b) = k"
    by blast
  from root_slug_in [OF assms(1) indexed_in_paths [OF sb(1)]] obtain d
    where d: "(k, d) \<in> set (indexed bs)"
      and root: "groupRoot (brick_paths bs) (pathShared bs) (bi_path b) = bi_path d"
    unfolding k by blast
  have top: "groupRoot (brick_paths bs) (pathShared bs) (bi_path d) = bi_path d"
    using grp.climb_absorb [OF indexed_in_paths [OF d], of "bi_path b"] grp.climb_chain [of bs "bi_path b"]
    by (simp add: root)
  then have "root_slug bs (bi_path d) = k" and "\<not> IsShared d"
    using pathToSlug_get [OF assms(1) d] pathShared_get [OF assms(1)] d sb
      grp.climb_unmarked [OF indexed_in_paths [OF sb(1)]] root
    by (auto simp: root_slug_def)
  then have "k \<in> set ms"
    using Groups_entry(1) [OF assms] d by blast
  moreover have "bi_path c = bi_path d \<or> ancestor (bi_path d) (bi_path c)"
    if "(t, c) \<in> set (indexed bs)" "t \<in> set ms" for t c
  proof -
    have "root_slug bs (bi_path c) = k"
      using Groups_entry(1) [OF assms] that indexed_slug_inj [OF assms(1) that(1)] by blast
    then have "groupRoot (brick_paths bs) (pathShared bs) (bi_path c) = bi_path d"
      using root_slug_in [OF assms(1) indexed_in_paths [OF that(1)]] d indexed_path_inj [OF assms(1)] by metis
    then show ?thesis
      using grp.climb_chain [of bs "bi_path c"] by (auto simp: unmarked_chain_def)
  qed
  moreover have "case parent_of (brick_paths bs) (bi_path d) of None \<Rightarrow> True
     | Some q \<Rightarrow> (\<exists>(u, e) \<in> set (indexed bs). bi_path e = q \<and> IsShared e)"
  proof (cases "parent_of (brick_paths bs) (bi_path d)")
    case (Some q)
    have "shared_at bs q"
    proof (rule ccontr)
      assume "\<not> shared_at bs q"
      then have "bi_path d = groupRoot (brick_paths bs) (pathShared bs) q"
        using top Some grp.climb_step [of bs "bi_path d"] by simp
      then have "bi_path d = q \<or> ancestor (bi_path d) q"
        using grp.climb_chain [of bs q] by (auto simp: unmarked_chain_def)
      then show False
        using grp.parent_anc [OF Some] path.anc_irrefl path.anc_asym by blast
    qed
    moreover obtain u e where "(u, e) \<in> set (indexed bs)" and "q = bi_path e"
      using grp.parent_node [OF Some] by (rule brick_paths_cases)
    ultimately show ?thesis
      using pathShared_get [OF assms(1), of u e False] by (auto simp: Some)
  qed simp
  ultimately show ?thesis
    using d by blast
qed

text \<open>The result is the same for every order in which the map is iterated.\<close>

lemma groupRoot_cong:
  "get_or False m = get_or False m' \<Longrightarrow> groupRoot paths m p = groupRoot paths m' p"
proof (induction paths m p rule: groupRoot.induct)
  case (1 paths shared current)
  then show ?case
    by (simp add: groupRoot.simps [of paths shared current] groupRoot.simps [of paths m' current] Let_def)
qed

lemma path_index_order:
  assumes "same_map bs bs'" and "wf_lattice bs"
  shows "map_of (foldl (\<lambda>m (slug, b). AList.update (bi_path b) (g slug b) m) [] (indexed bs))
    = map_of (foldl (\<lambda>m (slug, b). AList.update (bi_path b) (g slug b) m) [] (indexed bs'))"
proof -
  have ix: "same_map (indexed bs) (indexed bs')"
    using assms(1) unfolding indexed_def by (rule same_map_filter)
  then have "wf_lattice bs'"
    using assms same_map_set [OF ix] same_map_wf [OF assms(1)]
    by (simp add: wf_lattice_def unique_paths_def)
  moreover have "wf_map (map (\<lambda>(slug, b). (bi_path b, g slug b)) (indexed bs))"
    using indexed_paths_distinct [OF assms(2)] by (simp add: wf_map_def comp_def case_prod_unfold)
  ultimately show ?thesis
    unfolding path_index [OF assms(2)] path_index [OF \<open>wf_lattice bs'\<close>]
    by (intro same_map_of) (simp add: same_map_def same_map_map [OF ix] del: mset_map)
qed

text \<open>
  \<open>PartitionBricks\<close>: The partition does not depend on the order in which Go
  iterates over the brick map: identical inputs give identical plans.
\<close>

theorem PartitionBricks_deterministic:
  assumes "same_map bs bs'" and "wf_lattice bs"
  shows "PartitionBricks bs = PartitionBricks bs'"
proof -
  have paths: "brick_paths bs = brick_paths bs'"
    using assms(1) unfolding brick_paths_def indexed_def by (intro sort_same_map same_map_filter)
  have slug: "get_or z (pathToSlug bs) = get_or z (pathToSlug bs')"
    and shared: "get_or z' (pathShared bs) = get_or z' (pathShared bs')" for z z'
    unfolding get_or_def pathToSlug_def pathShared_def path_index_order [OF assms] by (rule refl)+
  have root: "groupRoot ps (pathShared bs) = groupRoot ps (pathShared bs')" for ps
    using groupRoot_cong [OF shared] by (rule ext)
  have "partition_step bs part p = partition_step bs' part p" for part p
    unfolding partition_step_def slug shared paths root by (rule refl)
  then have "partition_step bs = partition_step bs'"
    by (intro ext)
  then show ?thesis
    by (simp add: PartitionBricks_def paths)
qed

text \<open>
  \<open>suggestSharedCandidates\<close>: The suggestions are groups larger than the threshold,
  largest first with ties by slug; there are at most five, none is left out while
  there is room, and a group left out comes after all that are listed.
\<close>

theorem suggestSharedCandidates_largest:
  defines "big p threshold \<equiv> map (\<lambda>(slug, ms). \<lparr>sc_slug = slug, sc_size = length ms\<rparr>)
    (filter (\<lambda>(slug, ms). length ms > threshold) (Groups p))"
  shows "length (suggestSharedCandidates p threshold) = min 5 (length (big p threshold))
    \<and> sorted (map cand_key (suggestSharedCandidates p threshold))
    \<and> (\<exists>rest. mset (suggestSharedCandidates p threshold) + mset rest = mset (big p threshold)
         \<and> (\<forall>c \<in> set (suggestSharedCandidates p threshold). \<forall>d \<in> set rest. cand_key c \<le> cand_key d))"
proof -
  let ?s = "sort_key cand_key (big p threshold)"
  have eq: "suggestSharedCandidates p threshold = take 5 ?s"
    by (simp add: suggestSharedCandidates_def big_def)
  have "sorted (map cand_key (take 5 ?s @ drop 5 ?s))"
    by simp
  then have order: "sorted (map cand_key (take 5 ?s))"
    "\<forall>c \<in> set (take 5 ?s). \<forall>d \<in> set (drop 5 ?s). cand_key c \<le> cand_key d"
    unfolding map_append sorted_append by auto
  have "mset (take 5 ?s) + mset (drop 5 ?s) = mset (big p threshold)"
    by (metis append_take_drop_id mset_append mset_sort)
  with order show ?thesis
    unfolding eq by auto
qed

section \<open>A sample lattice\<close>

text \<open>A component with a child, a shared brick below it and a component below that one.\<close>

definition sample_brick :: "string \<Rightarrow> string \<Rightarrow> string \<Rightarrow> brick_info" where
  "sample_brick slug p kind =
     \<lparr>bi_path = p, bi_slug = slug, bi_kind = kind, bi_reads = [], bi_shared = None\<rparr>"

definition sample_lattice :: bricks where
  "sample_lattice =
     [(''d'', sample_brick ''d'' ''a/c/d'' ''component''), (''a'', sample_brick ''a'' ''a'' ''component''),
      (''c'', sample_brick ''c'' ''a/c'' ''tenant''), (''b'', sample_brick ''b'' ''a/b'' ''component'')]"

lemmas sample_defs = sample_lattice_def sample_brick_def indexed_def IsShared_def

lemma sample_wf: "wf_lattice sample_lattice"
  by (simp add: wf_lattice_def wf_map_def unique_paths_def sample_defs)

lemma sample_indexed: "indexed sample_lattice = sample_lattice"
  by (simp add: sample_defs)

lemma sample_partition:
  "PartitionBricks sample_lattice = \<lparr>Shared = [''c''], Groups = [(''a'', [''a'', ''b'']), (''d'', [''d''])]\<rparr>"
  by code_simp

theorem PartitionBricks_places_once_witness:
  "mset (Shared (PartitionBricks sample_lattice)) + mset (concat (map snd (Groups (PartitionBricks sample_lattice))))
     = mset (map fst (indexed sample_lattice)) \<and> Shared (PartitionBricks sample_lattice) = [''c'']"
  using PartitionBricks_places_once [OF sample_wf] by (simp add: sample_partition)

theorem PartitionBricks_groups_witness:
  "\<exists>(u, d) \<in> set (indexed sample_lattice).
     unbroken sample_lattice (bi_path d) ''a'' \<and> unbroken sample_lattice (bi_path d) ''a/b''"
  using PartitionBricks_groups [OF sample_wf, of "''a''" "sample_brick ''a'' ''a'' ''component''"
      "''b''" "sample_brick ''b'' ''a/b'' ''component''"]
  by (simp add: sample_partition same_group_def) (simp add: sample_defs)

theorem PartitionBricks_branch_witness:
  "\<not> same_group (PartitionBricks sample_lattice) ''a'' ''d''"
  using PartitionBricks_branch [OF sample_wf, of "''a''" "sample_brick ''a'' ''a'' ''component''"
      "''d''" "sample_brick ''d'' ''a/c/d'' ''component''"]
  by (simp add: sample_defs ancestor_def has_prefix_def)

theorem PartitionBricks_key_witness:
  "(''a'', [''a'', ''b'']) \<in> set (Groups (PartitionBricks sample_lattice)) \<and> ''a'' \<in> set [''a'', ''b'']"
  using PartitionBricks_key [OF sample_wf, of "''a''" "[''a'', ''b'']"] by (simp add: sample_partition)

theorem suggestSharedCandidates_largest_witness:
  "length (suggestSharedCandidates (PartitionBricks sample_lattice) 1) = 1"
  using suggestSharedCandidates_largest [of "PartitionBricks sample_lattice" 1]
  by (simp add: sample_partition)

theorem PartitionBricks_deterministic_witness:
  "PartitionBricks (rev sample_lattice) = \<lparr>Shared = [''c''], Groups = [(''a'', [''a'', ''b'']), (''d'', [''d''])]\<rparr>"
  using PartitionBricks_deterministic [OF _ sample_wf, of "rev sample_lattice"]
  by (simp add: sample_partition same_map_def)

end
