(* ===== verification/Plan.thy ===== *)
theory Plan
  imports Partition
begin

text \<open>
  \<open>lib/dispatch/plan.go\<close>: the set of bricks involved in work on one target. The error
  of \<open>Plan\<close> is the value \<^const>\<open>Inl\<close> of the target that was not found.
\<close>

section \<open>The model\<close>

definition pathOverlaps :: "string \<Rightarrow> string \<Rightarrow> bool" where
  "pathOverlaps a b =
     (if a = '''' \<or> b = '''' then False
      else if a = b then True
      else has_prefix a (b @ ''/'') \<or> has_prefix b (a @ ''/''))"

definition resolveTarget :: "string \<Rightarrow> bricks \<Rightarrow> brick_info option" where
  "resolveTarget key bs =
     (case map_of bs key of
        Some b \<Rightarrow> Some (b\<lparr>bi_slug := key\<rparr>)
      | None \<Rightarrow> map_option (\<lambda>(slug, b). b\<lparr>bi_slug := slug\<rparr>) (find (\<lambda>(slug, b). bi_path b = key) bs))"

text \<open>\<open>involvedSet\<close> is a Go map to the empty struct: its keys, each once.\<close>

definition plan_step :: "brick_info \<Rightarrow> string list \<Rightarrow> string \<times> brick_info \<Rightarrow> string list" where
  "plan_step resolved involved = (\<lambda>(slug, b).
     if slug = '''' then involved
     else if pathOverlaps (bi_path b) (bi_path resolved) then List.insert slug involved
     else involved)"

definition Plan :: "string \<Rightarrow> bricks \<Rightarrow> string + string list" where
  "Plan target bs =
     (case resolveTarget target bs of
        None \<Rightarrow> Inl target
      | Some resolved \<Rightarrow> Inr (sort (foldl (plan_step resolved) [bi_slug resolved] bs)))"

section \<open>Path overlap\<close>

text \<open>The prefix test on strings is the prefix relation on path components.\<close>

lemma pathOverlaps_components:
  assumes "a \<noteq> ''''" and "b \<noteq> ''''"
  shows "pathOverlaps a b \<longleftrightarrow>
    prefix (split_on slash a) (split_on slash b) \<or> prefix (split_on slash b) (split_on slash a)"
  using assms split_on_inj
  by (auto simp: pathOverlaps_def ancestor_def [symmetric] ancestor_split_iff strict_prefix_def)

lemma pathOverlaps_sym: "pathOverlaps a b = pathOverlaps b a"
  by (auto simp: pathOverlaps_def)

lemma pathOverlaps_refl: "pathOverlaps a a \<longleftrightarrow> a \<noteq> ''''"
  by (simp add: pathOverlaps_def)

section \<open>The involved set\<close>

lemma plan_fold:
  "distinct acc \<Longrightarrow>
     set (foldl (plan_step r) acc bs)
       = set acc \<union> {s. \<exists>b. (s, b) \<in> set bs \<and> s \<noteq> '''' \<and> pathOverlaps (bi_path b) (bi_path r)}
     \<and> distinct (foldl (plan_step r) acc bs)"
proof (induction bs arbitrary: acc)
  case (Cons e bs)
  then have "distinct (plan_step r acc e)"
    by (simp add: plan_step_def split: prod.split)
  from Cons.IH [OF this] show ?case
    by (cases e) (auto simp: plan_step_def)
qed simp

lemma resolveTarget_find:
  assumes "wf_map bs" and "resolveTarget key bs = Some r"
  shows "\<exists>b. (bi_slug r, b) \<in> set bs \<and> r = b\<lparr>bi_slug := bi_slug r\<rparr> \<and> (bi_slug r = key \<or> bi_path b = key)"
  using assms
  by (auto simp: resolveTarget_def split: option.splits dest!: find_Some_in map_of_SomeD)

lemma resolveTarget_None:
  "resolveTarget key bs = None \<longleftrightarrow> (\<forall>(slug, b) \<in> set bs. slug \<noteq> key \<and> bi_path b \<noteq> key)"
  using resolveBrick_None [of bs key]
  by (auto simp: resolveTarget_def resolveBrick_def split: option.splits)

lemma resolveTarget_order:
  assumes "same_map bs bs'" and "wf_map bs" and "unique_paths bs"
  shows "resolveTarget key bs = resolveTarget key bs'"
  using find_path_order [OF same_map_set [OF assms(1)] assms(3)] same_map_of [OF assms(1,2)]
  by (simp add: resolveTarget_def split: option.splits)

section \<open>The theorems\<close>

text \<open>
  \<open>Plan\<close>: The plan of a target that is in the lattice, by slug or by path, is the
  sorted list without repetition of the target's own slug and of every brick other
  than the root whose path equals the target's, lies above it or lies below it.
\<close>

theorem Plan_involved:
  assumes "wf_map bs" and "Plan target bs = Inr slugs"
  shows "\<exists>t b. (t, b) \<in> set bs \<and> (t = target \<or> bi_path b = target) \<and> sorted slugs \<and> distinct slugs \<and>
    set slugs = insert t {s. \<exists>c. (s, c) \<in> set bs \<and> s \<noteq> '''' \<and> bi_path b \<noteq> '''' \<and> bi_path c \<noteq> '''' \<and>
      (bi_path c = bi_path b \<or> ancestor (bi_path c) (bi_path b) \<or> ancestor (bi_path b) (bi_path c))}"
proof -
  from assms(2) obtain r where r: "resolveTarget target bs = Some r"
    and slugs: "slugs = sort (foldl (plan_step r) [bi_slug r] bs)"
    by (auto simp: Plan_def split: option.splits)
  from resolveTarget_find [OF assms(1) r] obtain b where b: "(bi_slug r, b) \<in> set bs"
    "bi_slug r = target \<or> bi_path b = target" and "bi_path r = bi_path b"
    by (metis brick_info.select_convs(1) brick_info.surjective brick_info.update_convs(2))
  moreover have "pathOverlaps x y \<longleftrightarrow> y \<noteq> '''' \<and> x \<noteq> '''' \<and> (x = y \<or> ancestor x y \<or> ancestor y x)" for x y
    by (auto simp: pathOverlaps_def ancestor_def)
  ultimately have "set slugs = insert (bi_slug r)
      {s. \<exists>c. (s, c) \<in> set bs \<and> s \<noteq> '''' \<and> bi_path b \<noteq> '''' \<and> bi_path c \<noteq> '''' \<and>
      (bi_path c = bi_path b \<or> ancestor (bi_path c) (bi_path b) \<or> ancestor (bi_path b) (bi_path c))}"
    using plan_fold [of "[bi_slug r]" r bs] by (simp add: slugs)
  moreover have "sorted slugs" "distinct slugs"
    using plan_fold [of "[bi_slug r]" r bs] by (simp_all add: slugs)
  ultimately show ?thesis
    using b by blast
qed

theorem Plan_involved_witness:
  "Plan ''a/c'' sample_lattice = Inr [''a'', ''c'', ''d''] \<and> distinct [''a'', ''c'', ''d'']"
proof -
  have "Plan ''a/c'' sample_lattice = Inr [''a'', ''c'', ''d'']"
    by code_simp
  with Plan_involved [of sample_lattice, OF _ this] sample_wf show ?thesis
    by (auto simp: wf_lattice_def)
qed

text \<open>
  \<open>Plan\<close>: \<open>Plan\<close> fails exactly when no brick has the target as its slug or its path,
  and its answer does not depend on the iteration order of the brick map.
\<close>

theorem Plan_error_and_order:
  assumes "same_map bs bs'" and "wf_map bs" and "unique_paths bs"
  shows "(Plan target bs = Inl target \<longleftrightarrow> (\<forall>(s, b) \<in> set bs. s \<noteq> target \<and> bi_path b \<noteq> target))
    \<and> Plan target bs = Plan target bs'"
proof
  show "Plan target bs = Inl target \<longleftrightarrow> (\<forall>(s, b) \<in> set bs. s \<noteq> target \<and> bi_path b \<noteq> target)"
    using resolveTarget_None [of target bs] by (auto simp: Plan_def split: option.splits)
  have "sort (foldl (plan_step r) [bi_slug r] bs) = sort (foldl (plan_step r) [bi_slug r] bs')" for r
    using plan_fold [of "[bi_slug r]" r bs] plan_fold [of "[bi_slug r]" r bs'] same_map_set [OF assms(1)]
    by (intro sort_set_eq) auto
  then show "Plan target bs = Plan target bs'"
    using resolveTarget_order [OF assms] by (simp add: Plan_def split: option.splits)
qed

theorem Plan_error_and_order_witness:
  "Plan ''zz'' sample_lattice = Inl ''zz'' \<and> Plan ''zz'' (rev sample_lattice) = Inl ''zz''"
proof -
  have "wf_map sample_lattice" "unique_paths sample_lattice"
    using sample_wf by (simp_all add: wf_lattice_def sample_indexed)
  moreover have "same_map sample_lattice (rev sample_lattice)"
    by (simp add: same_map_def)
  ultimately have "Plan ''zz'' sample_lattice = Inl ''zz'' \<longleftrightarrow>
      (\<forall>(s, b) \<in> set sample_lattice. s \<noteq> ''zz'' \<and> bi_path b \<noteq> ''zz'')"
    and "Plan ''zz'' sample_lattice = Plan ''zz'' (rev sample_lattice)"
    using Plan_error_and_order by blast+
  moreover have "\<forall>(s, b) \<in> set sample_lattice. s \<noteq> ''zz'' \<and> bi_path b \<noteq> ''zz''"
    by (simp add: sample_defs)
  ultimately show ?thesis
    by simp
qed

end
