(* ===== verification/BoundedLoop.thy ===== *)
theory BoundedLoop
  imports Main
begin

text \<open>
  The contract of a loop that repeats a pass at most a given number of times: a pass
  ends the loop with a result or hands on a new state, and the exhausted loop has a
  result of its own. The workspace cycle and the per-brick generator cycle are
  instances.
\<close>

primrec iter_pass :: "('s \<Rightarrow> 'r + 's) \<Rightarrow> nat \<Rightarrow> 's \<Rightarrow> 's option" where
  "iter_pass pass 0 s = Some s"
| "iter_pass pass (Suc n) s = (case pass s of Inl r \<Rightarrow> None | Inr s' \<Rightarrow> iter_pass pass n s')"

lemma iter_pass_Suc:
  "iter_pass pass (Suc n) s = Some t \<longleftrightarrow> (\<exists>m. iter_pass pass n s = Some m \<and> pass m = Inr t)"
proof (induction n arbitrary: s)
  case 0
  then show ?case
    by (auto split: sum.splits)
next
  case (Suc n)
  then show ?case
    by (cases "pass s") simp_all
qed

lemma iter_pass_invariant:
  assumes "iter_pass pass n s = Some t" and "P s" and "\<And>s s'. P s \<Longrightarrow> pass s = Inr s' \<Longrightarrow> P s'"
  shows "P t"
  using assms(1,2) by (induction n arbitrary: s) (auto split: sum.splits intro: assms(3))

locale bounded_loop =
  fixes loop :: "nat \<Rightarrow> 's \<Rightarrow> 'r" and pass :: "'s \<Rightarrow> 'r + 's" and stop :: "'s \<Rightarrow> 'r"
  assumes loop_0: "loop 0 s = stop s"
    and loop_Suc: "loop (Suc n) s = (case pass s of Inl r \<Rightarrow> r | Inr s' \<Rightarrow> loop n s')"
begin

lemma loop_exit: "k < n \<Longrightarrow> iter_pass pass k s = Some t \<Longrightarrow> pass t = Inl r \<Longrightarrow> loop n s = r"
proof (induction k arbitrary: n s)
  case 0
  then show ?case
    by (cases n) (simp_all add: loop_Suc)
next
  case (Suc k)
  then obtain m s' where "n = Suc m" "pass s = Inr s'" "iter_pass pass k s' = Some t"
    by (cases n) (auto split: sum.splits)
  with Suc show ?case
    by (simp add: loop_Suc)
qed

lemma loop_exhausted: "iter_pass pass n s = Some t \<Longrightarrow> loop n s = stop t"
  by (induction n arbitrary: s) (auto simp: loop_0 loop_Suc split: sum.splits)

lemma loop_cases:
  obtains (exit) k t where "k < n" "iter_pass pass k s = Some t" "pass t = Inl (loop n s)"
    | (exhausted) t where "iter_pass pass n s = Some t" "loop n s = stop t"
proof (induction n arbitrary: s thesis)
  case 0
  then show ?case
    by (simp add: loop_0)
next
  case (Suc n)
  show ?case
  proof (cases "pass s")
    case (Inl r)
    then show ?thesis
      using Suc.prems(1) [of 0 s] by (simp add: loop_Suc)
  next
    case (Inr s')
    show ?thesis
    proof (rule Suc.IH [of s'])
      fix k t
      assume "k < n" "iter_pass pass k s' = Some t" "pass t = Inl (loop n s')"
      with Inr show thesis
        using Suc.prems(1) [of "Suc k" t] by (simp add: loop_Suc)
    next
      fix t
      assume "iter_pass pass n s' = Some t" "loop n s' = stop t"
      with Inr show thesis
        using Suc.prems(2) [of t] by (simp add: loop_Suc)
    qed
  qed
qed

text \<open>A loop that exits keeps its result under a larger bound.\<close>

lemma loop_more: "k < n \<Longrightarrow> iter_pass pass k s = Some t \<Longrightarrow> pass t = Inl r \<Longrightarrow> n \<le> m \<Longrightarrow> loop m s = loop n s"
  using loop_exit less_le_trans by metis

end

end
