(* ===== verification/HatchCycle.thy ===== *)
theory HatchCycle
  imports GoPath GoFmt BoundedLoop
begin

text \<open>
  \<open>lib/hatch/hatch.go\<close>: the workspace cycle, which repeats one pass of generation, build
  and sync until a pass changes no tracked file.

  The world \<open>'w\<close> the pass works on (the file system and the git index) is a parameter;
  a \<open>hatch_env\<close> holds the calls \<open>runCycle\<close> makes on it: the generator pipeline with its
  captured output, the lattice writer, the build and sync step, \<open>git add\<close> and
  \<open>git ls-files\<close>, modification times, \<open>gen.WriteIfChanged\<close> and the two validators. A
  \<open>he_init\<close> is the error of \<open>NewGenContext\<close>, if it fails. A
  call that can fail returns the error as an option beside the new world. Messages
  printed to the terminal are not part of the model.
\<close>

section \<open>The bound\<close>

definition MaxCycleIterations :: int where
  "MaxCycleIterations = 5"

definition maxCycleIterationsCeiling :: int where
  "maxCycleIterationsCeiling = 50"

text \<open>The argument is the value of \<open>DEFN_HATCH_MAX_ITERATIONS\<close>, empty when unset.\<close>

definition resolveMaxCycleIterations :: "string \<Rightarrow> int" where
  "resolveMaxCycleIterations v =
     (if v = '''' then MaxCycleIterations
      else case Atoi v of
        None \<Rightarrow> MaxCycleIterations
      | Some n \<Rightarrow> if n < 1 \<or> n > maxCycleIterationsCeiling then MaxCycleIterations else n)"

section \<open>Reading the output of the steps\<close>

definition formatChangedFiles :: "string list \<Rightarrow> nat \<Rightarrow> string" where
  "formatChangedFiles files maxShow =
     concat (map (\<lambda>f. ''  - '' @ f @ [newline]) (take maxShow files))
     @ (if length files > maxShow then ''  ... and '' @ itoa (length files - maxShow) @ '' more'' @ [newline] else [])"

text \<open>\<open>\s\<close> of a Go regular expression.\<close>

definition re_space :: "char \<Rightarrow> bool" where
  "re_space c \<longleftrightarrow> c \<in> {CHR '' '', CHR 0x09, CHR 0x0A, CHR 0x0C, CHR 0x0D}"

text \<open>
  The first group of \<open>^. generated ([^\s]+?)/?\s\<close> on a line: after one rune and the
  word, the shortest run of non-space bytes that an optional slash and a space follow,
  that is the whole run without one final slash.
\<close>

definition generated_match :: "string \<Rightarrow> string option" where
  "generated_match line =
     (case line of [] \<Rightarrow> None
      | _ \<Rightarrow> let rest = drop (rune_width line) line in
          if \<not> has_prefix rest '' generated '' then None
          else let tail = drop 11 rest;
                   word = takeWhile (\<lambda>c. \<not> re_space c) tail
               in if word = [] \<or> length word = length tail then None
                  else Some (if length word \<ge> 2 \<and> last word = slash then butlast word else word))"

text \<open>The first group of \<open>^. synced: (.+)$\<close> on a line.\<close>

definition synced_match :: "string \<Rightarrow> string option" where
  "synced_match line =
     (case line of [] \<Rightarrow> None
      | _ \<Rightarrow> let rest = drop (rune_width line) line in
          if has_prefix rest '' synced: '' \<and> length rest > 9 then Some (drop 9 rest) else None)"

definition parseLines :: "string \<Rightarrow> (string \<Rightarrow> string option) \<Rightarrow> string list" where
  "parseLines output re = filter (\<lambda>m. m \<noteq> '''') (List.map_filter re (split_on newline output))"

definition countPrefix :: "string \<Rightarrow> string \<Rightarrow> nat" where
  "countPrefix output p = length (filter (\<lambda>line. has_prefix line p) (split_on newline output))"

section \<open>Modification times\<close>

record 'w hatch_env =
  he_workdir :: string
  he_init :: "string option"
  he_gen :: "'w \<Rightarrow> 'w \<times> string \<times> string option"
  he_lattice :: "'w \<Rightarrow> 'w \<times> string option"
  he_sync :: "bool \<Rightarrow> 'w \<Rightarrow> 'w \<times> string \<times> string option"
  he_git_add :: "'w \<Rightarrow> 'w \<times> string option"
  he_ls_files :: "'w \<Rightarrow> string option"
  he_mtime :: "'w \<Rightarrow> string \<Rightarrow> int option"
  he_write :: "string \<Rightarrow> string \<Rightarrow> 'w \<Rightarrow> 'w \<times> string option"
  he_check_images :: "'w \<Rightarrow> string option"
  he_check_bazel :: "'w \<Rightarrow> string option"

definition file_mtime :: "'w hatch_env \<Rightarrow> 'w \<Rightarrow> string \<Rightarrow> int option" where
  "file_mtime env w f = he_mtime env w (fp_join [he_workdir env, f])"

definition snapshotMtimes :: "'w hatch_env \<Rightarrow> 'w \<Rightarrow> (string, int) gomap option" where
  "snapshotMtimes env w =
     map_option (\<lambda>out. foldl (\<lambda>m f. case file_mtime env w f of None \<Rightarrow> m | Some t \<Rightarrow> AList.update f t m)
                         [] (output_lines out))
       (he_ls_files env w)"

definition mtimeChanges :: "'w hatch_env \<Rightarrow> 'w \<Rightarrow> (string, int) gomap option \<Rightarrow> string list" where
  "mtimeChanges env w before =
     (case (before, he_ls_files env w) of
        (Some pre, Some out) \<Rightarrow>
          filter (\<lambda>f. case file_mtime env w f of
                        None \<Rightarrow> False
                      | Some post \<Rightarrow> (case map_of pre f of None \<Rightarrow> True | Some t \<Rightarrow> post > t))
            (output_lines out)
      | _ \<Rightarrow> [])"

section \<open>One pass\<close>

datatype hatch_error =
    InitErr string | GenErr string | LatticeErr string | SyncErr string | GitAddErr string
  | WriteGenFilesErr string | WriteSyncFilesErr string | CheckImagesErr string | CheckBazelErr string
  | NotIdempotent int "string list"

text \<open>
  The validators only run with tests; both run (in parallel, they do not change the
  world) and the images error is reported first.
\<close>

definition run_validators :: "'w hatch_env \<Rightarrow> bool \<Rightarrow> 'w \<Rightarrow> hatch_error option" where
  "run_validators env withTests w =
     (if \<not> withTests then None
      else case he_check_images env w of
        Some e \<Rightarrow> Some (CheckImagesErr e)
      | None \<Rightarrow> map_option CheckBazelErr (he_check_bazel env w))"

text \<open>The two tracking files, written after the outputs were staged.\<close>

definition tracking_text :: "string list \<Rightarrow> string" where
  "tracking_text ls = join [newline] (sort ls) @ [newline]"

definition write_tracking :: "'w hatch_env \<Rightarrow> string list \<Rightarrow> string list \<Rightarrow> 'w \<Rightarrow> 'w \<times> hatch_error option" where
  "write_tracking env genLines syncLines w =
     (case he_write env (fp_join [he_workdir env, ''kernel/spec/gen-files.txt'']) (tracking_text genLines) w of
        (w, Some e) \<Rightarrow> (w, Some (WriteGenFilesErr e))
      | (w, None) \<Rightarrow>
          (case he_write env (fp_join [he_workdir env, ''kernel/spec/sync-files.txt'']) (tracking_text syncLines) w of
             (w, Some e) \<Rightarrow> (w, Some (WriteSyncFilesErr e))
           | (w, None) \<Rightarrow> (w, None)))"

definition runCycle :: "'w hatch_env \<Rightarrow> bool \<Rightarrow> 'w \<Rightarrow> 'w \<times> (hatch_error + string list)" where
  "runCycle env withTests w0 =
     (let before = snapshotMtimes env w0 in
      case he_gen env w0 of
        (w, _, Some e) \<Rightarrow> (w, Inl (GenErr e))
      | (w, genOut, None) \<Rightarrow>
      (case he_lattice env w of
        (w, Some e) \<Rightarrow> (w, Inl (LatticeErr e))
      | (w, None) \<Rightarrow>
      (case he_sync env withTests w of
        (w, _, Some e) \<Rightarrow> (w, Inl (SyncErr e))
      | (w, syncOut, None) \<Rightarrow>
      (case he_git_add env w of
        (w, Some e) \<Rightarrow> (w, Inl (GitAddErr e))
      | (w, None) \<Rightarrow>
      (case write_tracking env (parseLines genOut generated_match) (parseLines syncOut synced_match) w of
        (w, Some e) \<Rightarrow> (w, Inl e)
      | (w, None) \<Rightarrow>
        let changed = mtimeChanges env w before in
        case run_validators env withTests w of
          Some e \<Rightarrow> (w, Inl e)
        | None \<Rightarrow> (w, Inr changed))))))"

section \<open>The loop\<close>

primrec cycle_loop :: "'w hatch_env \<Rightarrow> int \<Rightarrow> nat \<Rightarrow> 'w \<times> string list \<Rightarrow> 'w \<times> (hatch_error + unit)" where
  "cycle_loop env maxIters 0 s = (fst s, Inl (NotIdempotent maxIters (snd s)))"
| "cycle_loop env maxIters (Suc n) s =
     (case runCycle env False (fst s) of
        (w, Inl e) \<Rightarrow> (w, Inl e)
      | (w, Inr changed) \<Rightarrow>
          if changed = [] then (w, Inr ()) else cycle_loop env maxIters n (w, changed))"

definition Cycle :: "'w hatch_env \<Rightarrow> string \<Rightarrow> 'w \<Rightarrow> 'w \<times> (hatch_error + unit)" where
  "Cycle env max_env w =
     (case he_init env of
        Some e \<Rightarrow> (w, Inl (InitErr e))
      | None \<Rightarrow> let maxIters = resolveMaxCycleIterations max_env in cycle_loop env maxIters (nat maxIters) (w, []))"

definition CycleOnce :: "'w hatch_env \<Rightarrow> 'w \<Rightarrow> 'w \<times> (hatch_error + unit)" where
  "CycleOnce env w =
     (case he_init env of
        Some e \<Rightarrow> (w, Inl (InitErr e))
      | None \<Rightarrow> (case runCycle env False w of (w, Inl e) \<Rightarrow> (w, Inl e) | (w, Inr _) \<Rightarrow> (w, Inr ())))"

definition CycleAndValidate :: "'w hatch_env \<Rightarrow> 'w \<Rightarrow> 'w \<times> hatch_error option" where
  "CycleAndValidate env w =
     (case he_init env of
        Some e \<Rightarrow> (w, Some (InitErr e))
      | None \<Rightarrow> (case runCycle env True w of (w, Inl e) \<Rightarrow> (w, Some e) | (w, Inr _) \<Rightarrow> (w, None)))"

text \<open>The message of the error \<open>NotIdempotent\<close>.\<close>

definition not_idempotent_message :: "int \<Rightarrow> string list \<Rightarrow> string" where
  "not_idempotent_message maxIters changed =
     ''hatch did not reach idempotence in '' @ itoa (nat maxIters) @ '' iterations (last pass: ''
     @ itoa (length changed) @ '' files changed)'' @ [newline] @ formatChangedFiles changed 10"

section \<open>The bound and the lists\<close>

text \<open>
  \<open>resolveMaxCycleIterations\<close>: The bound is always between 1 and 50: it is the value
  of the variable when that reads as a decimal number in this range, and 5 otherwise.
  In particular the printed form of every number in the range is accepted.
\<close>

theorem resolveMaxCycleIterations_bounds:
  "1 \<le> resolveMaxCycleIterations v \<and> resolveMaxCycleIterations v \<le> maxCycleIterationsCeiling
   \<and> (resolveMaxCycleIterations v \<noteq> MaxCycleIterations \<longrightarrow> Atoi v = Some (resolveMaxCycleIterations v))
   \<and> (\<forall>n \<in> {1..50}. resolveMaxCycleIterations (itoa n) = int n)"
proof -
  have "itoa n \<noteq> ''''" for n
    using itoa_digits by simp
  then show ?thesis
    by (auto simp: resolveMaxCycleIterations_def maxCycleIterationsCeiling_def MaxCycleIterations_def Atoi_itoa
        split: option.splits)
qed

theorem resolveMaxCycleIterations_bounds_witness:
  "resolveMaxCycleIterations (itoa 7) = 7 \<and> resolveMaxCycleIterations ''51'' = 5"
proof
  show "resolveMaxCycleIterations (itoa 7) = 7"
    using resolveMaxCycleIterations_bounds by simp
  show "resolveMaxCycleIterations ''51'' = 5"
    by code_simp
qed

lemma resolveMaxCycleIterations_pos: "0 < resolveMaxCycleIterations v"
  by (auto simp: resolveMaxCycleIterations_def MaxCycleIterations_def split: option.splits)

text \<open>What a pass that reports no change has seen.\<close>

lemma snapshot_fold:
  "map_of (foldl (\<lambda>m f. case g f of None \<Rightarrow> m | Some t \<Rightarrow> AList.update f t m) m fs) f
    = (if f \<in> set fs \<and> g f \<noteq> None then g f else map_of m f)"
  by (induction fs arbitrary: m) (auto simp: update_conv' split: option.splits)

lemma snapshotMtimes_map_of:
  "snapshotMtimes env w = Some pre \<Longrightarrow> he_ls_files env w = Some out \<Longrightarrow>
     map_of pre f = (if f \<in> set (output_lines out) then file_mtime env w f else None)"
  by (auto simp: snapshotMtimes_def snapshot_fold)

text \<open>
  \<open>snapshotMtimes\<close>, \<open>mtimeChanges\<close>: Between two worlds in which \<open>git ls-files\<close>
  succeeds, the reported files are, in the order git lists them, exactly the files that
  are tracked and present afterwards and were untracked, absent or older before. A file
  that is no longer tracked or present is never reported.
\<close>

theorem mtimeChanges_exact:
  assumes "he_ls_files env w = Some out" and "he_ls_files env w' = Some out'"
  shows "mtimeChanges env w' (snapshotMtimes env w) =
    filter (\<lambda>f. case file_mtime env w' f of None \<Rightarrow> False
      | Some post \<Rightarrow> f \<notin> set (output_lines out) \<or>
          (case file_mtime env w f of None \<Rightarrow> True | Some pre \<Rightarrow> pre < post)) (output_lines out')"
proof -
  from assms(1) obtain pre where pre: "snapshotMtimes env w = Some pre"
    by (simp add: snapshotMtimes_def)
  show ?thesis
    unfolding pre mtimeChanges_def assms(2) prod.case option.case snapshotMtimes_map_of [OF pre assms(1)]
    by (intro filter_cong) (auto split: option.splits)
qed

section \<open>The cycle\<close>

definition cycle_pass :: "'w hatch_env \<Rightarrow> 'w \<times> string list \<Rightarrow>
    ('w \<times> (hatch_error + unit)) + ('w \<times> string list)" where
  "cycle_pass env s =
     (case runCycle env False (fst s) of
        (w, Inl e) \<Rightarrow> Inl (w, Inl e)
      | (w, Inr changed) \<Rightarrow> if changed = [] then Inl (w, Inr ()) else Inr (w, changed))"

interpretation cyc: bounded_loop "cycle_loop env maxIters" "cycle_pass env"
  "\<lambda>s. (fst s, Inl (NotIdempotent maxIters (snd s)))"
  for env :: "'w hatch_env" and maxIters :: int
  by unfold_locales (auto simp: cycle_pass_def split: prod.splits sum.splits)

lemma cycle_pass_exit:
  "cycle_pass env s = Inl (w, Inr ()) \<longleftrightarrow> runCycle env False (fst s) = (w, Inr [])"
  "cycle_pass env s = Inl (w, Inl e) \<longleftrightarrow> runCycle env False (fst s) = (w, Inl e)"
  by (auto simp: cycle_pass_def split: prod.splits sum.splits if_splits)

lemma cycle_pass_continue:
  "cycle_pass env s = Inr t \<longleftrightarrow> runCycle env False (fst s) = (fst t, Inr (snd t)) \<and> snd t \<noteq> []"
  by (cases t) (auto simp: cycle_pass_def split: prod.splits sum.splits if_splits)

lemma runCycle_not_idempotent: "runCycle env tests w \<noteq> (w', Inl (NotIdempotent n ch))"
  by (auto simp: runCycle_def write_tracking_def run_validators_def Let_def
      split: prod.splits option.splits if_splits)

lemma Cycle_ok_iff:
  "Cycle env v w = (w', Inr ()) \<longleftrightarrow> he_init env = None \<and>
     (\<exists>k s. int k < resolveMaxCycleIterations v \<and> iter_pass (cycle_pass env) k (w, []) = Some s
        \<and> runCycle env False (fst s) = (w', Inr []))"
proof (cases "he_init env")
  case None
  let ?m = "resolveMaxCycleIterations v"
  have "cycle_loop env ?m (nat ?m) (w, []) = (w', Inr ()) \<longleftrightarrow>
      (\<exists>k s. k < nat ?m \<and> iter_pass (cycle_pass env) k (w, []) = Some s \<and> cycle_pass env s = Inl (w', Inr ()))"
  proof
    assume eq: "cycle_loop env ?m (nat ?m) (w, []) = (w', Inr ())"
    show "\<exists>k s. k < nat ?m \<and> iter_pass (cycle_pass env) k (w, []) = Some s \<and> cycle_pass env s = Inl (w', Inr ())"
      by (rule cyc.loop_cases [of "nat ?m" env "(w, [])" ?m]) (auto simp: eq)
  qed (blast intro: cyc.loop_exit)
  then show ?thesis
    by (simp add: Cycle_def None cycle_pass_exit zless_nat_eq_int_zless Let_def)
qed (simp add: Cycle_def)

text \<open>
  C22 (\<open>Cycle\<close>). \<open>Cycle\<close> always ends. It succeeds exactly when, within the bound, a pass
  reports no changed file after earlier passes that all succeeded and changed
  something; the workspace is then as that last pass left it.
\<close>

theorem Cycle_succeeds_iff:
  "Cycle env v w = (w', Inr ()) \<longleftrightarrow> he_init env = None \<and>
     (\<exists>k s. int k < resolveMaxCycleIterations v \<and> iter_pass (cycle_pass env) k (w, []) = Some s
        \<and> runCycle env False (fst s) = (w', Inr []))"
  by (rule Cycle_ok_iff)

text \<open>
  \<open>Cycle\<close>: The error of non-convergence is returned exactly when every one of the
  allowed passes succeeded and changed something, and it carries the files the last
  pass changed, of which there is at least one.
\<close>

theorem Cycle_not_idempotent_iff:
  "Cycle env v w = (w', Inl (NotIdempotent n changed)) \<longleftrightarrow> he_init env = None \<and>
     n = resolveMaxCycleIterations v \<and> changed \<noteq> [] \<and>
     iter_pass (cycle_pass env) (nat n) (w, []) = Some (w', changed)"
proof (cases "he_init env")
  case None
  let ?m = "resolveMaxCycleIterations v"
  have ne: "snd t \<noteq> []" if "iter_pass (cycle_pass env) (nat ?m) (w, []) = Some t" for t
  proof -
    obtain k where "nat ?m = Suc k"
      using resolveMaxCycleIterations_pos [of v] by (cases "nat ?m") auto
    with that have "\<exists>m. cycle_pass env m = Inr t"
      using iter_pass_Suc [of "cycle_pass env" k "(w, [])" t] by auto
    then show ?thesis
      by (auto simp: cycle_pass_continue)
  qed
  have "cycle_loop env ?m (nat ?m) (w, []) = (w', Inl (NotIdempotent n changed)) \<longleftrightarrow>
      n = ?m \<and> iter_pass (cycle_pass env) (nat ?m) (w, []) = Some (w', changed)"
  proof
    assume eq: "cycle_loop env ?m (nat ?m) (w, []) = (w', Inl (NotIdempotent n changed))"
    show "n = ?m \<and> iter_pass (cycle_pass env) (nat ?m) (w, []) = Some (w', changed)"
      by (rule cyc.loop_cases [of "nat ?m" env "(w, [])" ?m])
        (auto simp: eq cycle_pass_exit runCycle_not_idempotent)
  qed (use cyc.loop_exhausted in fastforce)
  with ne show ?thesis
    by (auto simp: Cycle_def None Let_def)
qed (simp add: Cycle_def)

text \<open>
  \<open>runCycle\<close>, \<open>Cycle\<close>: When \<open>git ls-files\<close> fails, every pass that does not fail itself
  reports no change, and \<open>Cycle\<close> succeeds after one pass whatever that pass wrote: the
  failure is taken for convergence.
\<close>

theorem Cycle_unreadable_index:
  assumes "\<forall>w. he_ls_files env w = None" and "he_init env = None"
    and "runCycle env False w = (w', Inr changed)"
  shows "changed = [] \<and> Cycle env v w = (w', Inr ())"
proof
  show ch: "changed = []"
    using assms(1,3)
    by (auto simp: runCycle_def snapshotMtimes_def mtimeChanges_def Let_def split: prod.splits option.splits if_splits)
  have "\<exists>k s. int k < resolveMaxCycleIterations v \<and> iter_pass (cycle_pass env) k (w, []) = Some s
      \<and> runCycle env False (fst s) = (w', Inr [])"
    using assms(3) ch resolveMaxCycleIterations_pos [of v] by (intro exI [of _ 0] exI [of _ "(w, [])"]) simp
  with assms(2) show "Cycle env v w = (w', Inr ())"
    unfolding Cycle_ok_iff by blast
qed

section \<open>A sample workspace\<close>

text \<open>
  The world is the number of passes that still rewrite the tracked file \<open>a\<close>; each
  rewrite advances its modification time.
\<close>

definition sample_env :: "string option \<Rightarrow> nat hatch_env" where
  "sample_env ls =
     \<lparr>he_workdir = ''/m'', he_init = None, he_gen = (\<lambda>w. (w - 1, '''', None)), he_lattice = (\<lambda>w. (w, None)),
      he_sync = (\<lambda>_ w. (w, '''', None)), he_git_add = (\<lambda>w. (w, None)), he_ls_files = (\<lambda>w. ls),
      he_mtime = (\<lambda>w f. if f = ''/m/a'' then Some (100 - int w) else None), he_write = (\<lambda>_ _ w. (w, None)),
      he_check_images = (\<lambda>_. None), he_check_bazel = (\<lambda>_. None)\<rparr>"

theorem mtimeChanges_exact_witness:
  "mtimeChanges (sample_env (Some ''a'')) 0 (snapshotMtimes (sample_env (Some ''a'')) 1) = [''a'']"
proof -
  have "he_ls_files (sample_env (Some ''a'')) w = Some ''a''" for w
    by (simp add: sample_env_def)
  note exact = mtimeChanges_exact [OF this this, of 0 1]
  have lines: "output_lines ''a'' = [''a'']"
    by code_simp
  have mtimes: "file_mtime (sample_env (Some ''a'')) 0 ''a'' = Some 100"
    "file_mtime (sample_env (Some ''a'')) 1 ''a'' = Some 99"
    by code_simp+
  show ?thesis
    unfolding exact lines using mtimes by simp
qed

theorem Cycle_unreadable_index_witness:
  "runCycle (sample_env None) False 2 = (1, Inr []) \<and> Cycle (sample_env None) '''' 2 = (1, Inr ())"
proof (intro conjI)
  show run: "runCycle (sample_env None) False 2 = (1, Inr [])"
    by (simp add: runCycle_def sample_env_def write_tracking_def mtimeChanges_def snapshotMtimes_def
        run_validators_def)
  have "\<forall>w. he_ls_files (sample_env None) w = None" and "he_init (sample_env None) = None"
    by (simp_all add: sample_env_def)
  from Cycle_unreadable_index [OF this run] show "Cycle (sample_env None) '''' 2 = (1, Inr ())"
    by simp
qed

end
