(* ===== verification/GoMatch.thy ===== *)
theory GoMatch
  imports GoPath
begin

text \<open>
  \<open>filepath.Match\<close> (Unix rules), function by function: \<open>scanChunk\<close>, \<open>getEsc\<close>, the
  loop over a character class, \<open>matchChunk\<close> and the driver. \<^const>\<open>None\<close> is
  \<open>ErrBadPattern\<close>. The staleness check of \<open>brickreads\<close> calls it on declared reads.
\<close>

section \<open>The value of a rune\<close>

definition rune_error :: nat where
  "rune_error = 0xFFFD"

definition rune_value :: "string \<Rightarrow> nat" where
  "rune_value s =
     (case map byte (take (rune_width s) s) of
        [] \<Rightarrow> rune_error
      | [b0] \<Rightarrow> if b0 < 0x80 then b0 else rune_error
      | [b0, b1] \<Rightarrow> (b0 - 0xC0) * 0x40 + (b1 - 0x80)
      | [b0, b1, b2] \<Rightarrow> ((b0 - 0xE0) * 0x40 + (b1 - 0x80)) * 0x40 + (b2 - 0x80)
      | b0 # b1 # b2 # b3 # _ \<Rightarrow>
          (((b0 - 0xF0) * 0x40 + (b1 - 0x80)) * 0x40 + (b2 - 0x80)) * 0x40 + (b3 - 0x80))"

section \<open>Scanning a chunk\<close>

fun scan_len :: "bool \<Rightarrow> string \<Rightarrow> nat" where
  "scan_len inrange [] = 0"
| "scan_len inrange (c # cs) =
     (if c = CHR 0x5C then (case cs of [] \<Rightarrow> 1 | _ # cs' \<Rightarrow> 2 + scan_len inrange cs')
      else if c = CHR ''['' then Suc (scan_len True cs)
      else if c = CHR '']'' then Suc (scan_len False cs)
      else if c = CHR ''*'' \<and> \<not> inrange then 0
      else Suc (scan_len inrange cs))"

definition scan_chunk :: "string \<Rightarrow> bool \<times> string \<times> string" where
  "scan_chunk pattern =
     (let star = (takeWhile (\<lambda>c. c = CHR ''*'') pattern \<noteq> []);
          p = dropWhile (\<lambda>c. c = CHR ''*'') pattern;
          i = scan_len False p
      in (star, take i p, drop i p))"

section \<open>Matching a chunk\<close>

definition get_esc :: "string \<Rightarrow> (nat \<times> string) option" where
  "get_esc chunk =
     (if chunk = [] \<or> hd chunk = CHR ''-'' \<or> hd chunk = CHR '']'' then None
      else let chunk' = (if hd chunk = CHR 0x5C then tl chunk else chunk) in
        if chunk' = [] then None
        else let n = rune_width chunk'; r = rune_value chunk'; rest = drop n chunk' in
          if (r = rune_error \<and> n = 1) \<or> rest = [] then None else Some (r, rest))"

lemma get_esc_shorter:
  assumes "get_esc chunk = Some (r, rest)"
  shows "length rest < length chunk"
proof -
  define chunk' where "chunk' = (if hd chunk = CHR 0x5C then tl chunk else chunk)"
  have "chunk' \<noteq> []" and "rest = drop (rune_width chunk') chunk'"
    using assms by (auto simp: get_esc_def Let_def chunk'_def split: if_splits)
  then have "length rest < length chunk'"
    by simp
  also have "length chunk' \<le> length chunk"
    by (simp add: chunk'_def)
  finally show ?thesis .
qed

text \<open>The loop over the ranges of a class; the rune is irrelevant once the match has failed.\<close>

function class_ranges :: "nat \<Rightarrow> bool \<Rightarrow> nat \<Rightarrow> string \<Rightarrow> (bool \<times> string) option" where
  "class_ranges r found nrange chunk =
     (if chunk \<noteq> [] \<and> hd chunk = CHR '']'' \<and> 0 < nrange then Some (found, tl chunk)
      else case get_esc chunk of
        None \<Rightarrow> None
      | Some (lo, rest) \<Rightarrow>
          (case (if hd rest = CHR ''-'' then get_esc (tl rest) else Some (lo, rest)) of
             None \<Rightarrow> None
           | Some (hi, rest') \<Rightarrow>
               if length rest' < length chunk
               then class_ranges r (found \<or> (lo \<le> r \<and> r \<le> hi)) (Suc nrange) rest'
               else None))"
  by pat_completeness auto
termination
  by (relation "measure (\<lambda>(r, found, nrange, chunk). length chunk)") auto

declare class_ranges.simps [simp del]

lemma class_ranges_shorter:
  "class_ranges r found nrange chunk = Some (m, rest) \<Longrightarrow> length rest < length chunk"
proof (induction r found nrange chunk rule: class_ranges.induct)
  case (1 r found nrange chunk)
  show ?case
  proof (cases "chunk \<noteq> [] \<and> hd chunk = CHR '']'' \<and> 0 < nrange")
    case True
    with "1.prems" show ?thesis
      by (auto simp: class_ranges.simps [of r found nrange chunk])
  next
    case False
    with "1.prems" obtain lo rest1 hi rest2 where
      e: "get_esc chunk = Some (lo, rest1)"
         "(if hd rest1 = CHR ''-'' then get_esc (tl rest1) else Some (lo, rest1)) = Some (hi, rest2)"
      and l: "length rest2 < length chunk"
      and c: "class_ranges r (found \<or> (lo \<le> r \<and> r \<le> hi)) (Suc nrange) rest2 = Some (m, rest)"
      by (auto simp: class_ranges.simps [of r found nrange chunk] split: option.splits if_splits)
    with "1.IH" [OF False e(1) refl e(2) refl l c] show ?thesis
      by simp
  qed
qed

text \<open>
  \<open>matchChunk\<close>: after a mismatch it keeps reading the chunk to check that the pattern
  is well formed. The result is the rest of the name, or \<open>Some None\<close> for no match.
\<close>

function match_chunk :: "bool \<Rightarrow> string \<Rightarrow> string \<Rightarrow> string option option" where
  "match_chunk failed0 chunk s =
     (if chunk = [] then (if failed0 then Some None else Some (Some s))
      else let failed = (failed0 \<or> s = []) in
        if hd chunk = CHR ''['' then
          let r = (if failed then 0 else rune_value s);
              s' = (if failed then s else drop (rune_width s) s);
              c1 = tl chunk;
              negated = (c1 \<noteq> [] \<and> hd c1 = CHR ''^'');
              c2 = (if negated then tl c1 else c1)
          in case class_ranges r False 0 c2 of
               None \<Rightarrow> None
             | Some (m, rest) \<Rightarrow> match_chunk (failed \<or> m = negated) rest s'
        else if hd chunk = CHR ''?'' then
          (if failed then match_chunk True (tl chunk) s
           else match_chunk (hd s = slash) (tl chunk) (drop (rune_width s) s))
        else
          let c1 = (if hd chunk = CHR 0x5C then tl chunk else chunk) in
          if c1 = [] then None
          else if failed then match_chunk True (tl c1) s
          else match_chunk (hd c1 \<noteq> hd s) (tl c1) (tl s))"
  by pat_completeness auto
termination
proof (relation "measure (\<lambda>(failed, chunk, s). length chunk)", goal_cases)
  case (2 failed0 chunk s x r s' c1 negated c2 p m rest)
  then have "length rest < length c2"
    by (metis class_ranges_shorter)
  also have "length c2 \<le> length (tl chunk)"
    using 2 by auto
  also have "length (tl chunk) < length chunk"
    using 2 by (cases chunk) auto
  finally show ?case by simp
qed (auto split: if_splits simp: neq_Nil_conv)

declare match_chunk.simps [simp del]

section \<open>Match\<close>

text \<open>The first position after a skipped byte where the chunk matches (\<open>*\<close> cannot skip a slash).\<close>

fun star_search :: "bool \<Rightarrow> string \<Rightarrow> string \<Rightarrow> string option option" where
  "star_search final chunk [] = Some None"
| "star_search final chunk (c # name) =
     (if c = slash then Some None
      else case match_chunk False chunk name of
        None \<Rightarrow> None
      | Some (Some t) \<Rightarrow> if final \<and> t \<noteq> [] then star_search final chunk name else Some (Some t)
      | Some None \<Rightarrow> star_search final chunk name)"

lemma scan_len_progress:
  "p \<noteq> [] \<Longrightarrow> hd p \<noteq> CHR ''*'' \<Longrightarrow> 0 < scan_len False p"
  by (cases p) (auto split: list.splits)

lemma scan_chunk_shorter:
  assumes "pattern \<noteq> []" and "scan_chunk pattern = (star, chunk, rest)"
  shows "length rest < length pattern"
proof -
  let ?p = "dropWhile (\<lambda>c. c = CHR ''*'') pattern"
  have rest: "rest = drop (scan_len False ?p) ?p"
    using assms(2) by (simp add: scan_chunk_def Let_def)
  show ?thesis
  proof (cases "hd pattern = CHR ''*''")
    case True
    then have "length ?p < length pattern"
      using assms(1) by (cases pattern) (auto simp: length_dropWhile_le less_Suc_eq_le)
    then show ?thesis
      using rest by simp
  next
    case False
    then have "?p = pattern"
      using assms(1) by (cases pattern) auto
    with False assms(1) have "0 < scan_len False ?p"
      by (simp add: scan_len_progress)
    then show ?thesis
      using rest assms(1) \<open>?p = pattern\<close> by simp
  qed
qed

function rest_valid :: "string \<Rightarrow> bool" where
  "rest_valid pattern =
     (if pattern = [] then True
      else case scan_chunk pattern of
        (star, chunk, rest) \<Rightarrow> match_chunk False chunk [] \<noteq> None \<and> rest_valid rest)"
  by pat_completeness auto
termination
  by (relation "measure length") (auto dest: scan_chunk_shorter [OF _ sym])

declare rest_valid.simps [simp del]

function fp_match :: "string \<Rightarrow> string \<Rightarrow> bool option" where
  "fp_match pattern name =
     (if pattern = [] then Some (name = [])
      else case scan_chunk pattern of
        (star, chunk, rest) \<Rightarrow>
          if star \<and> chunk = [] then Some (slash \<notin> set name)
          else case match_chunk False chunk name of
            None \<Rightarrow> None
          | Some m \<Rightarrow>
              if m \<noteq> None \<and> (m = Some [] \<or> rest \<noteq> []) then fp_match rest (the m)
              else
                (case (if star then star_search (rest = []) chunk name else Some None) of
                   None \<Rightarrow> None
                 | Some (Some t) \<Rightarrow> fp_match rest t
                 | Some None \<Rightarrow> if rest_valid rest then Some False else None))"
  by pat_completeness auto
termination
  by (relation "measure (\<lambda>(pattern, name). length pattern)")
    (auto dest: scan_chunk_shorter [OF _ sym])

declare fp_match.simps [simp del]

section \<open>Patterns without metacharacters\<close>

definition glob_meta :: "char set" where
  "glob_meta = {CHR ''*'', CHR ''?'', CHR ''['', CHR 0x5C}"

lemma scan_len_literal: "set p \<inter> glob_meta = {} \<Longrightarrow> scan_len inrange p = length p"
  by (induction p arbitrary: inrange) (auto simp: glob_meta_def)

lemma scan_chunk_literal:
  "p \<noteq> [] \<Longrightarrow> set p \<inter> glob_meta = {} \<Longrightarrow> scan_chunk p = (False, p, [])"
  by (cases p) (auto simp: scan_chunk_def Let_def scan_len_literal [of "_ # _"] glob_meta_def
      simp del: scan_len.simps)

lemma match_chunk_literal_failed:
  "set p \<inter> glob_meta = {} \<Longrightarrow> match_chunk True p s = Some None"
proof (induction p)
  case (Cons c p)
  then have "c \<notin> glob_meta" and "match_chunk True p s = Some None"
    by auto
  then show ?case
    by (simp add: match_chunk.simps [of True "c # p"] Let_def glob_meta_def)
qed (simp add: match_chunk.simps [of True "[]"])

lemma match_chunk_literal:
  "set p \<inter> glob_meta = {} \<Longrightarrow>
   match_chunk False p s = (if prefix p s then Some (Some (drop (length p) s)) else Some None)"
proof (induction p arbitrary: s)
  case Nil
  then show ?case by (simp add: match_chunk.simps)
next
  case (Cons c p)
  then have p: "set p \<inter> glob_meta = {}" and c: "c \<notin> glob_meta"
    by auto
  have step: "match_chunk False (c # p) s =
    (if s = [] then match_chunk True p s else match_chunk (c \<noteq> hd s) p (tl s))"
    using c by (simp add: match_chunk.simps [of False "c # p"] Let_def glob_meta_def)
  show ?case
  proof (cases s)
    case (Cons d s')
    show ?thesis
    proof (cases "c = d")
      case True
      with Cons step Cons.IH [OF p, of s'] show ?thesis by simp
    next
      case False
      with Cons step match_chunk_literal_failed [OF p] show ?thesis by simp
    qed
  next
    case Nil
    with step match_chunk_literal_failed [OF p] show ?thesis by simp
  qed
qed

lemma fp_match_Nil [simp]: "fp_match [] name = Some (name = [])"
  by (simp add: fp_match.simps)

lemma fp_match_literal:
  assumes "set p \<inter> glob_meta = {}"
  shows "fp_match p name = Some (p = name)"
proof (cases "p = []")
  case False
  then show ?thesis
    using assms
    by (auto simp: fp_match.simps [of p name] scan_chunk_literal match_chunk_literal
        rest_valid.simps [of "[]"] prefix_def)
qed auto

end
