(* ===== verification/BrickReads.thy ===== *)
theory BrickReads
  imports Partition GoMatch
begin

text \<open>
  \<open>lib/spec/brickreads/brickreads.go\<close>: the staleness check. \<open>Diff\<close> reports, for every
  completed brick, the siblings that wrote something the brick reads. A Go map that
  represents a set is the list of its keys; the two nested \<open>range\<close> loops over
  \<open>completed\<close> are modelled with one order, and the characterisation of the result
  below does not mention the order.
\<close>

section \<open>The model\<close>

record br_brick =
  br_path :: string

record brick_io =
  io_reads :: "string list"
  io_writes :: "string list"

record stale =
  st_brick :: string
  st_sibling :: string
  st_paths :: "string list"

definition stale_Format :: "stale \<Rightarrow> string" where
  "stale_Format s = st_brick s @ '' stale on '' @ st_sibling s @ '': '' @ join '', '' (st_paths s)"

definition matchReadWrite :: "string \<Rightarrow> string \<Rightarrow> bool" where
  "matchReadWrite r w =
     (if \<exists>c \<in> set r. c \<in> {CHR ''*'', CHR ''?'', CHR ''[''}
      then (case fp_match r w of None \<Rightarrow> False | Some ok \<Rightarrow> ok)
      else r = w)"

definition isAncestor :: "(string, br_brick) gomap \<Rightarrow> string \<Rightarrow> string \<Rightarrow> bool" where
  "isAncestor bricks a b =
     (case (map_of bricks a, map_of bricks b) of
        (Some bA, Some bB) \<Rightarrow>
          if br_path bA = '''' then False else has_prefix (br_path bB) (br_path bA @ ''/'')
      | _ \<Rightarrow> False)"

text \<open>The two innermost loops: the reads of one brick against the writes of one sibling.\<close>

definition diff_pair :: "string \<times> string \<Rightarrow> brick_io \<Rightarrow> brick_io \<Rightarrow>
    (string \<times> string, string list) gomap \<Rightarrow> (string \<times> string, string list) gomap" where
  "diff_pair k io sibIO matches =
     foldl (\<lambda>matches r. foldl (\<lambda>matches w.
         if matchReadWrite r w then add_to_set k w matches else matches) matches (io_writes sibIO))
       matches (io_reads io)"

definition diff_matches :: "(string, br_brick) gomap \<Rightarrow> (string, brick_io) gomap \<Rightarrow>
    (string \<times> string, string list) gomap" where
  "diff_matches bricks completed =
     foldl (\<lambda>matches (brick, io). foldl (\<lambda>matches (sibling, sibIO).
         if brick = sibling then matches
         else if isAncestor bricks brick sibling \<or> isAncestor bricks sibling brick then matches
         else diff_pair (brick, sibling) io sibIO matches) matches completed)
       [] completed"

definition Diff :: "(string, br_brick) gomap \<Rightarrow> (string, brick_io) gomap \<Rightarrow> stale list" where
  "Diff bricks completed =
     sort_key (\<lambda>s. (st_brick s, st_sibling s))
       (map (\<lambda>((brick, sibling), m). \<lparr>st_brick = brick, st_sibling = sibling, st_paths = sort m\<rparr>)
         (diff_matches bricks completed))"

section \<open>Reads and writes\<close>

text \<open>
  A read without metacharacters matches exactly the write with the same path, whether
  it is compared as a string or as a pattern.
\<close>

lemma matchReadWrite_concrete:
  "\<forall>c \<in> set r. c \<notin> {CHR ''*'', CHR ''?'', CHR ''[''} \<Longrightarrow> matchReadWrite r w \<longleftrightarrow> r = w"
  by (auto simp: matchReadWrite_def)

section \<open>The pairs collected\<close>

definition unrelated :: "(string, br_brick) gomap \<Rightarrow> string \<Rightarrow> string \<Rightarrow> bool" where
  "unrelated bricks a b \<longleftrightarrow> a \<noteq> b \<and> \<not> isAncestor bricks a b \<and> \<not> isAncestor bricks b a"

lemma unrelated_sym: "unrelated bricks a b = unrelated bricks b a"
  by (auto simp: unrelated_def)

definition read_hits :: "brick_io \<Rightarrow> brick_io \<Rightarrow> string list" where
  "read_hits io sibIO = concat (map (\<lambda>r. filter (matchReadWrite r) (io_writes sibIO)) (io_reads io))"

lemma set_read_hits:
  "set (read_hits io sibIO) = {w \<in> set (io_writes sibIO). \<exists>r \<in> set (io_reads io). matchReadWrite r w}"
  by (auto simp: read_hits_def)

lemma diff_pair_fold:
  "diff_pair k io sibIO m = foldl (\<lambda>m (k, w). add_to_set k w m) m (map (Pair k) (read_hits io sibIO))"
proof -
  have "diff_pair k io sibIO m = foldl (\<lambda>m w. add_to_set k w m) m (read_hits io sibIO)"
    by (simp add: diff_pair_def foldl_skip foldl_nested read_hits_def)
  then show ?thesis
    by (simp add: foldl_map)
qed

definition diff_hits :: "(string, br_brick) gomap \<Rightarrow> (string, brick_io) gomap \<Rightarrow> ((string \<times> string) \<times> string) list" where
  "diff_hits bricks completed =
     concat (map (\<lambda>(z, io). concat (map (\<lambda>(s, sio).
       if unrelated bricks z s then map (Pair (z, s)) (read_hits io sio) else []) completed)) completed)"

lemma diff_matches_fold:
  "diff_matches bricks completed = foldl (\<lambda>m (k, w). add_to_set k w m) [] (diff_hits bricks completed)"
proof -
  have inner: "(\<lambda>m (s, sio).
      if z = s then m else if isAncestor bricks z s \<or> isAncestor bricks s z then m
      else diff_pair (z, s) io sio m)
    = (\<lambda>m e. foldl (\<lambda>m (k, w). add_to_set k w m) m
        ((\<lambda>(s, sio). if unrelated bricks z s then map (Pair (z, s)) (read_hits io sio) else []) e))" for z io
    by (auto simp: fun_eq_iff diff_pair_fold unrelated_def)
  show ?thesis
    unfolding diff_matches_def inner foldl_nested diff_hits_def
    by (simp add: foldl_nested case_prod_unfold)
qed

lemma set_diff_hits:
  "((z, s), w) \<in> set (diff_hits bricks completed) \<longleftrightarrow>
     (\<exists>io sio. (z, io) \<in> set completed \<and> (s, sio) \<in> set completed \<and> unrelated bricks z s
        \<and> w \<in> set (io_writes sio) \<and> (\<exists>r \<in> set (io_reads io). matchReadWrite r w))"
  (is "?l \<longleftrightarrow> ?r")
proof
  show ?l if ?r
  proof -
    from that obtain io sio where e: "(z, io) \<in> set completed" "(s, sio) \<in> set completed"
      and "unrelated bricks z s" "w \<in> set (read_hits io sio)"
      unfolding set_read_hits by blast
    then have "((z, s), w) \<in> set (case (s, sio) of (s, sio) \<Rightarrow>
        if unrelated bricks z s then map (Pair (z, s)) (read_hits io sio) else [])"
      by simp
    then have "((z, s), w) \<in> set (case (z, io) of (z, io) \<Rightarrow> concat (map (\<lambda>(s, sio).
        if unrelated bricks z s then map (Pair (z, s)) (read_hits io sio) else []) completed))"
      using e(2) by (simp only: case_prod_conv set_concat set_map) blast
    then show ?thesis
      using e(1) unfolding diff_hits_def set_concat set_map by blast
  qed
qed (auto simp: diff_hits_def set_read_hits split: if_splits)

section \<open>The theorems\<close>

lemma Diff_report:
  assumes "wf_map completed"
  shows "\<lparr>st_brick = z, st_sibling = s, st_paths = ps\<rparr> \<in> set (Diff bricks completed) \<longleftrightarrow>
      ps \<noteq> [] \<and> sorted ps \<and> distinct ps \<and> unrelated bricks z s \<and>
      (\<exists>io sio. map_of completed z = Some io \<and> map_of completed s = Some sio \<and>
        set ps = {w \<in> set (io_writes sio). \<exists>r \<in> set (io_reads io). matchReadWrite r w})"
proof -
  let ?m = "diff_matches bricks completed"
  have in_Diff: "\<lparr>st_brick = z, st_sibling = s, st_paths = ps\<rparr> \<in> set (Diff bricks completed)
      \<longleftrightarrow> (\<exists>l. ((z, s), l) \<in> set ?m \<and> ps = sort l)"
    by (auto simp: Diff_def image_iff) force+
  have hits: "{w. ((z, s), w) \<in> set (diff_hits bricks completed)} =
      {w \<in> set (io_writes sio). \<exists>r \<in> set (io_reads io). matchReadWrite r w}"
    if "unrelated bricks z s" "map_of completed z = Some io" "map_of completed s = Some sio" for io sio
    using that unfolding set_diff_hits map_of_in_set [OF assms, symmetric] by auto
  show ?thesis
  proof
    assume "\<lparr>st_brick = z, st_sibling = s, st_paths = ps\<rparr> \<in> set (Diff bricks completed)"
    then obtain l where l: "((z, s), l) \<in> set ?m" and ps: "ps = sort l"
      unfolding in_Diff by blast
    note entry = add_to_set_entry [OF l [unfolded diff_matches_fold]]
    from entry(1,3) obtain w where "((z, s), w) \<in> set (diff_hits bricks completed)"
      by fastforce
    then obtain io sio where "map_of completed z = Some io" "map_of completed s = Some sio" "unrelated bricks z s"
      unfolding set_diff_hits map_of_in_set [OF assms, symmetric] by blast
    moreover have "ps \<noteq> []"
      using entry(3) ps by (metis set_empty set_sort)
    moreover have "sorted ps" "distinct ps"
      using entry(2) by (simp_all add: ps)
    moreover have "set ps = {w. ((z, s), w) \<in> set (diff_hits bricks completed)}"
      using entry(1) by (simp add: ps)
    ultimately show "ps \<noteq> [] \<and> sorted ps \<and> distinct ps \<and> unrelated bricks z s \<and>
      (\<exists>io sio. map_of completed z = Some io \<and> map_of completed s = Some sio \<and>
        set ps = {w \<in> set (io_writes sio). \<exists>r \<in> set (io_reads io). matchReadWrite r w})"
      using hits by simp
  next
    assume r: "ps \<noteq> [] \<and> sorted ps \<and> distinct ps \<and> unrelated bricks z s \<and>
      (\<exists>io sio. map_of completed z = Some io \<and> map_of completed s = Some sio \<and>
        set ps = {w \<in> set (io_writes sio). \<exists>r \<in> set (io_reads io). matchReadWrite r w})"
    with hits have set: "set ps = {w. ((z, s), w) \<in> set (diff_hits bricks completed)}"
      by blast
    with r obtain w where "((z, s), w) \<in> set (diff_hits bricks completed)"
      by (metis (mono_tags) ex_in_conv mem_Collect_eq set_empty)
    from add_to_set_key [OF this] obtain l where l: "((z, s), l) \<in> set ?m"
      unfolding diff_matches_fold by blast
    note entry = add_to_set_entry [OF l [unfolded diff_matches_fold]]
    have "ps = sort l"
      using r entry set by (metis sort_set_eq sorted_sort_id)
    with l show "\<lparr>st_brick = z, st_sibling = s, st_paths = ps\<rparr> \<in> set (Diff bricks completed)"
      unfolding in_Diff by blast
  qed
qed

text \<open>
  C20 (\<open>Diff\<close>). \<open>Diff\<close> reports the pair of a brick and a sibling exactly when they are
  different bricks, neither is an ancestor of the other, and the sibling wrote a path
  that a read of the brick matches; the report carries exactly those paths, sorted
  and without repetition, there is one report per pair and they are sorted by pair.
\<close>

theorem Diff_exact:
  assumes "wf_map completed"
  shows "(\<lparr>st_brick = z, st_sibling = s, st_paths = ps\<rparr> \<in> set (Diff bricks completed) \<longleftrightarrow>
      ps \<noteq> [] \<and> sorted ps \<and> distinct ps \<and> unrelated bricks z s \<and>
      (\<exists>io sio. map_of completed z = Some io \<and> map_of completed s = Some sio \<and>
        set ps = {w \<in> set (io_writes sio). \<exists>r \<in> set (io_reads io). matchReadWrite r w}))
    \<and> sorted (map (\<lambda>f. (st_brick f, st_sibling f)) (Diff bricks completed))
    \<and> distinct (map (\<lambda>f. (st_brick f, st_sibling f)) (Diff bricks completed))"
  (is "_ \<and> ?sorted \<and> ?distinct")
proof (intro conjI)
  let ?m = "diff_matches bricks completed"
  have wf: "wf_map ?m"
    unfolding diff_matches_fold by (rule wf_add_to_set_fold) simp
  show "\<lparr>st_brick = z, st_sibling = s, st_paths = ps\<rparr> \<in> set (Diff bricks completed) \<longleftrightarrow>
      ps \<noteq> [] \<and> sorted ps \<and> distinct ps \<and> unrelated bricks z s \<and>
      (\<exists>io sio. map_of completed z = Some io \<and> map_of completed s = Some sio \<and>
        set ps = {w \<in> set (io_writes sio). \<exists>r \<in> set (io_reads io). matchReadWrite r w})"
    by (rule Diff_report [OF assms])
  show ?sorted
    by (simp add: Diff_def)
  have "map (\<lambda>f. (st_brick f, st_sibling f))
      (map (\<lambda>((brick, sibling), m). \<lparr>st_brick = brick, st_sibling = sibling, st_paths = sort m\<rparr>) ?m) = keys ?m"
    by (simp add: comp_def case_prod_unfold)
  with wf show ?distinct
    unfolding Diff_def distinct_map_sort_key by (simp only: wf_map_def)
qed

theorem Diff_exact_witness:
  "Diff [(''a'', \<lparr>br_path = ''a''\<rparr>), (''b'', \<lparr>br_path = ''b''\<rparr>)]
     [(''a'', \<lparr>io_reads = [''b/*.cue''], io_writes = []\<rparr>), (''b'', \<lparr>io_reads = [], io_writes = [''b/x.cue'', ''c'']\<rparr>)]
   = [\<lparr>st_brick = ''a'', st_sibling = ''b'', st_paths = [''b/x.cue'']\<rparr>] \<and> matchReadWrite ''b/*.cue'' ''b/x.cue''"
proof -
  let ?c = "[(''a'', \<lparr>io_reads = [''b/*.cue''], io_writes = []\<rparr>), (''b'', \<lparr>io_reads = [], io_writes = [''b/x.cue'', ''c'']\<rparr>)]"
  have run: "Diff [(''a'', \<lparr>br_path = ''a''\<rparr>), (''b'', \<lparr>br_path = ''b''\<rparr>)] ?c
      = [\<lparr>st_brick = ''a'', st_sibling = ''b'', st_paths = [''b/x.cue'']\<rparr>]"
    by code_simp
  have "wf_map ?c"
    by (simp add: wf_map_def)
  from Diff_exact [OF this, of "''a''" "''b''" "[''b/x.cue'']"
      "[(''a'', \<lparr>br_path = ''a''\<rparr>), (''b'', \<lparr>br_path = ''b''\<rparr>)]"] run
  show ?thesis
    by auto
qed

end
