(* ===== verification/HatchBrick.thy ===== *)
theory HatchBrick
  imports HatchCycle BrickReads Snapshot
begin

text \<open>
  \<open>lib/hatch/brick.go\<close> and \<open>lib/hatch/gensubset.go\<close>: the equilibrium of one brick. The
  staleness self-check \<open>runBrickF1\<close>, the choice of the generators that write under the
  brick, their bounded cycle, the fingerprint, and \<open>CycleBrick\<close> that puts them together.

  A \<open>brick_env\<close> holds what \<open>CycleBrick\<close> calls on the world \<open>'w\<close>: the decoded bricks shard,
  the loaded snapshot, the contracts evaluated by CUE, the generator registry
  \<open>PhaseAByContractName\<close>, git, file contents, SHA-256 in hexadecimal and the writer of the
  result; \<open>be_hatch\<close> gives the operations shared with the workspace cycle.
\<close>

section \<open>Paths under a brick\<close>

definition pathUnderBrick :: "string \<Rightarrow> string \<Rightarrow> string \<Rightarrow> bool" where
  "pathUnderBrick p brickPath brickPrefix =
     (if brickPath = '''' then True else if p = brickPath then True else has_prefix p brickPrefix)"

definition brick_prefix :: "string \<Rightarrow> string" where
  "brick_prefix brickPath =
     (if brickPath \<noteq> '''' \<and> \<not> has_suffix brickPath ''/'' then brickPath @ ''/'' else brickPath)"

definition SelectGenSubset :: "(string, string list) gomap \<Rightarrow> string \<Rightarrow> string list" where
  "SelectGenSubset claims brickPath =
     (if length claims = 0 then []
      else sort (map fst (filter (\<lambda>(name, paths).
        \<exists>p \<in> set paths. pathUnderBrick p brickPath (brick_prefix brickPath)) claims)))"

definition PathsOutsideBrick :: "string list \<Rightarrow> string \<Rightarrow> string list" where
  "PathsOutsideBrick paths brickPath =
     filter (\<lambda>p. \<not> pathUnderBrick p brickPath (brick_prefix brickPath)) paths"

section \<open>The staleness self-check\<close>

definition empty_result :: brick_result where
  "empty_result =
     \<lparr>r_reads = [], r_writes = [], r_status = '''', r_blockedOn = [], r_fingerprint = '''', r_sessionID = '''',
      r_logPath = '''', r_outOfLanePatch = '''', r_tokensInput = 0, r_tokensOutput = 0, r_tokensCacheRead = 0,
      r_tokensCacheWrite = 0, r_tokensThought = 0, r_tokensTotal = 0, r_costAmount = 0, r_costCurrency = ''''\<rparr>"

text \<open>The two maps handed to \<open>brickreads.Diff\<close>.\<close>

definition f1_bricks :: "brick_info \<Rightarrow> bricks \<Rightarrow> dispatch_plan option \<Rightarrow> (string, br_brick) gomap" where
  "f1_bricks this siblings snapshot =
     foldl (\<lambda>m (slug, prior).
         if slug = bi_slug this then m
         else AList.update slug
           \<lparr>br_path = (case map_of siblings slug of None \<Rightarrow> '''' | Some b \<Rightarrow> bi_path b)\<rparr> m)
       [(bi_slug this, \<lparr>br_path = bi_path this\<rparr>)] (case snapshot of None \<Rightarrow> [] | Some plan \<Rightarrow> plan)"

definition f1_io :: "brick_info \<Rightarrow> dispatch_plan option \<Rightarrow> (string, brick_io) gomap" where
  "f1_io this snapshot =
     foldl (\<lambda>m (slug, prior).
         if slug = bi_slug this then m
         else AList.update slug \<lparr>io_reads = [], io_writes = r_writes prior\<rparr> m)
       [(bi_slug this, \<lparr>io_reads = bi_reads this, io_writes = []\<rparr>)]
       (case snapshot of None \<Rightarrow> [] | Some plan \<Rightarrow> plan)"

definition runBrickF1 :: "brick_info \<Rightarrow> bricks \<Rightarrow> dispatch_plan option \<Rightarrow> brick_result" where
  "runBrickF1 this siblings snapshot =
     (let stale = Diff (f1_bricks this siblings snapshot) (f1_io this snapshot);
          blocked = map (\<lambda>s. \<lparr>bo_sibling = st_sibling s, bo_paths = st_paths s\<rparr>)
                      (filter (\<lambda>s. st_brick s = bi_slug this) stale)
      in empty_result\<lparr>r_reads := bi_reads this, r_blockedOn := blocked,
                      r_status := (if length blocked > 0 then ''blocked'' else ''idempotent'')\<rparr>)"

definition shortFp :: "string \<Rightarrow> string" where
  "shortFp fp = (if length fp \<le> 12 then fp else take 12 fp)"

section \<open>The environment\<close>

record 'w brick_env =
  be_root :: "string option"
  be_raw_bricks :: "string \<Rightarrow> 'w \<Rightarrow> bricks option"
  be_plan :: "string \<Rightarrow> 'w \<Rightarrow> dispatch_plan option"
  be_claims :: "string \<Rightarrow> 'w \<Rightarrow> (string, string list) gomap option"
  be_hatch :: "string \<Rightarrow> 'w hatch_env"
  be_generator :: "string \<Rightarrow> ('w \<Rightarrow> 'w \<times> string option) option"
  be_ls_under :: "string \<Rightarrow> string list \<Rightarrow> 'w \<Rightarrow> string option"
  be_read :: "string \<Rightarrow> 'w \<Rightarrow> string option"
  be_sha256 :: "string \<Rightarrow> string"
  be_write_result :: "string \<Rightarrow> brick_result \<Rightarrow> 'w \<Rightarrow> 'w \<times> string option"
  be_max_env :: string

definition loadBricksShard :: "'w brick_env \<Rightarrow> string \<Rightarrow> 'w \<Rightarrow> bricks option" where
  "loadBricksShard env workDir w =
     map_option index_bricks (be_raw_bricks env (fp_join [workDir, ''var/lattice/bricks.json.gz'']) w)"

definition computeGenSubset :: "'w brick_env \<Rightarrow> string \<Rightarrow> string \<Rightarrow> 'w \<Rightarrow> string list option" where
  "computeGenSubset env workDir brickPath w =
     map_option (\<lambda>claims. SelectGenSubset claims brickPath) (be_claims env workDir w)"

section \<open>The generator cycle\<close>

datatype brick_error =
    BrickRequired | RootNotFound | LoadBricks | BrickNotFound string | LoadSnapshot
  | GenSubset | CtxErr string | SnapshotErr | GenNotRegistered string | GenFailed string string
  | BrickGitAdd string | FingerprintErr | EmitErr string

record genCycleResult =
  Converged :: bool
  Dirty :: bool
  OutOfLane :: "string list"

fun run_subset :: "'w brick_env \<Rightarrow> string list \<Rightarrow> 'w \<Rightarrow> 'w \<times> brick_error option" where
  "run_subset env [] w = (w, None)"
| "run_subset env (name # names) w =
     (case be_generator env name of
        None \<Rightarrow> (w, Some (GenNotRegistered name))
      | Some fn \<Rightarrow> (case fn w of
          (w, Some e) \<Rightarrow> (w, Some (GenFailed name e))
        | (w, None) \<Rightarrow> run_subset env names w))"

text \<open>One iteration: the loop ends with a result or an error, or goes on in the new world.\<close>

definition subset_pass :: "'w brick_env \<Rightarrow> string \<Rightarrow> string \<Rightarrow> string list \<Rightarrow> 'w \<Rightarrow>
    ('w \<times> (brick_error + genCycleResult)) + 'w" where
  "subset_pass env workDir brickPath gens w0 =
     (let hatch = be_hatch env workDir in
      case snapshotMtimes hatch w0 of
        None \<Rightarrow> Inl (w0, Inl SnapshotErr)
      | Some before \<Rightarrow>
      (case run_subset env gens w0 of
        (w, Some e) \<Rightarrow> Inl (w, Inl e)
      | (w, None) \<Rightarrow>
      (case he_git_add hatch w of
        (w, Some e) \<Rightarrow> Inl (w, Inl (BrickGitAdd e))
      | (w, None) \<Rightarrow>
        let changed = mtimeChanges hatch w (Some before);
            out = PathsOutsideBrick changed brickPath
        in if length out > 0 then Inl (w, Inr \<lparr>Converged = False, Dirty = True, OutOfLane = out\<rparr>)
           else if length changed = 0 then Inl (w, Inr \<lparr>Converged = True, Dirty = False, OutOfLane = []\<rparr>)
           else Inr w)))"

primrec subset_loop :: "'w brick_env \<Rightarrow> string \<Rightarrow> string \<Rightarrow> string list \<Rightarrow> nat \<Rightarrow> 'w \<Rightarrow>
    'w \<times> (brick_error + genCycleResult)" where
  "subset_loop env workDir brickPath gens 0 w = (w, Inr \<lparr>Converged = False, Dirty = False, OutOfLane = []\<rparr>)"
| "subset_loop env workDir brickPath gens (Suc n) w =
     (case subset_pass env workDir brickPath gens w of
        Inl r \<Rightarrow> r
      | Inr w' \<Rightarrow> subset_loop env workDir brickPath gens n w')"

definition runGenSubsetCycle :: "'w brick_env \<Rightarrow> string \<Rightarrow> string \<Rightarrow> string list \<Rightarrow> 'w \<Rightarrow>
    'w \<times> (brick_error + genCycleResult)" where
  "runGenSubsetCycle env workDir brickPath gens w =
     (case he_init (be_hatch env workDir) of
        Some e \<Rightarrow> (w, Inl (CtxErr e))
      | None \<Rightarrow> subset_loop env workDir brickPath gens (nat (resolveMaxCycleIterations (be_max_env env))) w)"

section \<open>The fingerprint\<close>

definition trackedFilesUnder :: "'w brick_env \<Rightarrow> string \<Rightarrow> string \<Rightarrow> 'w \<Rightarrow> string list option" where
  "trackedFilesUnder env workDir brickPath w =
     map_option output_lines
       (be_ls_under env workDir ([''git'', ''ls-files''] @ (if brickPath \<noteq> '''' then [''--'', brickPath] else [])) w)"

fun fingerprint_lines :: "'w brick_env \<Rightarrow> string \<Rightarrow> 'w \<Rightarrow> string list \<Rightarrow> string option" where
  "fingerprint_lines env workDir w [] = Some []"
| "fingerprint_lines env workDir w (f # fs) =
     (case be_read env (fp_join [workDir, f]) w of
        None \<Rightarrow> None
      | Some data \<Rightarrow> map_option (\<lambda>rest. f @ '' '' @ be_sha256 env data @ [newline] @ rest)
                       (fingerprint_lines env workDir w fs))"

definition fingerprintBrick :: "'w brick_env \<Rightarrow> string \<Rightarrow> string \<Rightarrow> 'w \<Rightarrow> string option" where
  "fingerprintBrick env workDir brickPath w =
     (case trackedFilesUnder env workDir brickPath w of
        None \<Rightarrow> None
      | Some files \<Rightarrow> map_option (be_sha256 env) (fingerprint_lines env workDir w (sort files)))"

section \<open>CycleBrick\<close>

record cycle_brick_opts =
  o_brick :: string
  o_sinceSnapshot :: string
  o_resultOut :: string
  o_workDir :: string

text \<open>
  The second half of \<open>CycleBrick\<close>, for a brick that is not blocked: the generators and the
  fingerprint. An empty subset skips the cycle.
\<close>

definition brick_gen_stage :: "'w brick_env \<Rightarrow> string \<Rightarrow> brick_info \<Rightarrow> brick_result \<Rightarrow> 'w \<Rightarrow>
    'w \<times> (brick_error + brick_result)" where
  "brick_gen_stage env workDir this result w =
     (case computeGenSubset env workDir (bi_path this) w of
        None \<Rightarrow> (w, Inl GenSubset)
      | Some gens \<Rightarrow>
      (case (if length gens > 0 then runGenSubsetCycle env workDir (bi_path this) gens w
             else (w, Inr \<lparr>Converged = True, Dirty = False, OutOfLane = []\<rparr>)) of
        (w, Inl e) \<Rightarrow> (w, Inl e)
      | (w, Inr run) \<Rightarrow>
        if Dirty run then (w, Inr (result\<lparr>r_status := ''dirty''\<rparr>))
        else if \<not> Converged run then (w, Inr (result\<lparr>r_status := ''not-converged''\<rparr>))
        else case fingerprintBrick env workDir (bi_path this) w of
          None \<Rightarrow> (w, Inl FingerprintErr)
        | Some fp \<Rightarrow> (w, Inr (result\<lparr>r_fingerprint := fp\<rparr>))))"

text \<open>
  The result \<open>CycleBrick\<close> emits. Every path through the function that does not fail ends in
  one \<open>emitResult\<close> of the result computed here.
\<close>

definition cycle_brick_result :: "'w brick_env \<Rightarrow> cycle_brick_opts \<Rightarrow> 'w \<Rightarrow> 'w \<times> (brick_error + brick_result)" where
  "cycle_brick_result env opts w =
     (if o_brick opts = '''' then (w, Inl BrickRequired)
      else case (if o_workDir opts = '''' then be_root env else Some (o_workDir opts)) of
        None \<Rightarrow> (w, Inl RootNotFound)
      | Some workDir \<Rightarrow>
      (case loadBricksShard env workDir w of
        None \<Rightarrow> (w, Inl LoadBricks)
      | Some bricks \<Rightarrow>
      (case resolveBrick bricks (o_brick opts) of
        None \<Rightarrow> (w, Inl (BrickNotFound (o_brick opts)))
      | Some this \<Rightarrow>
      (case be_plan env (o_sinceSnapshot opts) w of
        None \<Rightarrow> (w, Inl LoadSnapshot)
      | Some plan \<Rightarrow>
        let result = runBrickF1 this bricks (Some plan) in
        if r_status result = ''blocked'' then (w, Inr result)
        else brick_gen_stage env workDir this result w))))"

definition emitResult :: "'w brick_env \<Rightarrow> string \<Rightarrow> brick_result \<Rightarrow> 'w \<Rightarrow> 'w \<times> brick_error option" where
  "emitResult env p r w =
     (if p = '''' then (w, None)
      else case be_write_result env p r w of (w, e) \<Rightarrow> (w, map_option EmitErr e))"

definition CycleBrick :: "'w brick_env \<Rightarrow> cycle_brick_opts \<Rightarrow> 'w \<Rightarrow> 'w \<times> brick_error option" where
  "CycleBrick env opts w =
     (case cycle_brick_result env opts w of
        (w, Inl e) \<Rightarrow> (w, Some e)
      | (w, Inr r) \<Rightarrow> emitResult env (o_resultOut opts) r w)"

section \<open>The workspace root\<close>

text \<open>
  \<open>findWorkspaceRoot\<close> from the current directory: \<open>exists\<close> is \<open>os.Stat\<close> without an error.
  The loop ends because every step that does not stop shortens the path.
\<close>

function findWorkspaceRoot :: "(string \<Rightarrow> bool) \<Rightarrow> string \<Rightarrow> string option" where
  "findWorkspaceRoot exists dir =
     (if exists (fp_join [dir, ''cue.mod'', ''module.cue'']) then Some dir
      else let parent = fp_dir dir in
        if parent = dir then None else findWorkspaceRoot exists parent)"
  by pat_completeness auto
termination
  by (relation "measure (\<lambda>(_, dir). up_measure dir)") (auto intro: fp_dir_up)

declare findWorkspaceRoot.simps [simp del]

section \<open>Lanes\<close>

lemma pathUnderBrick_lane:
  assumes "bp \<noteq> ''''" and "\<not> has_suffix bp ''/''"
  shows "pathUnderBrick p bp (brick_prefix bp) \<longleftrightarrow> p = bp \<or> ancestor bp p"
  using assms by (simp add: pathUnderBrick_def brick_prefix_def ancestor_def)

text \<open>
  \<open>SelectGenSubset\<close>, \<open>PathsOutsideBrick\<close>: For a brick path that does not end in a slash,
  the selected generators are, sorted, those that claim the brick's path or a path below
  it; every claim of a generator that is not selected is outside the brick's lane, and
  the lane test of the dirty check keeps exactly the paths that are neither the brick's
  path nor below it.
\<close>

theorem SelectGenSubset_lane:
  assumes "bp \<noteq> ''''" and "\<not> has_suffix bp ''/''" and "wf_map claims"
  shows "sorted (SelectGenSubset claims bp) \<and> distinct (SelectGenSubset claims bp)
    \<and> set (SelectGenSubset claims bp) = {name. \<exists>paths. (name, paths) \<in> set claims \<and> (\<exists>p \<in> set paths. p = bp \<or> ancestor bp p)}
    \<and> (\<forall>(name, paths) \<in> set claims. name \<notin> set (SelectGenSubset claims bp) \<longrightarrow> PathsOutsideBrick paths bp = paths)
    \<and> set (PathsOutsideBrick ps bp) = {p \<in> set ps. p \<noteq> bp \<and> \<not> ancestor bp p}"
proof -
  have sel: "SelectGenSubset claims bp = sort (map fst (filter (\<lambda>(name, paths). \<exists>p \<in> set paths. p = bp \<or> ancestor bp p) claims))"
    by (simp add: SelectGenSubset_def pathUnderBrick_lane [OF assms(1,2)])
  then have set: "set (SelectGenSubset claims bp)
      = {name. \<exists>paths. (name, paths) \<in> set claims \<and> (\<exists>p \<in> set paths. p = bp \<or> ancestor bp p)}"
    by force
  moreover have "distinct (SelectGenSubset claims bp)"
    using wf_map_filter [OF assms(3)] unfolding sel by (simp add: wf_map_def)
  moreover have "PathsOutsideBrick paths bp = paths"
    if "(name, paths) \<in> set claims" "name \<notin> set (SelectGenSubset claims bp)" for name paths
    using that unfolding set by (auto simp: PathsOutsideBrick_def pathUnderBrick_lane [OF assms(1,2)] filter_id_conv)
  ultimately show ?thesis
    by (auto simp: sel PathsOutsideBrick_def pathUnderBrick_lane [OF assms(1,2)])
qed

theorem SelectGenSubset_lane_witness:
  "set (PathsOutsideBrick [''a/b/x'', ''a/bc'', ''a/b''] ''a/b'') = {p \<in> set [''a/b/x'', ''a/bc'', ''a/b'']. p \<noteq> ''a/b'' \<and> \<not> ancestor ''a/b'' p}
   \<and> SelectGenSubset [(''g'', [''a/b/x'']), (''f'', [''c''])] ''a/b'' = [''g'']"
proof -
  have "\<not> has_suffix ''a/b'' ''/''"
    by code_simp
  moreover have "wf_map [(''g'', [''a/b/x'']), (''f'', [''c''])]"
    by (simp add: wf_map_def)
  moreover have "SelectGenSubset [(''g'', [''a/b/x'']), (''f'', [''c''])] ''a/b'' = [''g'']"
    by code_simp
  ultimately show ?thesis
    using SelectGenSubset_lane [of "''a/b''" "[(''g'', [''a/b/x'']), (''f'', [''c''])]" "[''a/b/x'', ''a/bc'', ''a/b'']"]
    by blast
qed

section \<open>The self-check\<close>

lemma f1_fold_map_of:
  assumes "wf_map plan"
  shows "map_of (foldl (\<lambda>m (k, v). if k = k0 then m else AList.update k (g k v) m) m0 plan) k
    = (if k \<noteq> k0 \<and> k \<in> set (keys plan) then Some (g k (the (map_of plan k))) else map_of m0 k)"
  using assms
proof (induction plan arbitrary: m0)
  case (Cons e plan)
  then have wf: "wf_map plan" and fresh: "fst e \<notin> set (keys plan)"
    by (simp_all add: wf_map_def)
  show ?case
    using Cons.IH [OF wf] fresh by (cases e) (auto simp: update_conv')
qed simp

lemma f1_fold_wf:
  "wf_map m0 \<Longrightarrow> wf_map (foldl (\<lambda>m (k, v). if k = k0 then m else AList.update k (g k v) m) m0 plan)"
  by (induction plan arbitrary: m0) (auto simp: wf_map_update)

definition plan_path :: "bricks \<Rightarrow> string \<Rightarrow> string" where
  "plan_path siblings slug = (case map_of siblings slug of None \<Rightarrow> '''' | Some b \<Rightarrow> bi_path b)"

lemma f1_bricks_map_of:
  "wf_map plan \<Longrightarrow> map_of (f1_bricks this siblings (Some plan)) k =
     (if k = bi_slug this then Some \<lparr>br_path = bi_path this\<rparr>
      else if k \<in> set (keys plan) then Some \<lparr>br_path = plan_path siblings k\<rparr> else None)"
  unfolding f1_bricks_def option.case by (subst f1_fold_map_of) (auto simp: plan_path_def)

lemma f1_io_map_of:
  "wf_map plan \<Longrightarrow> map_of (f1_io this (Some plan)) k =
     (if k = bi_slug this then Some \<lparr>io_reads = bi_reads this, io_writes = []\<rparr>
      else map_option (\<lambda>prior. \<lparr>io_reads = [], io_writes = r_writes prior\<rparr>) (map_of plan k))"
  unfolding f1_io_def option.case
  by (subst f1_fold_map_of) (auto simp: map_of_in_set [THEN iffD2] map_of_eq_None_iff)

lemma f1_io_wf: "wf_map (f1_io this snapshot)"
  unfolding f1_io_def by (rule f1_fold_wf) (simp add: wf_map_def)

text \<open>Neither path lies strictly below the other; an empty path is above nothing.\<close>

definition paths_unrelated :: "string \<Rightarrow> string \<Rightarrow> bool" where
  "paths_unrelated p q \<longleftrightarrow> (p = '''' \<or> \<not> ancestor p q) \<and> (q = '''' \<or> \<not> ancestor q p)"

lemma f1_unrelated:
  assumes "wf_map plan" and "sib \<in> set (keys plan)" and "sib \<noteq> bi_slug this"
  shows "unrelated (f1_bricks this siblings (Some plan)) (bi_slug this) sib
    \<longleftrightarrow> paths_unrelated (bi_path this) (plan_path siblings sib)"
  using assms(2,3)
  by (auto simp: unrelated_def isAncestor_def f1_bricks_map_of [OF assms(1)] paths_unrelated_def ancestor_def)

lemma runBrickF1_blockedOn:
  assumes "wf_map plan"
  shows "\<lparr>bo_sibling = sib, bo_paths = ps\<rparr> \<in> set (r_blockedOn (runBrickF1 this siblings (Some plan))) \<longleftrightarrow>
      sib \<noteq> bi_slug this \<and> paths_unrelated (bi_path this) (plan_path siblings sib) \<and>
      ps \<noteq> [] \<and> sorted ps \<and> distinct ps \<and> (\<exists>prior. map_of plan sib = Some prior \<and>
        set ps = {w \<in> set (r_writes prior). \<exists>rd \<in> set (bi_reads this). matchReadWrite rd w})"
proof -
  let ?bs = "f1_bricks this siblings (Some plan)" and ?io = "f1_io this (Some plan)"
  have "\<lparr>bo_sibling = sib, bo_paths = ps\<rparr> \<in> set (r_blockedOn (runBrickF1 this siblings (Some plan))) \<longleftrightarrow>
      \<lparr>st_brick = bi_slug this, st_sibling = sib, st_paths = ps\<rparr> \<in> set (Diff ?bs ?io)"
    by (auto simp: runBrickF1_def Let_def image_iff intro: rev_bexI)
      (metis stale.surjective unit.exhaust)
  also have "\<dots> \<longleftrightarrow> ps \<noteq> [] \<and> sorted ps \<and> distinct ps \<and> unrelated ?bs (bi_slug this) sib \<and>
      (\<exists>io sio. map_of ?io (bi_slug this) = Some io \<and> map_of ?io sib = Some sio \<and>
        set ps = {w \<in> set (io_writes sio). \<exists>r \<in> set (io_reads io). matchReadWrite r w})"
    by (rule Diff_report [OF f1_io_wf])
  also have "\<dots> \<longleftrightarrow> sib \<noteq> bi_slug this \<and> paths_unrelated (bi_path this) (plan_path siblings sib) \<and>
      ps \<noteq> [] \<and> sorted ps \<and> distinct ps \<and> (\<exists>prior. map_of plan sib = Some prior \<and>
        set ps = {w \<in> set (r_writes prior). \<exists>rd \<in> set (bi_reads this). matchReadWrite rd w})"
  proof (cases "sib = bi_slug this")
    case True
    then show ?thesis by (simp add: unrelated_def)
  next
    case False
    then show ?thesis
      using f1_unrelated [OF assms(1) _ False]
      by (auto simp: f1_io_map_of [OF assms(1)]) (metis domI dom_map_of_conv_image_fst set_map)+
  qed
  finally show ?thesis .
qed

lemma runBrickF1_status:
  "r_status (runBrickF1 this siblings (Some plan)) =
     (if r_blockedOn (runBrickF1 this siblings (Some plan)) = [] then ''idempotent'' else ''blocked'')"
  by (simp add: runBrickF1_def Let_def)

text \<open>Blocked or not, without the report.\<close>

lemma runBrickF1_blocked_status:
  assumes "wf_map plan"
  shows "r_status (runBrickF1 this siblings (Some plan)) = ''blocked'' \<longleftrightarrow>
    (\<exists>sib prior. map_of plan sib = Some prior \<and> sib \<noteq> bi_slug this \<and> paths_unrelated (bi_path this) (plan_path siblings sib) \<and>
      (\<exists>w \<in> set (r_writes prior). \<exists>rd \<in> set (bi_reads this). matchReadWrite rd w))"
proof
  assume "r_status (runBrickF1 this siblings (Some plan)) = ''blocked''"
  then have "r_blockedOn (runBrickF1 this siblings (Some plan)) \<noteq> []"
    by (auto simp: runBrickF1_status)
  from hd_in_set [OF this] obtain sib ps where
    "\<lparr>bo_sibling = sib, bo_paths = ps\<rparr> \<in> set (r_blockedOn (runBrickF1 this siblings (Some plan)))"
    by (metis blocked_on.cases)
  from this [unfolded runBrickF1_blockedOn [OF assms]] obtain prior where sib:
    "sib \<noteq> bi_slug this" "paths_unrelated (bi_path this) (plan_path siblings sib)" "ps \<noteq> []"
    "map_of plan sib = Some prior" "set ps = {w \<in> set (r_writes prior). \<exists>rd \<in> set (bi_reads this). matchReadWrite rd w}"
    by blast
  from hd_in_set [OF sib(3)] have "hd ps \<in> {w \<in> set (r_writes prior). \<exists>rd \<in> set (bi_reads this). matchReadWrite rd w}"
    unfolding sib(5) .
  with sib(1,2,4) show "\<exists>sib prior. map_of plan sib = Some prior \<and> sib \<noteq> bi_slug this \<and> paths_unrelated (bi_path this) (plan_path siblings sib) \<and>
      (\<exists>w \<in> set (r_writes prior). \<exists>rd \<in> set (bi_reads this). matchReadWrite rd w)"
    by blast
next
  assume "\<exists>sib prior. map_of plan sib = Some prior \<and> sib \<noteq> bi_slug this \<and> paths_unrelated (bi_path this) (plan_path siblings sib) \<and>
      (\<exists>w \<in> set (r_writes prior). \<exists>rd \<in> set (bi_reads this). matchReadWrite rd w)"
  then obtain sib prior where sib: "map_of plan sib = Some prior" "sib \<noteq> bi_slug this"
    "paths_unrelated (bi_path this) (plan_path siblings sib)"
    and hit: "{w \<in> set (r_writes prior). \<exists>rd \<in> set (bi_reads this). matchReadWrite rd w} \<noteq> {}"
    by blast
  let ?ps = "sorted_list_of_set {w \<in> set (r_writes prior). \<exists>rd \<in> set (bi_reads this). matchReadWrite rd w}"
  have "\<lparr>bo_sibling = sib, bo_paths = ?ps\<rparr> \<in> set (r_blockedOn (runBrickF1 this siblings (Some plan)))"
    unfolding runBrickF1_blockedOn [OF assms] using sib hit by simp
  then show "r_status (runBrickF1 this siblings (Some plan)) = ''blocked''"
    by (auto simp: runBrickF1_status)
qed

text \<open>
  C21 (\<open>runBrickF1\<close>). The self-check blocks a brick exactly when a sibling of the snapshot,
  not above or below it, wrote a path that one of the brick's reads matches; it names
  exactly these siblings, each once and in order, with exactly the paths concerned.
\<close>

theorem runBrickF1_blocked_iff:
  fixes this :: brick_info and siblings :: bricks
  assumes "wf_map plan"
  defines "r \<equiv> runBrickF1 this siblings (Some plan)"
  shows "(\<lparr>bo_sibling = sib, bo_paths = ps\<rparr> \<in> set (r_blockedOn r) \<longleftrightarrow>
      sib \<noteq> bi_slug this \<and> paths_unrelated (bi_path this) (plan_path siblings sib) \<and>
      ps \<noteq> [] \<and> sorted ps \<and> distinct ps \<and>
      (\<exists>prior. map_of plan sib = Some prior \<and>
        set ps = {w \<in> set (r_writes prior). \<exists>rd \<in> set (bi_reads this). matchReadWrite rd w}))
    \<and> r_status r = (if r_blockedOn r = [] then ''idempotent'' else ''blocked'')"
  unfolding r_def by (intro conjI runBrickF1_blockedOn [OF assms(1)] runBrickF1_status)

definition sample_this :: brick_info where
  "sample_this = \<lparr>bi_path = ''a'', bi_slug = ''a'', bi_kind = ''component'', bi_reads = [''lib/*.cue''], bi_shared = None\<rparr>"

theorem runBrickF1_blocked_iff_witness:
  "r_status (runBrickF1 sample_this [] (Some [(''b'', empty_result\<lparr>r_writes := [''lib/x.cue'']\<rparr>)])) = ''blocked''
   \<and> sorted [''lib/x.cue'']"
proof -
  let ?plan = "[(''b'', empty_result\<lparr>r_writes := [''lib/x.cue'']\<rparr>)]"
  have blocked: "r_blockedOn (runBrickF1 sample_this [] (Some ?plan)) = [\<lparr>bo_sibling = ''b'', bo_paths = [''lib/x.cue'']\<rparr>]"
    by code_simp
  have "wf_map ?plan"
    by (simp add: wf_map_def)
  from runBrickF1_blocked_iff [OF this, of "''b''" "[''lib/x.cue'']" sample_this "[]"] show ?thesis
    by (simp add: blocked)
qed

section \<open>The generator cycle of one brick\<close>

interpretation gencyc: bounded_loop "subset_loop env workDir brickPath gens" "subset_pass env workDir brickPath gens"
  "\<lambda>w. (w, Inr \<lparr>Converged = False, Dirty = False, OutOfLane = []\<rparr>)"
  for env :: "'w brick_env" and workDir brickPath gens
  by unfold_locales simp_all

text \<open>
  What one iteration does when it does not fail: the generators and \<open>git add\<close> lead to
  the world \<open>w\<close>, with the tracked files \<open>changed\<close> new or newer.
\<close>

definition subset_run :: "'w brick_env \<Rightarrow> string \<Rightarrow> string list \<Rightarrow> 'w \<Rightarrow> 'w \<Rightarrow> string list \<Rightarrow> bool" where
  "subset_run env workDir gens w0 w changed \<longleftrightarrow>
     (\<exists>before w1. snapshotMtimes (be_hatch env workDir) w0 = Some before \<and> run_subset env gens w0 = (w1, None) \<and>
        he_git_add (be_hatch env workDir) w1 = (w, None) \<and>
        changed = mtimeChanges (be_hatch env workDir) w (Some before))"

lemma subset_pass_cases:
  "subset_pass env workDir bp gens w0 = Inr w \<longleftrightarrow>
     (\<exists>changed. subset_run env workDir gens w0 w changed \<and> changed \<noteq> [] \<and> PathsOutsideBrick changed bp = [])"
  "subset_pass env workDir bp gens w0 = Inl (w, Inr r) \<longleftrightarrow>
     (\<exists>changed. subset_run env workDir gens w0 w changed \<and>
        (PathsOutsideBrick changed bp \<noteq> [] \<and> r = \<lparr>Converged = False, Dirty = True, OutOfLane = PathsOutsideBrick changed bp\<rparr>
         \<or> changed = [] \<and> r = \<lparr>Converged = True, Dirty = False, OutOfLane = []\<rparr>))"
proof -
  have [simp]: "PathsOutsideBrick [] bp = []"
    by (simp add: PathsOutsideBrick_def)
  show "subset_pass env workDir bp gens w0 = Inr w \<longleftrightarrow>
     (\<exists>changed. subset_run env workDir gens w0 w changed \<and> changed \<noteq> [] \<and> PathsOutsideBrick changed bp = [])"
    by (auto simp: subset_pass_def subset_run_def Let_def split: option.splits prod.splits)
  show "subset_pass env workDir bp gens w0 = Inl (w, Inr r) \<longleftrightarrow>
     (\<exists>changed. subset_run env workDir gens w0 w changed \<and>
        (PathsOutsideBrick changed bp \<noteq> [] \<and> r = \<lparr>Converged = False, Dirty = True, OutOfLane = PathsOutsideBrick changed bp\<rparr>
         \<or> changed = [] \<and> r = \<lparr>Converged = True, Dirty = False, OutOfLane = []\<rparr>))"
    by (auto simp: subset_pass_def subset_run_def Let_def split: option.splits prod.splits)
qed

text \<open>
  \<open>runGenSubsetCycle\<close>: When the cycle of a brick's generators does not fail, it has
  one of three outcomes: it converged, and its last iteration changed no tracked file;
  it is dirty, and its last iteration changed exactly the reported files outside the
  brick; or it is neither, and each of the allowed iterations changed some file, all of
  them inside the brick.
\<close>

theorem runGenSubsetCycle_outcome:
  fixes env :: "'w brick_env"
  assumes "runGenSubsetCycle env workDir bp gens w = (w', Inr r)"
  defines "n \<equiv> nat (resolveMaxCycleIterations (be_max_env env))"
    and "after \<equiv> \<lambda>k. iter_pass (subset_pass env workDir bp gens) k w"
  shows "(\<exists>k w1 changed. k < n \<and> after k = Some w1 \<and> subset_run env workDir gens w1 w' changed \<and>
      (changed = [] \<and> r = \<lparr>Converged = True, Dirty = False, OutOfLane = []\<rparr> \<or>
       PathsOutsideBrick changed bp \<noteq> [] \<and> r = \<lparr>Converged = False, Dirty = True, OutOfLane = PathsOutsideBrick changed bp\<rparr>))
    \<or> after n = Some w' \<and> r = \<lparr>Converged = False, Dirty = False, OutOfLane = []\<rparr>"
proof -
  have "subset_loop env workDir bp gens n w = (w', Inr r)"
    using assms(1) by (simp add: runGenSubsetCycle_def n_def split: option.splits)
  then show ?thesis
    by (cases rule: gencyc.loop_cases [of n env workDir bp gens w])
      (auto simp: after_def subset_pass_cases)
qed

section \<open>The brick's result\<close>

lemma brick_gen_stage_result:
  assumes "brick_gen_stage env workDir this result w = (w', Inr r)"
  shows "r = result\<lparr>r_status := ''dirty''\<rparr> \<or> r = result\<lparr>r_status := ''not-converged''\<rparr> \<or>
    (\<exists>fp. fingerprintBrick env workDir (bi_path this) w' = Some fp \<and> r = result\<lparr>r_fingerprint := fp\<rparr>)"
  using assms unfolding brick_gen_stage_def
  by (auto split: option.splits prod.splits sum.splits if_splits)

text \<open>The brick that was asked for, resolved in the lattice of the work directory.\<close>

definition brick_request :: "'w brick_env \<Rightarrow> cycle_brick_opts \<Rightarrow> 'w \<Rightarrow> string \<Rightarrow> bricks \<Rightarrow> brick_info \<Rightarrow> dispatch_plan \<Rightarrow> bool" where
  "brick_request env opts w workDir bricks this plan \<longleftrightarrow>
     (if o_workDir opts = '''' then be_root env else Some (o_workDir opts)) = Some workDir \<and>
     loadBricksShard env workDir w = Some bricks \<and> resolveBrick bricks (o_brick opts) = Some this \<and>
     be_plan env (o_sinceSnapshot opts) w = Some plan"

lemma cycle_brick_result_stages:
  assumes "cycle_brick_result env opts w = (w', Inr r)"
  obtains workDir bricks this plan where "brick_request env opts w workDir bricks this plan"
    and "if r_status (runBrickF1 this bricks (Some plan)) = ''blocked''
         then w' = w \<and> r = runBrickF1 this bricks (Some plan)
         else brick_gen_stage env workDir this (runBrickF1 this bricks (Some plan)) w = (w', Inr r)"
proof -
  from assms obtain workDir where dir: "(if o_workDir opts = '''' then be_root env else Some (o_workDir opts)) = Some workDir"
    unfolding cycle_brick_result_def by (auto split: option.splits if_splits)
  from assms dir obtain bricks where bricks: "loadBricksShard env workDir w = Some bricks"
    unfolding cycle_brick_result_def by (auto split: option.splits if_splits)
  from assms dir bricks obtain this where brk: "resolveBrick bricks (o_brick opts) = Some this"
    unfolding cycle_brick_result_def by (auto split: option.splits if_splits)
  from assms dir bricks brk obtain plan where plan: "be_plan env (o_sinceSnapshot opts) w = Some plan"
    unfolding cycle_brick_result_def by (auto split: option.splits if_splits)
  have "brick_request env opts w workDir bricks this plan"
    using dir bricks brk plan by (simp add: brick_request_def)
  moreover have "if r_status (runBrickF1 this bricks (Some plan)) = ''blocked''
         then w' = w \<and> r = runBrickF1 this bricks (Some plan)
         else brick_gen_stage env workDir this (runBrickF1 this bricks (Some plan)) w = (w', Inr r)"
    using assms unfolding cycle_brick_result_def dir bricks brk plan option.case Let_def
    by (auto split: if_splits)
  ultimately show thesis ..
qed

text \<open>
  \<open>CycleBrick\<close>: The result of a run that does not fail is about the brick asked for and
  has one of four statuses. When it is \<open>idempotent\<close>, nothing in the snapshot blocks the
  brick and the fingerprint is that of the brick's files as they are at the end; in the
  other cases there is no fingerprint. A blocked run has not changed the world.
  \<open>blockedOn\<close> is filled exactly when the status is \<open>blocked\<close>.
\<close>

theorem CycleBrick_status:
  assumes "cycle_brick_result env opts w = (w', Inr r)"
  shows "\<exists>workDir bricks this plan. brick_request env opts w workDir bricks this plan \<and>
     r_reads r = bi_reads this \<and> r_blockedOn r = r_blockedOn (runBrickF1 this bricks (Some plan)) \<and>
    ((r_status r = ''blocked'' \<and> w' = w \<and> r_blockedOn r \<noteq> [] \<and> r_fingerprint r = '''')
    \<or> (r_status r = ''idempotent'' \<and> r_blockedOn r = [] \<and>
        fingerprintBrick env workDir (bi_path this) w' = Some (r_fingerprint r))
    \<or> (r_status r \<in> {''dirty'', ''not-converged''} \<and> r_blockedOn r = [] \<and> r_fingerprint r = ''''))"
proof -
  from assms obtain workDir bricks this plan where request: "brick_request env opts w workDir bricks this plan"
    and stage: "if r_status (runBrickF1 this bricks (Some plan)) = ''blocked''
         then w' = w \<and> r = runBrickF1 this bricks (Some plan)
         else brick_gen_stage env workDir this (runBrickF1 this bricks (Some plan)) w = (w', Inr r)"
    by (rule cycle_brick_result_stages)
  let ?f1 = "runBrickF1 this bricks (Some plan)"
  have f1: "r_fingerprint ?f1 = ''''" "r_reads ?f1 = bi_reads this"
    "r_status ?f1 = (if r_blockedOn ?f1 = [] then ''idempotent'' else ''blocked'')"
    by (simp_all add: runBrickF1_def Let_def empty_result_def)
  have "r_reads r = bi_reads this \<and> r_blockedOn r = r_blockedOn ?f1 \<and>
    ((r_status r = ''blocked'' \<and> w' = w \<and> r_blockedOn r \<noteq> [] \<and> r_fingerprint r = '''')
    \<or> (r_status r = ''idempotent'' \<and> r_blockedOn r = [] \<and>
        fingerprintBrick env workDir (bi_path this) w' = Some (r_fingerprint r))
    \<or> (r_status r \<in> {''dirty'', ''not-converged''} \<and> r_blockedOn r = [] \<and> r_fingerprint r = ''''))"
  proof (cases "r_blockedOn ?f1 = []")
    case False
    with stage f1 show ?thesis by simp
  next
    case True
    with stage f1 have "brick_gen_stage env workDir this ?f1 w = (w', Inr r)"
      by simp
    from brick_gen_stage_result [OF this] True f1 show ?thesis
      by auto
  qed
  with request show ?thesis
    by blast
qed

text \<open>
  \<open>findWorkspaceRoot\<close>: The search always ends. It returns the nearest directory, going
  up from the current one, that holds \<open>cue.mod/module.cue\<close>, and fails exactly when no
  directory on the way up holds it.
\<close>

theorem findWorkspaceRoot_nearest:
  "(findWorkspaceRoot exists dir = Some r \<longleftrightarrow>
     (\<exists>n. r = (fp_dir ^^ n) dir \<and> exists (fp_join [r, ''cue.mod'', ''module.cue'']) \<and>
        (\<forall>m < n. \<not> exists (fp_join [(fp_dir ^^ m) dir, ''cue.mod'', ''module.cue'']))))
   \<and> (findWorkspaceRoot exists dir = None \<longleftrightarrow>
     (\<forall>n. \<not> exists (fp_join [(fp_dir ^^ n) dir, ''cue.mod'', ''module.cue''])))"
proof -
  let ?here = "\<lambda>d. exists (fp_join [d, ''cue.mod'', ''module.cue''])"
  have found: "\<exists>n. r = (fp_dir ^^ n) dir \<and> ?here r \<and> (\<forall>m < n. \<not> ?here ((fp_dir ^^ m) dir))"
    if "findWorkspaceRoot exists dir = Some r" for r dir
    using that
  proof (induction exists dir rule: findWorkspaceRoot.induct)
    case (1 exists dir)
    show ?case
    proof (cases "exists (fp_join [dir, ''cue.mod'', ''module.cue''])")
      case True
      with 1(2) have "r = dir"
        by (simp add: findWorkspaceRoot.simps [of exists dir])
      with True show ?thesis
        by (intro exI [of _ 0]) simp
    next
      case False
      with 1(2) have "fp_dir dir \<noteq> dir" and "findWorkspaceRoot exists (fp_dir dir) = Some r"
        by (auto simp: findWorkspaceRoot.simps [of exists dir] Let_def split: if_splits)
      from 1(1) [OF False refl this] obtain n where
        n: "r = (fp_dir ^^ n) (fp_dir dir)" "exists (fp_join [r, ''cue.mod'', ''module.cue''])"
        "\<forall>m < n. \<not> exists (fp_join [(fp_dir ^^ m) (fp_dir dir), ''cue.mod'', ''module.cue''])"
        by blast
      have "\<not> exists (fp_join [(fp_dir ^^ m) dir, ''cue.mod'', ''module.cue''])" if "m < Suc n" for m
        using n(3) False that by (cases m) (auto simp: funpow_swap1)
      with n show ?thesis
        by (intro exI [of _ "Suc n"]) (auto simp: funpow_swap1)
    qed
  qed
  have missing: "\<not> ?here ((fp_dir ^^ n) dir)" if "findWorkspaceRoot exists dir = None" for n dir
    using that
  proof (induction exists dir arbitrary: n rule: findWorkspaceRoot.induct)
    case (1 exists dir)
    then have here: "\<not> exists (fp_join [dir, ''cue.mod'', ''module.cue''])"
      by (auto simp: findWorkspaceRoot.simps [of exists dir])
    show ?case
    proof (cases "fp_dir dir = dir")
      case True
      then have "(fp_dir ^^ n) dir = dir"
        by (induction n) auto
      with here show ?thesis by simp
    next
      case False
      with 1(2) here have "findWorkspaceRoot exists (fp_dir dir) = None"
        by (simp add: findWorkspaceRoot.simps [of exists dir] Let_def)
      from 1(1) [OF here refl False this] here show ?thesis
        by (cases n) (auto simp: funpow_swap1)
    qed
  qed
  show ?thesis
  proof (intro conjI iffI allI)
    assume "\<exists>n. r = (fp_dir ^^ n) dir \<and> ?here r \<and> (\<forall>m < n. \<not> ?here ((fp_dir ^^ m) dir))"
    then obtain n where n: "r = (fp_dir ^^ n) dir" "?here r" "\<forall>m < n. \<not> ?here ((fp_dir ^^ m) dir)"
      by blast
    with missing obtain r' where r': "findWorkspaceRoot exists dir = Some r'"
      by (cases "findWorkspaceRoot exists dir") auto
    with found obtain n' where n': "r' = (fp_dir ^^ n') dir" "?here r'" "\<forall>m < n'. \<not> ?here ((fp_dir ^^ m) dir)"
      by blast
    have "n = n'"
      using n n' by (cases n n' rule: linorder_cases) auto
    with n n' r' show "findWorkspaceRoot exists dir = Some r"
      by simp
  next
    assume none: "\<forall>n. \<not> ?here ((fp_dir ^^ n) dir)"
    show "findWorkspaceRoot exists dir = None"
    proof (cases "findWorkspaceRoot exists dir")
      case (Some r)
      with found [OF Some] none show ?thesis by blast
    qed simp
  qed (use found missing in blast)+
qed

theorem findWorkspaceRoot_nearest_witness:
  "findWorkspaceRoot (\<lambda>p. p = ''/a/cue.mod/module.cue'') ''/a/b'' = Some ''/a''"
proof -
  have "fp_dir ''/a/b'' = ''/a''" "fp_join [''/a'', ''cue.mod'', ''module.cue''] = ''/a/cue.mod/module.cue''"
    "fp_join [''/a/b'', ''cue.mod'', ''module.cue''] \<noteq> ''/a/cue.mod/module.cue''"
    by code_simp+
  then have "\<exists>n. ''/a'' = (fp_dir ^^ n) ''/a/b'' \<and> fp_join [''/a'', ''cue.mod'', ''module.cue''] = ''/a/cue.mod/module.cue'' \<and>
      (\<forall>m < n. fp_join [(fp_dir ^^ m) ''/a/b'', ''cue.mod'', ''module.cue''] \<noteq> ''/a/cue.mod/module.cue'')"
    by (intro exI [of _ 1]) simp
  then show ?thesis
    using findWorkspaceRoot_nearest [of "\<lambda>p. p = ''/a/cue.mod/module.cue''" "''/a/b''" "''/a''"] by blast
qed

section \<open>A sample brick\<close>

text \<open>The brick \<open>a\<close> with one generator, which rewrites the tracked file \<open>a\<close> while the world counts down.\<close>

definition sample_brick_env :: "nat brick_env" where
  "sample_brick_env =
     \<lparr>be_root = Some ''/m'', be_raw_bricks = (\<lambda>_ _. Some [(''a'', sample_this)]), be_plan = (\<lambda>_ _. Some []),
      be_claims = (\<lambda>_ _. Some [(''g'', [''a''])]), be_hatch = (\<lambda>_. sample_env (Some ''a'')),
      be_generator = (\<lambda>name. if name = ''g'' then Some (\<lambda>w. (w - 1, None)) else None),
      be_ls_under = (\<lambda>_ _ _. Some ''a''), be_read = (\<lambda>_ _. Some ''x''), be_sha256 = (\<lambda>s. ''h''),
      be_write_result = (\<lambda>_ _ w. (w, None)), be_max_env = ''''\<rparr>"

lemma sample_pass:
  "subset_pass sample_brick_env ''/m'' ''a'' [''g''] 1 = Inr 0"
  "subset_pass sample_brick_env ''/m'' ''a'' [''g''] 0 = Inl (0, Inr \<lparr>Converged = True, Dirty = False, OutOfLane = []\<rparr>)"
  by code_simp+

lemma sample_cycle:
  "runGenSubsetCycle sample_brick_env ''/m'' ''a'' [''g''] 1 = (0, Inr \<lparr>Converged = True, Dirty = False, OutOfLane = []\<rparr>)"
proof -
  have "subset_loop sample_brick_env ''/m'' ''a'' [''g''] (Suc (Suc n)) 1 = (0, Inr \<lparr>Converged = True, Dirty = False, OutOfLane = []\<rparr>)" for n
    using sample_pass by simp
  then show ?thesis
    by (simp add: runGenSubsetCycle_def sample_brick_env_def sample_env_def resolveMaxCycleIterations_def
        MaxCycleIterations_def eval_nat_numeral)
qed

theorem runGenSubsetCycle_outcome_witness:
  "\<exists>k w1 changed. iter_pass (subset_pass sample_brick_env ''/m'' ''a'' [''g'']) k 1 = Some w1 \<and>
     subset_run sample_brick_env ''/m'' [''g''] w1 0 changed"
  using runGenSubsetCycle_outcome [OF sample_cycle] by (auto simp: genCycleResult.ext_inject)

lemma sample_result:
  "cycle_brick_result sample_brick_env \<lparr>o_brick = ''a'', o_sinceSnapshot = '''', o_resultOut = '''', o_workDir = ''''\<rparr> 1
     = (0, Inr (empty_result\<lparr>r_reads := [''lib/*.cue''], r_status := ''idempotent'', r_fingerprint := ''h''\<rparr>))"
proof -
  have bricks: "loadBricksShard sample_brick_env ''/m'' 1 = Some [(''a'', sample_this)]"
    by (simp add: loadBricksShard_def sample_brick_env_def index_bricks_def shard_slug_def sample_this_def Let_def)
  have f1: "runBrickF1 sample_this [(''a'', sample_this)] (Some [])
      = empty_result\<lparr>r_reads := [''lib/*.cue''], r_status := ''idempotent''\<rparr>"
    by code_simp
  have gens: "computeGenSubset sample_brick_env ''/m'' ''a'' 1 = Some [''g'']"
    and fp: "fingerprintBrick sample_brick_env ''/m'' ''a'' 0 = Some ''h''"
    by code_simp+
  have a: "bi_path sample_this = ''a''"
    by (simp add: sample_this_def)
  have "brick_gen_stage sample_brick_env ''/m'' sample_this
      (empty_result\<lparr>r_reads := [''lib/*.cue''], r_status := ''idempotent''\<rparr>) 1
    = (0, Inr (empty_result\<lparr>r_reads := [''lib/*.cue''], r_status := ''idempotent'', r_fingerprint := ''h''\<rparr>))"
    by (simp add: brick_gen_stage_def a gens [simplified] sample_cycle [simplified] fp)
  moreover have "be_root sample_brick_env = Some ''/m''" "be_plan sample_brick_env '''' w = Some []" for w
    by (simp_all add: sample_brick_env_def)
  ultimately show ?thesis
    using bricks f1 by (simp add: cycle_brick_result_def resolveBrick_def)
qed

theorem CycleBrick_status_witness:
  "\<exists>workDir bricks this plan. brick_request sample_brick_env
     \<lparr>o_brick = ''a'', o_sinceSnapshot = '''', o_resultOut = '''', o_workDir = ''''\<rparr> 1 workDir bricks this plan
   \<and> fingerprintBrick sample_brick_env workDir (bi_path this) 0 = Some ''h''"
  using CycleBrick_status [OF sample_result] by (auto simp: empty_result_def)

end
