(* ===== verification/Dispatch.thy ===== *)
theory Dispatch
  imports FanOut Acp Plan HatchBrick
begin

text \<open>
  \<open>Run\<close> of \<open>lib/dispatch/dispatch.go\<close>: one round of the dispatch coordinator, from the flags to
  the exit code, over the components it calls. The fan-out of \<open>FanOut\<close> is instantiated with the
  body of the goroutine; the order in which the goroutines move is the argument
  \<open>sched\<close> of \<open>Run\<close>, and \<open>Run\<close> is \<open>None\<close> on a schedule that stops before all of them have finished.
  Printed text is kept as the values that are printed; the elapsed times, and the sum of the
  costs (a sum of \<open>float64\<close>), are not modelled.
\<close>

section \<open>Configuration\<close>

record config =
  cf_Target :: string
  cf_Bricks :: "string list"
  cf_All :: bool
  cf_Parallel :: int
  cf_PlanOut :: string
  cf_PlanOnly :: bool
  cf_Worktree :: bool
  cf_ACPPrompt :: string
  cf_PlansDir :: string
  cf_ACPBridge :: "string list"

text \<open>
  The surroundings: subprocesses, the protocol library, what a brick's cycle reads, the number of
  processors, the time stamp that names the run, and the JSON and CUE codecs.
\<close>

record dispatch_env =
  d_sys :: sys
  d_sdk :: acp_sdk
  d_brick :: "world brick_env"
  d_numCPU :: int
  d_runID :: string
  d_enc_plan :: "dispatch_plan \<Rightarrow> string"
  d_dec_plan :: "string \<Rightarrow> dispatch_plan option"
  d_enc_result :: "brick_result \<Rightarrow> string"
  d_dec_result :: "string \<Rightarrow> brick_result option"
  d_enc_partition :: "partition \<Rightarrow> string"

datatype dispatch_error =
    NoMode | ManyModes | MkdirRun string | NoRoot | NoLattice | NoComponents | PlanFailed string
  | WritePartition | CreateFailed string lane_error | WritePlan

definition modes :: "config \<Rightarrow> nat" where
  "modes cfg = of_bool (cf_Target cfg \<noteq> '''') + of_bool (cf_Bricks cfg \<noteq> []) + of_bool (cf_All cfg)"

definition clamp_parallel :: "int \<Rightarrow> int \<Rightarrow> int" where
  "clamp_parallel numCPU p =
     (let p = (if p < 1 then 1 else p) in if p > numCPU * 4 then numCPU * 4 else p)"

definition run_dir :: "dispatch_env \<Rightarrow> string" where
  "run_dir env = fp_join [''.defn'', ''dispatch'', d_runID env]"

definition snap_path :: "dispatch_env \<Rightarrow> string \<Rightarrow> string" where
  "snap_path env slug = fp_join [fp_join [run_dir env, ''snapshots''], slug @ ''.cue'']"

definition result_path :: "dispatch_env \<Rightarrow> string \<Rightarrow> string" where
  "result_path env slug = fp_join [fp_join [run_dir env, ''results''], slug @ ''.cue'']"

section \<open>The bricks of the round\<close>

definition select_bricks :: "dispatch_env \<Rightarrow> config \<Rightarrow> string \<Rightarrow> bricks \<Rightarrow> world \<Rightarrow> dispatch_error + string list" where
  "select_bricks env cfg workDir allBricks w =
     (if cf_All cfg then
        if cf_PlanOnly cfg then Inr (sort (cf_Bricks cfg @ filter (\<lambda>slug. slug \<noteq> '''') (keys allBricks)))
        else (case loadBricksShard (d_brick env) workDir w of
                None \<Rightarrow> Inl NoComponents
              | Some bricks \<Rightarrow> Inr (AllComponentSlugs bricks))
      else if cf_Target cfg \<noteq> '''' then
        (case Plan (cf_Target cfg) allBricks of Inl t \<Rightarrow> Inl (PlanFailed t) | Inr involved \<Rightarrow> Inr involved)
      else Inr (cf_Bricks cfg))"

section \<open>Plan only\<close>

definition plan_subset :: "bricks \<Rightarrow> string list \<Rightarrow> bricks" where
  "plan_subset allBricks slugs =
     foldl (\<lambda>subset' slug. case map_of allBricks slug of Some b \<Rightarrow> AList.update slug b subset' | None \<Rightarrow> subset') [] slugs"

definition writePartitionCUE :: "(partition \<Rightarrow> string) \<Rightarrow> (string \<Rightarrow> bool) \<Rightarrow> string \<Rightarrow> partition \<Rightarrow> gofs \<Rightarrow> gofs option" where
  "writePartitionCUE encode mkdir path p fs =
     (let dir = fp_dir path in
      if dir \<noteq> ''.'' \<and> dir \<noteq> '''' \<and> \<not> mkdir dir then None
      else WriteFile path (encode p @ [newline]) 420 fs)"

record plan_report =
  pr_scope :: nat
  pr_shared :: nat
  pr_agents :: nat
  pr_groups :: "(string \<times> nat) list"
  pr_candidates :: "sharedCandidate list"

definition report_partition :: "bricks \<Rightarrow> partition \<Rightarrow> plan_report" where
  "report_partition sub p =
     \<lparr>pr_scope = length sub, pr_shared = length (Shared p), pr_agents = AgentCount p,
      pr_groups = map (\<lambda>k. (k, length (get_or [] (Groups p) k))) (sort (keys (Groups p))),
      pr_candidates = suggestSharedCandidates p 8\<rparr>"

definition run_plan_only :: "dispatch_env \<Rightarrow> config \<Rightarrow> bricks \<Rightarrow> string list \<Rightarrow> world \<Rightarrow> world \<times> (dispatch_error + plan_report)" where
  "run_plan_only env cfg allBricks slugs w =
     (let sub = plan_subset allBricks slugs;
          partition = PartitionBricks sub;
          planOut = (if cf_PlanOut cfg = '''' then fp_join [run_dir env, ''partition.cue''] else cf_PlanOut cfg)
      in case writePartitionCUE (d_enc_partition env) (s_mkdir (d_sys env)) planOut partition (w_fs w) of
           None \<Rightarrow> (w, Inl WritePartition)
         | Some fs \<Rightarrow> (w\<lparr>w_fs := fs\<rparr>, Inr (report_partition sub partition)))"

section \<open>Worktrees\<close>

type_synonym worktrees = "(string, worktree) gomap"

fun remove_worktrees :: "sys \<Rightarrow> string \<Rightarrow> worktrees \<Rightarrow> world \<Rightarrow> world" where
  "remove_worktrees s workDir [] w = w"
| "remove_worktrees s workDir ((slug, wt) # rest) w = remove_worktrees s workDir rest (fst (RemoveWorktree s workDir wt w))"

fun create_worktrees :: "sys \<Rightarrow> string \<Rightarrow> string \<Rightarrow> string list \<Rightarrow> worktrees \<Rightarrow> world \<Rightarrow> world \<times> (dispatch_error + worktrees)" where
  "create_worktrees s workDir runID [] wts w = (w, Inr wts)"
| "create_worktrees s workDir runID (slug # rest) wts w =
     (case CreateWorktree s workDir runID slug w of
        (w1, Inl e) \<Rightarrow> (remove_worktrees s workDir wts w1, Inl (CreateFailed slug e))
      | (w1, Inr wt) \<Rightarrow> create_worktrees s workDir runID rest (AList.update slug wt wts) w1)"

section \<open>The body of the goroutine\<close>

datatype brick_failure =
    SnapshotWrite | ACPNeedsWorktree | AgentErr acp_error | CommitErr lane_error | CycleErr brick_error | ResultErr load_error

text \<open>The per-brick cycle reads the snapshot and writes the result in the files of \<open>snapshot.go\<close>.\<close>

definition brick_env_of :: "dispatch_env \<Rightarrow> world brick_env" where
  "brick_env_of env =
     (d_brick env)\<lparr>
       be_plan := (\<lambda>p w. case LoadDispatchPlan (d_dec_plan env) (w_fs w) p of Inl _ \<Rightarrow> None | Inr plan \<Rightarrow> Some plan),
       be_write_result := (\<lambda>p r w. case WriteResultCUE (d_enc_result env) p r (w_fs w) of
          None \<Rightarrow> (w, Some ''write'') | Some fs \<Rightarrow> (w\<lparr>w_fs := fs\<rparr>, None))\<rparr>"

definition fileExists :: "gofs \<Rightarrow> string \<Rightarrow> bool" where
  "fileExists fs p \<longleftrightarrow> fs_files fs p \<noteq> None"

definition resolve_plans_dir :: "config \<Rightarrow> string \<Rightarrow> string" where
  "resolve_plans_dir cfg workDir =
     (let plansDir = (if cf_PlansDir cfg = '''' then fp_join [workDir, ''.defn'', ''dispatch'', ''plans''] else cf_PlansDir cfg)
      in if fp_is_abs plansDir then plansDir else fp_join [workDir, plansDir])"

text \<open>The plan file of the brick is mirrored into the agent's worktree; failures are ignored.\<close>

definition mirror_plan :: "string \<Rightarrow> string \<Rightarrow> string \<Rightarrow> world \<Rightarrow> world" where
  "mirror_plan plansDir agentPlansDir slug w =
     (let src = fp_join [plansDir, slug @ ''.md'']; dst = fp_join [agentPlansDir, slug @ ''.md''] in
      if \<not> fileExists (w_fs w) src then w
      else case ReadFile (w_fs w) src of
        ReadData d \<Rightarrow> (case WriteFile dst d 420 (w_fs w) of None \<Rightarrow> w | Some fs \<Rightarrow> w\<lparr>w_fs := fs\<rparr>)
      | _ \<Rightarrow> w)"

definition agent_result :: "agentRunInfo \<Rightarrow> string \<Rightarrow> brick_result" where
  "agent_result info logPath =
     zero_result\<lparr>r_status := ''idempotent'', r_sessionID := ri_SessionID info, r_logPath := logPath,
       r_tokensInput := ri_InputTokens info, r_tokensOutput := ri_OutputTokens info,
       r_tokensCacheRead := ri_CacheReadTokens info, r_tokensCacheWrite := ri_CacheWriteTokens info,
       r_tokensThought := ri_ThoughtTokens info, r_tokensTotal := ri_TotalTokens info,
       r_costAmount := ri_CostAmount info, r_costCurrency := ri_CostCurrency info\<rparr>"

definition run_agent :: "dispatch_env \<Rightarrow> config \<Rightarrow> string \<Rightarrow> string \<Rightarrow> string \<Rightarrow> world \<Rightarrow> world \<times> brick_failure option" where
  "run_agent env cfg workDir agentWorkDir slug w =
     (let logPath = fp_join [run_dir env, ''logs'', slug @ ''.log''];
          bridge = (if cf_ACPBridge cfg = [] then [''claude-agent-acp''] else cf_ACPBridge cfg);
          agentPlansDir = fp_join [agentWorkDir, ''.defn'', ''dispatch'', ''plans''];
          w1 = mirror_plan (resolve_plans_dir cfg workDir) agentPlansDir slug w
      in case runAgentACP (d_sys env) (d_sdk env) bridge (cf_ACPPrompt cfg) slug (d_runID env) agentWorkDir logPath agentPlansDir w1 of
           (w2, info, Some e) \<Rightarrow> (w2, Some (AgentErr e))
         | (w2, info, None) \<Rightarrow>
             (case autoCommitWorktree (d_sys env) agentWorkDir slug w2 of
                (w3, Some e) \<Rightarrow> (w3, Some (CommitErr e))
              | (w3, None) \<Rightarrow>
                  ((case WriteResultCUE (d_enc_result env) (result_path env slug) (agent_result info logPath) (w_fs w3) of
                      None \<Rightarrow> w3 | Some fs \<Rightarrow> w3\<lparr>w_fs := fs\<rparr>), None)))"

definition run_brick :: "dispatch_env \<Rightarrow> config \<Rightarrow> string \<Rightarrow> worktrees \<Rightarrow> string \<Rightarrow> world \<Rightarrow> world \<times> brick_failure option" where
  "run_brick env cfg workDir wts slug w =
     (let agentWorkDir = (case map_of wts slug of Some wt \<Rightarrow> wt_AgentWorkDir wt | None \<Rightarrow> '''') in
      if cf_ACPPrompt cfg \<noteq> '''' then
        if agentWorkDir = '''' then (w, Some ACPNeedsWorktree)
        else run_agent env cfg workDir agentWorkDir slug w
      else case CycleBrick (brick_env_of env)
          \<lparr>o_brick = slug, o_sinceSnapshot = snap_path env slug, o_resultOut = result_path env slug, o_workDir = agentWorkDir\<rparr> w of
        (w1, e) \<Rightarrow> (w1, map_option CycleErr e))"

definition ops_of :: "dispatch_env \<Rightarrow> config \<Rightarrow> string \<Rightarrow> worktrees \<Rightarrow> (world, brick_failure) fan_ops" where
  "ops_of env cfg workDir wts =
     \<lparr>fo_write = (\<lambda>slug snapshot w.
        case WritePlanCUE (d_enc_plan env) (snap_path env slug) snapshot (w_fs w) of
          None \<Rightarrow> (w, Some SnapshotWrite) | Some fs \<Rightarrow> (w\<lparr>w_fs := fs\<rparr>, None)),
      fo_run = run_brick env cfg workDir wts,
      fo_load = (\<lambda>slug w. case LoadBrickResult (d_dec_result env) (w_fs w) (result_path env slug) of
          Inl e \<Rightarrow> Inl (ResultErr e) | Inr r \<Rightarrow> Inr r)\<rparr>"

section \<open>Results and lanes\<close>

definition tally_step :: "(string, nat) gomap \<times> bool \<Rightarrow> 'e brickOutcome \<Rightarrow> (string, nat) gomap \<times> bool" where
  "tally_step = (\<lambda>(counts, failed) (slug, x). case x of
     Inl e \<Rightarrow> (AList.update ''error'' (get_or 0 counts ''error'' + 1) counts, True)
   | Inr r \<Rightarrow> (AList.update (r_status r) (get_or 0 counts (r_status r) + 1) counts, failed \<or> r_status r \<noteq> ''idempotent''))"

definition tally :: "'e brickOutcome list \<Rightarrow> (string, nat) gomap \<times> bool" where
  "tally results = foldl tally_step ([], False) results"

record lanes =
  ln_world :: world
  ln_plan :: dispatch_plan
  ln_failed :: bool
  ln_merged :: nat
  ln_sidecars :: nat

definition reconcile_one :: "sys \<Rightarrow> string \<Rightarrow> string \<Rightarrow> bricks \<Rightarrow> string \<Rightarrow> worktree \<Rightarrow> lanes \<Rightarrow> lanes" where
  "reconcile_one s workDir runID allBricks slug wt st =
     (let brickPath = (case map_of allBricks slug of Some b \<Rightarrow> bi_path b | None \<Rightarrow> '''') in
      case reconcileLane s workDir runID wt brickPath (ln_world st) of
        (w, Inl e) \<Rightarrow> st\<lparr>ln_world := w, ln_failed := True\<rparr>
      | (w, Inr outcome) \<Rightarrow>
          let st1 = st\<lparr>ln_world := w, ln_merged := ln_merged st + of_bool (ro_merged outcome)\<rparr> in
          if ro_sidecarPath outcome = '''' then st1
          else st1\<lparr>ln_sidecars := ln_sidecars st + 1,
                   ln_plan := (case map_of (ln_plan st) slug of
                      Some br \<Rightarrow> AList.update slug (br\<lparr>r_outOfLanePatch := ro_sidecarPath outcome\<rparr>) (ln_plan st)
                    | None \<Rightarrow> ln_plan st)\<rparr>)"

definition reconcile_all :: "sys \<Rightarrow> string \<Rightarrow> string \<Rightarrow> bricks \<Rightarrow> worktrees \<Rightarrow> lanes \<Rightarrow> lanes" where
  "reconcile_all s workDir runID allBricks wts st =
     foldl (\<lambda>st slug. case map_of wts slug of Some wt \<Rightarrow> reconcile_one s workDir runID allBricks slug wt st | None \<Rightarrow> st)
       st (sort (keys wts))"

section \<open>The summary\<close>

record summary =
  su_bricks :: nat
  su_statuses :: "(nat \<times> string) list"
  su_resume :: "(string \<times> string \<times> string) list"
  su_sidecars :: "(string \<times> string) list"
  su_usage :: "string list"
  su_totals :: "int list"
  su_currency :: string

text \<open>The sorted slugs of the plan whose result satisfies a test, with their results.\<close>

definition slugs_where :: "(brick_result \<Rightarrow> bool) \<Rightarrow> dispatch_plan \<Rightarrow> (string \<times> brick_result) list" where
  "slugs_where P plan =
     map (\<lambda>slug. (slug, get_or zero_result plan slug)) (sort (map fst (filter (\<lambda>(slug, br). P br) plan)))"

definition usage_of :: "brick_result \<Rightarrow> int list" where
  "usage_of br = [r_tokensInput br, r_tokensOutput br, r_tokensCacheRead br, r_tokensCacheWrite br, r_tokensThought br, r_tokensTotal br]"

definition summarize :: "nat \<Rightarrow> (string, nat) gomap \<Rightarrow> dispatch_plan \<Rightarrow> summary" where
  "summarize n counts plan =
     (let usage = slugs_where (\<lambda>br. r_tokensTotal br > 0 \<or> r_costAmount br > 0) plan in
      \<lparr>su_bricks = n,
       su_statuses = map (\<lambda>s. (get_or 0 counts s, s))
         (filter (\<lambda>s. get_or 0 counts s > 0) [''idempotent'', ''blocked'', ''dirty'', ''not-converged'', ''error'']),
       su_resume = map (\<lambda>(slug, br). (r_sessionID br, slug, r_logPath br)) (slugs_where (\<lambda>br. r_sessionID br \<noteq> '''') plan),
       su_sidecars = map (\<lambda>(slug, br). (r_outOfLanePatch br, slug)) (slugs_where (\<lambda>br. r_outOfLanePatch br \<noteq> '''') plan),
       su_usage = map fst usage,
       su_totals = foldl (\<lambda>tot (slug, br). map2 (+) tot (usage_of br)) [0, 0, 0, 0, 0, 0] usage,
       su_currency = foldl (\<lambda>cur (slug, br). if r_costCurrency br \<noteq> '''' then r_costCurrency br else cur) '''' usage\<rparr>)"

section \<open>Run\<close>

datatype run_result = Refused dispatch_error | Planned plan_report | Dispatched summary bool

text \<open>The exit code.\<close>

definition exit_code :: "run_result \<Rightarrow> int" where
  "exit_code r = (case r of Refused _ \<Rightarrow> 2 | Planned _ \<Rightarrow> 0 | Dispatched _ failed \<Rightarrow> if failed then 1 else 0)"

text \<open>After the fan-out: the results, the lanes, the plan file and the summary.\<close>

definition run_finish :: "dispatch_env \<Rightarrow> config \<Rightarrow> string \<Rightarrow> bricks \<Rightarrow> string list \<Rightarrow> worktrees \<Rightarrow> (world, brick_failure) fan \<Rightarrow>
    world \<times> run_result" where
  "run_finish env cfg workDir allBricks slugs wts s =
     (case tally (f_results s) of (counts, failed) \<Rightarrow>
      let st0 = \<lparr>ln_world = f_world s, ln_plan = f_plan s, ln_failed = failed, ln_merged = 0, ln_sidecars = 0\<rparr>;
          st = (if cf_Worktree cfg then reconcile_all (d_sys env) workDir (d_runID env) allBricks wts st0 else st0);
          planOut = (if cf_PlanOut cfg = '''' then fp_join [run_dir env, ''plan.cue''] else cf_PlanOut cfg)
      in case WritePlanCUE (d_enc_plan env) planOut (ln_plan st) (w_fs (ln_world st)) of
           None \<Rightarrow> (ln_world st, Refused WritePlan)
         | Some fs \<Rightarrow> ((ln_world st)\<lparr>w_fs := fs\<rparr>, Dispatched (summarize (length slugs) counts (ln_plan st)) (ln_failed st)))"

text \<open>The dispatch proper; the deferred teardown of the worktrees runs on every return.\<close>

definition run_dispatch :: "dispatch_env \<Rightarrow> config \<Rightarrow> nat list \<Rightarrow> string \<Rightarrow> bricks \<Rightarrow> string list \<Rightarrow> world \<Rightarrow> (world \<times> run_result) option" where
  "run_dispatch env cfg sched workDir allBricks slugs w =
     (case (if cf_Worktree cfg then create_worktrees (d_sys env) workDir (d_runID env) slugs [] w else (w, Inr [])) of
        (w1, Inl e) \<Rightarrow> Some (w1, Refused e)
      | (w1, Inr wts) \<Rightarrow>
          let s = run_schedule (ops_of env cfg workDir wts) (nat (clamp_parallel (d_numCPU env) (cf_Parallel cfg))) slugs sched
                    (fan_init slugs w1)
          in if \<not> fan_done s then None
             else case run_finish env cfg workDir allBricks slugs wts s of
               (w2, r) \<Rightarrow> Some (remove_worktrees (d_sys env) workDir wts w2, r))"

definition Run :: "dispatch_env \<Rightarrow> config \<Rightarrow> nat list \<Rightarrow> world \<Rightarrow> (world \<times> run_result) option" where
  "Run env cfg sched w =
     (if modes cfg = 0 then Some (w, Refused NoMode)
      else if modes cfg > 1 then Some (w, Refused ManyModes)
      else case find (\<lambda>d. \<not> s_mkdir (d_sys env) d) [fp_join [run_dir env, ''snapshots''], fp_join [run_dir env, ''results'']] of
        Some d \<Rightarrow> Some (w, Refused (MkdirRun d))
      | None \<Rightarrow>
     (case be_root (d_brick env) of
        None \<Rightarrow> Some (w, Refused NoRoot)
      | Some workDir \<Rightarrow>
     (case loadBricksShard (d_brick env) workDir w of
        None \<Rightarrow> Some (w, Refused NoLattice)
      | Some allBricks \<Rightarrow>
     (case select_bricks env cfg workDir allBricks w of
        Inl e \<Rightarrow> Some (w, Refused e)
      | Inr slugs \<Rightarrow>
          if cf_PlanOnly cfg then
            (case run_plan_only env cfg allBricks slugs w of
               (w1, Inl e) \<Rightarrow> Some (w1, Refused e)
             | (w1, Inr report) \<Rightarrow> Some (w1, Planned report))
          else run_dispatch env cfg sched workDir allBricks slugs w))))"

section \<open>Teardown\<close>





section \<open>Results\<close>

definition outcome_status :: "'e + brick_result \<Rightarrow> string" where
  "outcome_status x = (case x of Inl _ \<Rightarrow> ''error'' | Inr r \<Rightarrow> r_status r)"

definition outcome_ok :: "'e + brick_result \<Rightarrow> bool" where
  "outcome_ok x \<longleftrightarrow> (\<exists>r. x = Inr r \<and> r_status r = ''idempotent'')"

lemma tally_step_eq:
  "tally_step (counts, failed) (slug, x) =
     (AList.update (outcome_status x) (get_or 0 counts (outcome_status x) + 1) counts, failed \<or> \<not> outcome_ok x)"
  by (cases x) (simp_all add: tally_step_def outcome_status_def outcome_ok_def)

lemma tally_fold:
  "foldl tally_step (counts, failed) results = (counts', failed') \<Longrightarrow>
    get_or 0 counts' st = get_or 0 counts st + length (filter (\<lambda>o'. outcome_status (snd o') = st) results) \<and>
    (failed' \<longleftrightarrow> failed \<or> (\<exists>o' \<in> set results. \<not> outcome_ok (snd o')))"
proof (induction results arbitrary: counts failed)
  case (Cons o' results)
  obtain slug x where o': "o' = (slug, x)" by force
  from Cons.IH [OF Cons.prems [unfolded o' foldl_Cons tally_step_eq]] show ?case
    by (auto simp: o' get_or_update)
qed simp

lemma tally_failed: "snd (tally results) \<longleftrightarrow> (\<exists>o' \<in> set results. \<not> outcome_ok (snd o'))"
  using tally_fold [of "[]" False results "fst (tally results)" "snd (tally results)"] by (simp add: tally_def)

section \<open>Lanes\<close>

text \<open>An earlier failure changes nothing of a lane but the flag.\<close>

lemma reconcile_one_failed:
  "reconcile_one s d r bs slug wt (st\<lparr>ln_failed := b\<rparr>) =
    (reconcile_one s d r bs slug wt (st\<lparr>ln_failed := False\<rparr>))
      \<lparr>ln_failed := b \<or> ln_failed (reconcile_one s d r bs slug wt (st\<lparr>ln_failed := False\<rparr>))\<rparr>"
proof -
  let ?bp = "case map_of bs slug of None \<Rightarrow> '''' | Some b \<Rightarrow> bi_path b"
  obtain w x where "reconcileLane s d r wt ?bp (ln_world st) = (w, x)" by force
  then show ?thesis
    by (cases x; cases "map_of (ln_plan st) slug") (simp_all add: reconcile_one_def Let_def)
qed

lemma foldl_flag:
  fixes f :: "lanes \<Rightarrow> 'x \<Rightarrow> lanes"
  assumes "\<And>st b x. f (st\<lparr>ln_failed := b\<rparr>) x =
      (f (st\<lparr>ln_failed := False\<rparr>) x)\<lparr>ln_failed := b \<or> ln_failed (f (st\<lparr>ln_failed := False\<rparr>) x)\<rparr>"
  shows "ln_failed (foldl f (st\<lparr>ln_failed := b\<rparr>) xs) \<longleftrightarrow> b \<or> ln_failed (foldl f (st\<lparr>ln_failed := False\<rparr>) xs)"
proof (induction xs arbitrary: st b)
  case (Cons x xs)
  let ?st = "f (st\<lparr>ln_failed := False\<rparr>) x"
  have step: "foldl f (st\<lparr>ln_failed := b\<rparr>) (x # xs) = foldl f (?st\<lparr>ln_failed := b \<or> ln_failed ?st\<rparr>) xs" for b
    unfolding foldl_Cons by (subst assms) (rule refl)
  show ?case
    unfolding step using Cons.IH [where st = ?st and b = "b \<or> ln_failed ?st"] Cons.IH [where st = ?st and b = "False \<or> ln_failed ?st"] by blast
qed simp

lemma reconcile_all_failed:
  "ln_failed (reconcile_all s d r bs wts (st\<lparr>ln_failed := b\<rparr>)) \<longleftrightarrow> b \<or> ln_failed (reconcile_all s d r bs wts (st\<lparr>ln_failed := False\<rparr>))"
  unfolding reconcile_all_def
proof (rule foldl_flag)
  fix st :: lanes and b slug
  let ?f = "\<lambda>st. case map_of wts slug of None \<Rightarrow> st | Some wt \<Rightarrow> reconcile_one s d r bs slug wt st"
  show "?f (st\<lparr>ln_failed := b\<rparr>) = (?f (st\<lparr>ln_failed := False\<rparr>))\<lparr>ln_failed := b \<or> ln_failed (?f (st\<lparr>ln_failed := False\<rparr>))\<rparr>"
  proof (cases "map_of wts slug")
    case (Some wt)
    show ?thesis
      unfolding Some option.case by (rule reconcile_one_failed)
  qed simp
qed

section \<open>The round as a whole\<close>

lemma clamp_parallel_pos: "1 \<le> numCPU \<Longrightarrow> 0 < nat (clamp_parallel numCPU p)"
  by (simp add: clamp_parallel_def Let_def)

text \<open>The stages of a round that came to the summary.\<close>

lemma Run_dispatched:
  assumes "Run env cfg sched w = Some (w', Dispatched su failed)"
  obtains workDir allBricks slugs where "loadBricksShard (d_brick env) workDir w = Some allBricks"
    "select_bricks env cfg workDir allBricks w = Inr slugs"
    "run_dispatch env cfg sched workDir allBricks slugs w = Some (w', Dispatched su failed)"
  using assms unfolding Run_def
  by (auto split: if_splits option.splits sum.splits prod.splits)

lemma run_dispatch_dispatched:
  assumes "run_dispatch env cfg sched workDir allBricks slugs w = Some (w', Dispatched su failed)"
  defines "K \<equiv> nat (clamp_parallel (d_numCPU env) (cf_Parallel cfg))"
  obtains wts w1 s w2 where
    "(if cf_Worktree cfg then create_worktrees (d_sys env) workDir (d_runID env) slugs [] w else (w, Inr [])) = (w1, Inr wts)"
    "s = run_schedule (ops_of env cfg workDir wts) K slugs sched (fan_init slugs w1)" "fan_done s"
    "run_finish env cfg workDir allBricks slugs wts s = (w2, Dispatched su failed)" "w' = remove_worktrees (d_sys env) workDir wts w2"
proof -
  let ?create = "if cf_Worktree cfg then create_worktrees (d_sys env) workDir (d_runID env) slugs [] w else (w, Inr [])"
  obtain w1 x where x: "?create = (w1, x)" by force
  then obtain wts where wts: "x = Inr wts"
    using assms(1) unfolding run_dispatch_def by (cases x) simp_all
  define s where "s = run_schedule (ops_of env cfg workDir wts) K slugs sched (fan_init slugs w1)"
  have step: "run_dispatch env cfg sched workDir allBricks slugs w =
      (if \<not> fan_done s then None else case run_finish env cfg workDir allBricks slugs wts s of
         (w2, r) \<Rightarrow> Some (remove_worktrees (d_sys env) workDir wts w2, r))"
    unfolding run_dispatch_def x wts by (simp add: s_def K_def Let_def)
  obtain w2 r where "run_finish env cfg workDir allBricks slugs wts s = (w2, r)" by force
  then show thesis
    using that [OF x [unfolded wts] s_def] assms(1) unfolding step by (auto split: if_splits)
qed

lemma run_finish_dispatched:
  assumes "run_finish env cfg workDir allBricks slugs wts s = (w2, Dispatched su failed)"
  shows "failed \<longleftrightarrow> (\<exists>o' \<in> set (f_results s). \<not> outcome_ok (snd o')) \<or>
      cf_Worktree cfg \<and> ln_failed (reconcile_all (d_sys env) workDir (d_runID env) allBricks wts
        \<lparr>ln_world = f_world s, ln_plan = f_plan s, ln_failed = False, ln_merged = 0, ln_sidecars = 0\<rparr>)"
    and "(n, st) \<in> set (su_statuses su) \<Longrightarrow> n = length (filter (\<lambda>o'. outcome_status (snd o') = st) (f_results s))"
proof -
  obtain counts f where t: "tally (f_results s) = (counts, f)" by force
  let ?st = "\<lambda>b. \<lparr>ln_world = f_world s, ln_plan = f_plan s, ln_failed = b, ln_merged = 0, ln_sidecars = 0\<rparr>"
  define st where "st = (if cf_Worktree cfg then reconcile_all (d_sys env) workDir (d_runID env) allBricks wts (?st f) else ?st f)"
  have su: "su = summarize (length slugs) counts (ln_plan st)" and failed: "failed = ln_failed st"
    using assms unfolding run_finish_def t prod.case Let_def st_def [symmetric] by (auto split: option.splits)
  have "f \<longleftrightarrow> (\<exists>o' \<in> set (f_results s). \<not> outcome_ok (snd o'))"
    using tally_failed [of "f_results s"] by (simp add: t)
  then show "failed \<longleftrightarrow> (\<exists>o' \<in> set (f_results s). \<not> outcome_ok (snd o')) \<or>
      cf_Worktree cfg \<and> ln_failed (reconcile_all (d_sys env) workDir (d_runID env) allBricks wts (?st False))"
    using reconcile_all_failed [of "d_sys env" workDir "d_runID env" allBricks wts, where st = "?st False" and b = f]
    by (simp add: failed st_def)
  show "n = length (filter (\<lambda>o'. outcome_status (snd o') = st) (f_results s))" if "(n, st) \<in> set (su_statuses su)" for n st
    using that tally_fold [OF t [unfolded tally_def], of st] by (auto simp: su summarize_def Let_def)
qed

section \<open>Properties\<close>

text \<open>
  C10 (\<open>Run\<close>). A round that came to its summary has collected one outcome from each selected
  brick, the counts it prints are the numbers of outcomes of each status, and it exits
  with 0 exactly when every brick came back \<open>idempotent\<close> and, with worktrees, every lane
  was reconciled without an error; otherwise it exits with 1.
\<close>

theorem Run_exit_code:
  assumes "1 \<le> d_numCPU env" and "Run env cfg sched w = Some (w', Dispatched su failed)"
  shows "\<exists>workDir allBricks slugs wts w1 s.
    loadBricksShard (d_brick env) workDir w = Some allBricks \<and> select_bricks env cfg workDir allBricks w = Inr slugs \<and>
    (fan_step (ops_of env cfg workDir wts) (nat (clamp_parallel (d_numCPU env) (cf_Parallel cfg))) slugs)\<^sup>*\<^sup>* (fan_init slugs w1) s \<and>
    mset (map fst (f_results s)) = mset slugs \<and>
    (\<forall>(n, status) \<in> set (su_statuses su). n = length (filter (\<lambda>o'. outcome_status (snd o') = status) (f_results s))) \<and>
    exit_code (Dispatched su failed) =
      (if (\<forall>o' \<in> set (f_results s). outcome_ok (snd o')) \<and>
          (cf_Worktree cfg \<longrightarrow> \<not> ln_failed (reconcile_all (d_sys env) workDir (d_runID env) allBricks wts
            \<lparr>ln_world = f_world s, ln_plan = f_plan s, ln_failed = False, ln_merged = 0, ln_sidecars = 0\<rparr>))
       then 0 else 1)"
proof -
  from Run_dispatched [OF assms(2)] obtain workDir allBricks slugs where sel:
    "loadBricksShard (d_brick env) workDir w = Some allBricks" "select_bricks env cfg workDir allBricks w = Inr slugs"
    and run: "run_dispatch env cfg sched workDir allBricks slugs w = Some (w', Dispatched su failed)" .
  let ?K = "nat (clamp_parallel (d_numCPU env) (cf_Parallel cfg))"
  from run_dispatch_dispatched [OF run] obtain wts w1 s w2 where
    s: "s = run_schedule (ops_of env cfg workDir wts) ?K slugs sched (fan_init slugs w1)" "fan_done s"
    and fin: "run_finish env cfg workDir allBricks slugs wts s = (w2, Dispatched su failed)" .
  have reach: "(fan_step (ops_of env cfg workDir wts) ?K slugs)\<^sup>*\<^sup>* (fan_init slugs w1) s"
    unfolding s(1) by (rule run_schedule_reach)
  from results_complete [OF reach clamp_parallel_pos [OF assms(1)] s(2)]
  have "mset (map fst (f_results s)) = mset slugs" .
  moreover have "\<forall>(n, status) \<in> set (su_statuses su). n = length (filter (\<lambda>o'. outcome_status (snd o') = status) (f_results s))"
    using run_finish_dispatched(2) [OF fin] by blast
  moreover have "exit_code (Dispatched su failed) =
      (if (\<forall>o' \<in> set (f_results s). outcome_ok (snd o')) \<and>
          (cf_Worktree cfg \<longrightarrow> \<not> ln_failed (reconcile_all (d_sys env) workDir (d_runID env) allBricks wts
            \<lparr>ln_world = f_world s, ln_plan = f_plan s, ln_failed = False, ln_merged = 0, ln_sidecars = 0\<rparr>))
       then 0 else 1)"
    using run_finish_dispatched(1) [OF fin] by (simp add: exit_code_def)
  ultimately show ?thesis
    using sel reach by (intro exI [of _ workDir] exI [of _ allBricks] exI [of _ slugs] exI [of _ wts] exI [of _ w1] exI [of _ s] conjI)
qed

text \<open>The schedule matters only to the dispatch proper.\<close>

lemma Run_cases:
  obtains x where "\<And>sched. Run env cfg sched w = Some x"
  | workDir allBricks slugs where "\<And>sched. Run env cfg sched w = run_dispatch env cfg sched workDir allBricks slugs w"
proof (cases "modes cfg = 1 \<and> (\<exists>workDir allBricks slugs. be_root (d_brick env) = Some workDir \<and>
    loadBricksShard (d_brick env) workDir w = Some allBricks \<and> select_bricks env cfg workDir allBricks w = Inr slugs) \<and>
    find (\<lambda>d. \<not> s_mkdir (d_sys env) d) [fp_join [run_dir env, ''snapshots''], fp_join [run_dir env, ''results'']] = None \<and> \<not> cf_PlanOnly cfg")
  case True
  then show ?thesis
    using that(2) by (auto simp: Run_def simp del: find.simps)
next
  case False
  then have "Run env cfg sched w = Run env cfg [] w \<and> Run env cfg [] w \<noteq> None" for sched
    unfolding Run_def by (auto simp del: find.simps split: option.split sum.split prod.split)
  then show ?thesis
    using that(1) by (metis not_None_eq)
qed

lemma run_dispatch_completes:
  assumes "1 \<le> d_numCPU env"
  shows "\<exists>more x. run_dispatch env cfg (sched @ more) workDir allBricks slugs w = Some x"
proof -
  let ?create = "if cf_Worktree cfg then create_worktrees (d_sys env) workDir (d_runID env) slugs [] w else (w, Inr [])"
  obtain w1 x where x: "?create = (w1, x)" by force
  show ?thesis
  proof (cases x)
    case (Inr wts)
    obtain more where "fan_done (run_schedule (ops_of env cfg workDir wts) (nat (clamp_parallel (d_numCPU env) (cf_Parallel cfg))) slugs
        (sched @ more) (fan_init slugs w1))"
      by (rule exE [OF schedule_completes [OF clamp_parallel_pos [OF assms]]])
    then show ?thesis
      unfolding run_dispatch_def x Inr by (intro exI [of _ more]) (simp add: Let_def split: prod.splits)
  qed (simp add: run_dispatch_def x)
qed

text \<open>
  C11 (\<open>Run\<close>). With at least one processor a round never hangs: however the goroutines were
  scheduled so far, the schedule can be continued to the end of the round.
\<close>

theorem Run_completes:
  assumes "1 \<le> d_numCPU env"
  shows "\<exists>more w' r. Run env cfg (sched @ more) w = Some (w', r) \<and> exit_code r \<in> {0, 1, 2}"
proof -
  have "\<exists>more x. Run env cfg (sched @ more) w = Some x"
    using run_dispatch_completes [OF assms] by (cases rule: Run_cases [of env cfg w]) auto
  then obtain more w' r where "Run env cfg (sched @ more) w = Some (w', r)"
    by force
  moreover have "exit_code r \<in> {0, 1, 2}"
    by (cases r) (simp_all add: exit_code_def)
  ultimately show ?thesis by blast
qed






section \<open>A sample round\<close>

text \<open>
  Two bricks: \<open>a\<close> reads the CUE files of \<open>lib\<close>, and \<open>b\<close> has written one of them. The codecs are constant: the
  result of each brick is that of \<open>b\<close>, and the plan holds it.
\<close>

definition sample_written :: brick_result where
  "sample_written = zero_result\<lparr>r_status := ''idempotent'', r_writes := [''lib/x.cue'']\<rparr>"

definition sample_hatch :: "world hatch_env" where
  "sample_hatch =
     \<lparr>he_workdir = ''/c'', he_init = None, he_gen = (\<lambda>w. (w, '''', None)), he_lattice = (\<lambda>w. (w, None)),
      he_sync = (\<lambda>_ w. (w, '''', None)), he_git_add = (\<lambda>w. (w, None)), he_ls_files = (\<lambda>w. Some ''''),
      he_mtime = (\<lambda>w f. None), he_write = (\<lambda>_ _ w. (w, None)), he_check_images = (\<lambda>_. None), he_check_bazel = (\<lambda>_. None)\<rparr>"

definition sample_round :: dispatch_env where
  "sample_round =
     \<lparr>d_sys = quiet_sys\<lparr>s_exec := (\<lambda>o1 w. (w_fs w, Some (if Args o1 ! 2 = ''--show-toplevel'' then ''/c'' else ''0'')))\<rparr>,
      d_sdk = \<lparr>sdk_start = (\<lambda>_ w. (w, False)), sdk_initialize = (\<lambda>w. (w, False)), sdk_newSession = (\<lambda>_ w. (w, None)),
        sdk_prompt = (\<lambda>_ _ w. (w, [], None))\<rparr>,
      d_brick =
        \<lparr>be_root = Some ''/c'',
         be_raw_bricks = (\<lambda>_ _. Some [(''a'', sample_this), (''b'', sample_this\<lparr>bi_path := ''b'', bi_slug := ''b'', bi_reads := []\<rparr>)]),
         be_plan = (\<lambda>_ _. Some []), be_claims = (\<lambda>_ _. Some []), be_hatch = (\<lambda>_. sample_hatch),
         be_generator = (\<lambda>_. None), be_ls_under = (\<lambda>_ _ _. Some ''''), be_read = (\<lambda>_ _. Some ''x''), be_sha256 = (\<lambda>s. ''h''),
         be_write_result = (\<lambda>_ _ w. (w, None)), be_max_env = ''''\<rparr>,
      d_numCPU = 1, d_runID = ''r'', d_enc_plan = (\<lambda>_. ''p''), d_dec_plan = (\<lambda>_. Some [(''b'', sample_written)]),
      d_enc_result = (\<lambda>_. ''q''), d_dec_result = (\<lambda>_. Some sample_written), d_enc_partition = (\<lambda>_. ''s'')\<rparr>"

definition sample_config :: config where
  "sample_config =
     \<lparr>cf_Target = '''', cf_Bricks = [''b'', ''a''], cf_All = False, cf_Parallel = 1, cf_PlanOut = '''', cf_PlanOnly = False,
      cf_Worktree = False, cf_ACPPrompt = '''', cf_PlansDir = '''', cf_ACPBridge = []\<rparr>"

lemma run_finish_plain:
  assumes "\<not> cf_Worktree cfg" and "cf_PlanOut cfg = ''''" and "\<not> fs_nowrite (w_fs (f_world s)) (fp_join [run_dir env, ''plan.cue''])"
  shows "\<exists>w2 su failed. run_finish env cfg workDir allBricks slugs wts s = (w2, Dispatched su failed)"
  using assms by (cases "tally (f_results s)") (simp add: run_finish_def Let_def WritePlanCUE_def writeJSON_def WriteFile_def)

abbreviation sample_fan :: "nat list \<Rightarrow> (world, brick_failure) fan" where
  "sample_fan sched \<equiv> run_schedule (ops_of sample_round sample_config ''/c'' []) 1 [''b'', ''a''] sched (fan_init [''b'', ''a''] sample_world)"

lemma sample_Run:
  assumes "fan_done (sample_fan sched)" and "\<not> fs_nowrite (w_fs (f_world (sample_fan sched))) (fp_join [run_dir sample_round, ''plan.cue''])"
  shows "\<exists>w' su failed. Run sample_round sample_config sched sample_world = Some (w', Dispatched su failed)"
proof -
  obtain B where B: "loadBricksShard (d_brick sample_round) ''/c'' sample_world = Some B"
    by (simp add: loadBricksShard_def sample_round_def)
  have cfg: "\<not> cf_Worktree sample_config" "\<not> cf_PlanOnly sample_config" "cf_PlanOut sample_config = ''''"
    "be_root (d_brick sample_round) = Some ''/c''" "s_mkdir (d_sys sample_round) d" for d
    by (simp_all add: sample_config_def sample_round_def quiet_sys_def)
  have K: "nat (clamp_parallel (d_numCPU sample_round) (cf_Parallel sample_config)) = 1" "modes sample_config = 1"
    by code_simp+
  have sel: "select_bricks sample_round sample_config ''/c'' B sample_world = Inr [''b'', ''a'']"
    by (simp add: select_bricks_def sample_config_def)
  obtain w2 su failed where "run_finish sample_round sample_config ''/c'' B [''b'', ''a''] [] (sample_fan sched) = (w2, Dispatched su failed)"
    using run_finish_plain [OF cfg(1,3) assms(2)] by blast
  with assms(1) have "run_dispatch sample_round sample_config sched ''/c'' B [''b'', ''a''] sample_world = Some (w2, Dispatched su failed)"
    unfolding run_dispatch_def K by (simp add: cfg Let_def)
  then show ?thesis
    unfolding Run_def K by (simp add: cfg B sel)
qed

theorem Run_exit_code_witness:
  "\<exists>w' su failed s. Run sample_round sample_config (replicate 8 0 @ replicate 8 1) sample_world = Some (w', Dispatched su failed) \<and>
    mset (map fst (f_results (s :: (world, brick_failure) fan))) = {#''a'', ''b''#}"
proof -
  let ?sched = "replicate 8 0 @ replicate 8 (1 :: nat)"
  have "fan_done (sample_fan ?sched)" "\<not> fs_nowrite (w_fs (f_world (sample_fan ?sched))) (fp_join [run_dir sample_round, ''plan.cue''])"
    by code_simp+
  from sample_Run [OF this] obtain w' su failed where run: "Run sample_round sample_config ?sched sample_world = Some (w', Dispatched su failed)"
    by blast
  have sel: "select_bricks sample_round sample_config workDir allBricks w = Inr [''b'', ''a'']" for workDir allBricks w
    by (simp add: select_bricks_def sample_config_def)
  have "1 \<le> d_numCPU sample_round"
    by (simp add: sample_round_def)
  from Run_exit_code [OF this run] obtain s :: "(world, brick_failure) fan" where
    "mset (map fst (f_results s)) = mset [''b'', ''a'']"
    unfolding sel by blast
  then have "mset (map fst (f_results s)) = {#''a'', ''b''#}"
    by (simp add: add_mset_commute)
  with run show ?thesis by blast
qed

theorem Run_completes_witness:
  "\<exists>more w' r. Run sample_round sample_config ([0] @ more) sample_world = Some (w', r)"
proof -
  have "1 \<le> d_numCPU sample_round"
    by (simp add: sample_round_def)
  from Run_completes [OF this] show ?thesis by blast
qed



end
