(* ===== verification/BrickCollision.thy ===== *)
theory BrickCollision
  imports BrickReads
begin

text \<open>
  \<open>lib/spec/brickcollision/brickcollision.go\<close>: the write-collision check of the brick
  set. The records are those of \<open>brickreads\<close> (the two packages declare the same
  shapes). \<open>pairs\<close> is the Go map of collisions keyed by the string \<open>A__B\<close>.
\<close>

section \<open>The model\<close>

record collision =
  co_pair :: string
  co_a :: string
  co_b :: string
  co_paths :: "string list"

definition collision_Format :: "collision \<Rightarrow> string" where
  "collision_Format c = co_pair c @ '' collide on: '' @ join '', '' (co_paths c)"

definition bc_isAncestor :: "(string, br_brick) gomap \<Rightarrow> string \<Rightarrow> string \<Rightarrow> bool" where
  "bc_isAncestor bricks a b =
     (case map_of bricks a of
        None \<Rightarrow> False
      | Some bA \<Rightarrow> (case map_of bricks b of
          None \<Rightarrow> False
        | Some bB \<Rightarrow> br_path bA \<noteq> '''' \<and> has_prefix (br_path bB) (br_path bA @ ''/'')))"

text \<open>The inverted index: for each written path the set of the bricks that write it.\<close>

definition byPath :: "(string, brick_io) gomap \<Rightarrow> (string, string list) gomap" where
  "byPath brickIO =
     foldl (\<lambda>m (slug, io). foldl (\<lambda>m p. add_to_set p slug m) m (io_writes io)) [] brickIO"

text \<open>The pairs \<open>i < j\<close> of the two counting loops, in their order.\<close>

fun index_pairs :: "'a list \<Rightarrow> ('a \<times> 'a) list" where
  "index_pairs [] = []"
| "index_pairs (x # xs) = map (Pair x) xs @ index_pairs xs"

definition pair_key :: "string \<Rightarrow> string \<Rightarrow> string" where
  "pair_key a b = a @ ''__'' @ b"

definition add_collision :: "string \<Rightarrow> string \<Rightarrow> string \<Rightarrow> (string, collision) gomap \<Rightarrow> (string, collision) gomap" where
  "add_collision p a b pairs =
     (let key = pair_key a b;
          c = (case map_of pairs key of
                 Some c \<Rightarrow> c
               | None \<Rightarrow> \<lparr>co_pair = key, co_a = a, co_b = b, co_paths = []\<rparr>)
      in AList.update key (c\<lparr>co_paths := co_paths c @ [p]\<rparr>) pairs)"

definition collide_path :: "(string, br_brick) gomap \<Rightarrow> (string, collision) gomap \<Rightarrow> string \<times> string list \<Rightarrow> (string, collision) gomap" where
  "collide_path bricks pairs = (\<lambda>(p, slugs).
     if length slugs < 2 then pairs
     else foldl (\<lambda>pairs (a, b).
         if bc_isAncestor bricks a b \<or> bc_isAncestor bricks b a then pairs
         else add_collision p a b pairs) pairs (index_pairs (sort slugs)))"

definition Check :: "(string, br_brick) gomap \<Rightarrow> (string, brick_io) gomap \<Rightarrow> collision list" where
  "Check bricks brickIO =
     (let pairs = foldl (collide_path bricks) [] (byPath brickIO)
      in map (\<lambda>k. let c = the (map_of pairs k) in c\<lparr>co_paths := sort (co_paths c)\<rparr>)
           (sort (keys pairs)))"

section \<open>The two copies of the ancestor test agree\<close>

text \<open>
  \<open>isAncestor\<close>: The predicate of \<open>brickcollision\<close> and its copy in \<open>brickreads\<close>
  are the same function, and both are the strict order of path components on bricks
  with a non-empty path.
\<close>

theorem bc_isAncestor_eq:
  "bc_isAncestor bricks a b = isAncestor bricks a b \<and>
   (isAncestor bricks a b \<longleftrightarrow> (\<exists>x y. map_of bricks a = Some x \<and> map_of bricks b = Some y \<and> br_path x \<noteq> '''' \<and>
      strict_prefix (split_on slash (br_path x)) (split_on slash (br_path y))))"
  by (auto simp: bc_isAncestor_def isAncestor_def ancestor_def [symmetric] ancestor_split_iff split: option.splits)

section \<open>The hits\<close>

lemma index_pairs_sorted:
  "sorted xs \<Longrightarrow> distinct xs \<Longrightarrow>
     (a, b) \<in> set (index_pairs xs) \<longleftrightarrow> a \<in> set xs \<and> b \<in> set xs \<and> a < (b :: 'a :: linorder)"
  by (induction xs) (auto simp: order_less_le)

lemma index_pairs_short: "length xs < 2 \<Longrightarrow> index_pairs xs = []"
  by (cases xs; cases "tl xs") auto

definition claims :: "(string, brick_io) gomap \<Rightarrow> string \<Rightarrow> string \<Rightarrow> bool" where
  "claims brickIO slug p \<longleftrightarrow> (\<exists>(s, io) \<in> set brickIO. s = slug \<and> p \<in> set (io_writes io))"

lemma byPath_fold:
  "byPath brickIO = foldl (\<lambda>m (k, w). add_to_set k w m) []
     (concat (map (\<lambda>(slug, io). map (\<lambda>p. (p, slug)) (io_writes io)) brickIO))"
  by (simp add: byPath_def foldl_map case_prod_unfold flip: foldl_nested)

lemma byPath_hits:
  "(p, slug) \<in> set (concat (map (\<lambda>(slug, io). map (\<lambda>p. (p, slug)) (io_writes io)) brickIO))
    \<longleftrightarrow> claims brickIO slug p"
  by (auto simp: claims_def)

lemma byPath_entry:
  "(p, slugs) \<in> set (byPath brickIO) \<Longrightarrow> set slugs = {s. claims brickIO s p} \<and> distinct slugs"
  unfolding byPath_fold byPath_hits [symmetric] by (rule conjI) (rule add_to_set_entry, assumption)+

lemma byPath_key:
  "claims brickIO s p \<Longrightarrow> \<exists>slugs. (p, slugs) \<in> set (byPath brickIO)"
  unfolding byPath_fold by (rule add_to_set_key) (simp only: byPath_hits)

lemma byPath_wf: "wf_map (byPath brickIO)"
  unfolding byPath_fold by (rule wf_add_to_set_fold) simp

text \<open>The calls of \<open>add_collision\<close> that \<open>Check\<close> makes, as a list of path and pair.\<close>

definition collision_hits :: "(string, br_brick) gomap \<Rightarrow> (string, brick_io) gomap \<Rightarrow> (string \<times> string \<times> string) list" where
  "collision_hits bricks brickIO =
     concat (map (\<lambda>(p, slugs). map (Pair p)
       (filter (\<lambda>(a, b). unrelated bricks a b) (index_pairs (sort slugs)))) (byPath brickIO))"

lemma collision_hits_iff:
  "(p, a, b) \<in> set (collision_hits bricks brickIO) \<longleftrightarrow>
     claims brickIO a p \<and> claims brickIO b p \<and> a < b \<and> unrelated bricks a b"
proof -
  have pairs: "(a, b) \<in> set (index_pairs (sort slugs)) \<longleftrightarrow> claims brickIO a p \<and> claims brickIO b p \<and> a < b"
    if "(p, slugs) \<in> set (byPath brickIO)" for slugs
    using byPath_entry [OF that] index_pairs_sorted [of "sort slugs" a b] by simp
  have "(p, a, b) \<in> set (collision_hits bricks brickIO) \<longleftrightarrow>
      (\<exists>slugs. (p, slugs) \<in> set (byPath brickIO) \<and> (a, b) \<in> set (index_pairs (sort slugs))) \<and> unrelated bricks a b"
    by (auto simp: collision_hits_def)
  also have "\<dots> \<longleftrightarrow> claims brickIO a p \<and> claims brickIO b p \<and> a < b \<and> unrelated bricks a b"
    using pairs byPath_key by metis
  finally show ?thesis .
qed

lemma index_pairs_distinct: "distinct xs \<Longrightarrow> distinct (index_pairs xs)"
proof (induction xs)
  case (Cons x xs)
  have "(a, b) \<in> set (index_pairs xs) \<Longrightarrow> a \<in> set xs" for a b
    by (induction xs) auto
  with Cons show ?case
    by (auto simp: distinct_map inj_on_def)
qed simp

lemma collision_hits_distinct: "distinct (collision_hits bricks brickIO)"
proof -
  let ?f = "\<lambda>(p, slugs). map (Pair p) (filter (\<lambda>(a, b). unrelated bricks a b) (index_pairs (sort slugs)))"
  have "distinct (concat (map ?f m))" if "wf_map m" "\<forall>(p, slugs) \<in> set m. distinct slugs" for m :: "(string, string list) gomap"
    using that
  proof (induction m)
    case (Cons e m)
    obtain p slugs where e: "e = (p, slugs)" by (cases e)
    have "distinct (?f e)"
      using Cons.prems(2) by (simp add: e distinct_map inj_on_def index_pairs_distinct)
    moreover have "set (?f e) \<inter> set (concat (map ?f m)) = {}"
      using Cons.prems(1) by (force simp: e wf_map_def)
    moreover have "distinct (concat (map ?f m))"
      using Cons by (simp add: wf_map_def)
    ultimately show ?case
      by simp
  qed simp
  then show ?thesis
    unfolding collision_hits_def using byPath_wf byPath_entry by blast
qed

lemma Check_fold:
  "foldl (collide_path bricks) [] (byPath brickIO)
    = foldl (\<lambda>pairs (p, a, b). add_collision p a b pairs) [] (collision_hits bricks brickIO)"
proof -
  have step: "collide_path bricks pairs (p, slugs) =
      foldl (\<lambda>pairs (p, a, b). add_collision p a b pairs) pairs
        (map (Pair p) (filter (\<lambda>(a, b). unrelated bricks a b) (index_pairs (sort slugs))))"
    if "distinct slugs" for pairs p slugs
  proof -
    have "filter (\<lambda>(a, b). unrelated bricks a b) (index_pairs (sort slugs))
        = filter (\<lambda>(a, b). \<not> (bc_isAncestor bricks a b \<or> bc_isAncestor bricks b a)) (index_pairs (sort slugs))"
      using index_pairs_sorted [of "sort slugs"] that
      by (intro filter_cong) (auto simp: unrelated_def bc_isAncestor_eq)
    moreover have "length slugs < 2 \<Longrightarrow> index_pairs (sort slugs) = []"
      by (simp add: index_pairs_short)
    ultimately show ?thesis
      by (auto simp: collide_path_def foldl_map foldl_skip [symmetric] case_prod_unfold
          intro!: foldl_cong)
  qed
  have "foldl (collide_path bricks) pairs m = foldl (\<lambda>pairs (p, a, b). add_collision p a b pairs) pairs
      (concat (map (\<lambda>(p, slugs). map (Pair p)
        (filter (\<lambda>(a, b). unrelated bricks a b) (index_pairs (sort slugs)))) m))"
    if "\<forall>(p, slugs) \<in> set m. distinct slugs" for m pairs
    using that by (induction m arbitrary: pairs) (auto simp: step)
  then show ?thesis
    unfolding collision_hits_def using byPath_entry by blast
qed

section \<open>The map of collisions\<close>

definition pairs_ok :: "(string \<times> string \<times> string) list \<Rightarrow> (string, collision) gomap \<Rightarrow> bool" where
  "pairs_ok hits pairs \<longleftrightarrow> wf_map pairs \<and> set (keys pairs) = (\<lambda>(p, a, b). pair_key a b) ` set hits \<and>
     (\<forall>(k, c) \<in> set pairs. co_pair c = k \<and> pair_key (co_a c) (co_b c) = k \<and>
        (\<exists>p. (p, co_a c, co_b c) \<in> set hits) \<and>
        co_paths c = map fst (filter (\<lambda>(p, a, b). pair_key a b = k) hits))"

lemma pairs_ok_fresh:
  assumes "pairs_ok hits pairs" and "map_of pairs k = None"
  shows "filter (\<lambda>(p, a, b). pair_key a b = k) hits = []"
proof -
  have "k \<notin> (\<lambda>(p, a, b). pair_key a b) ` set hits"
    using assms unfolding pairs_ok_def by (metis map_of_eq_None_iff set_map)
  then show ?thesis
    by (auto simp: filter_empty_conv image_iff)
qed

lemma pairs_ok_step:
  assumes "pairs_ok hits pairs"
  shows "pairs_ok (hits @ [(p, a, b)]) (add_collision p a b pairs)"
proof -
  let ?k = "pair_key a b"
  define c where "c = (case map_of pairs ?k of Some c \<Rightarrow> c
    | None \<Rightarrow> \<lparr>co_pair = ?k, co_a = a, co_b = b, co_paths = []\<rparr>)"
  have wf: "wf_map pairs"
    using assms by (simp add: pairs_ok_def)
  have c: "co_pair c = ?k \<and> pair_key (co_a c) (co_b c) = ?k \<and>
      (\<exists>q. (q, co_a c, co_b c) \<in> set (hits @ [(p, a, b)])) \<and>
      co_paths c = map fst (filter (\<lambda>(p, a, b). pair_key a b = ?k) hits)"
  proof (cases "map_of pairs ?k")
    case None
    then show ?thesis
      using pairs_ok_fresh [OF assms None] by (auto simp: c_def)
  next
    case (Some d)
    then have "(?k, d) \<in> set pairs" and "c = d"
      by (simp_all add: map_of_SomeD c_def)
    then show ?thesis
      using assms unfolding pairs_ok_def by fastforce
  qed
  have eq: "add_collision p a b pairs = AList.update ?k (c\<lparr>co_paths := co_paths c @ [p]\<rparr>) pairs"
    by (simp add: add_collision_def c_def Let_def)
  have old: "co_pair d = k \<and> pair_key (co_a d) (co_b d) = k \<and>
      (\<exists>q. (q, co_a d, co_b d) \<in> set hits) \<and>
      co_paths d = map fst (filter (\<lambda>(p, a, b). pair_key a b = k) hits)" if "(k, d) \<in> set pairs" for k d
    using assms that unfolding pairs_ok_def by fast
  show ?thesis
    unfolding pairs_ok_def eq set_update_wf [OF wf]
  proof (intro conjI)
    show "wf_map (AList.update ?k (c\<lparr>co_paths := co_paths c @ [p]\<rparr>) pairs)"
      using wf by (rule wf_map_update)
    show "set (keys (AList.update ?k (c\<lparr>co_paths := co_paths c @ [p]\<rparr>) pairs))
        = (\<lambda>(p, a, b). pair_key a b) ` set (hits @ [(p, a, b)])"
      using assms by (simp add: pairs_ok_def dom_update)
    show "\<forall>(k, d) \<in> insert (?k, c\<lparr>co_paths := co_paths c @ [p]\<rparr>) {e \<in> set pairs. fst e \<noteq> ?k}.
        co_pair d = k \<and> pair_key (co_a d) (co_b d) = k \<and>
        (\<exists>q. (q, co_a d, co_b d) \<in> set (hits @ [(p, a, b)])) \<and>
        co_paths d = map fst (filter (\<lambda>(p, a, b). pair_key a b = k) (hits @ [(p, a, b)]))"
      using c old by auto
  qed
qed

lemma Check_pairs:
  "pairs_ok (collision_hits bricks brickIO) (foldl (collide_path bricks) [] (byPath brickIO))"
proof -
  have "pairs_ok hits (foldl (\<lambda>pairs (p, a, b). add_collision p a b pairs) [] hits)" for hits
    by (induction hits rule: rev_induct) (auto simp: pairs_ok_step, simp add: pairs_ok_def)
  then show ?thesis
    unfolding Check_fold .
qed

lemma Check_entry:
  "c \<in> set (Check bricks brickIO) \<longleftrightarrow>
     (\<exists>d. (co_pair c, d) \<in> set (foldl (collide_path bricks) [] (byPath brickIO)) \<and>
        c = d\<lparr>co_paths := sort (co_paths d)\<rparr>)"
  (is "_ \<longleftrightarrow> (\<exists>d. (_, d) \<in> set ?pairs \<and> _)")
proof -
  have wf: "wf_map ?pairs" and pair: "(k, d) \<in> set ?pairs \<Longrightarrow> co_pair d = k" for k d
    using Check_pairs [of bricks brickIO] unfolding pairs_ok_def by blast+
  have "set (Check bricks brickIO) = (\<lambda>k. (\<lambda>c. c\<lparr>co_paths := sort (co_paths c)\<rparr>) (the (map_of ?pairs k))) ` set (keys ?pairs)"
    by (simp add: Check_def Let_def)
  also have "\<dots> = (\<lambda>(k, c). c\<lparr>co_paths := sort (co_paths c)\<rparr>) ` set ?pairs"
    by (rule set_map_the [OF wf])
  finally have "c \<in> set (Check bricks brickIO) \<longleftrightarrow>
      (\<exists>k d. (k, d) \<in> set ?pairs \<and> c = d\<lparr>co_paths := sort (co_paths d)\<rparr>)"
    by (simp add: image_iff Bex_def)
  also have "\<dots> \<longleftrightarrow> (\<exists>d. (co_pair c, d) \<in> set ?pairs \<and> c = d\<lparr>co_paths := sort (co_paths d)\<rparr>)"
  proof
    assume "\<exists>k d. (k, d) \<in> set ?pairs \<and> c = d\<lparr>co_paths := sort (co_paths d)\<rparr>"
    then obtain k d where d: "(k, d) \<in> set ?pairs" and c: "c = d\<lparr>co_paths := sort (co_paths d)\<rparr>"
      by blast
    then have "co_pair c = k"
      using pair [OF d] by simp
    with d c show "\<exists>d. (co_pair c, d) \<in> set ?pairs \<and> c = d\<lparr>co_paths := sort (co_paths d)\<rparr>"
      by blast
  qed blast
  finally show ?thesis .
qed

section \<open>The theorems\<close>

text \<open>
  C18 (\<open>Check\<close>). An empty result means that any two bricks that are not ancestors of each
  other write disjoint sets of paths, and a non-empty one that two of them do not:
  the check decides whether parallel dispatch is free of write races.
\<close>

theorem Check_empty_iff_disjoint:
  "Check bricks brickIO = [] \<longleftrightarrow>
     (\<forall>a b p. claims brickIO a p \<and> claims brickIO b p \<and> a \<noteq> b \<longrightarrow>
        isAncestor bricks a b \<or> isAncestor bricks b a)"
proof -
  let ?pairs = "foldl (collide_path bricks) [] (byPath brickIO)"
  have "Check bricks brickIO = [] \<longleftrightarrow> set (keys ?pairs) = {}"
    unfolding Check_def Let_def by simp
  also have "\<dots> \<longleftrightarrow> collision_hits bricks brickIO = []"
    using Check_pairs [of bricks brickIO] by (simp add: pairs_ok_def)
  also have "\<dots> \<longleftrightarrow> (\<forall>a b p. \<not> (claims brickIO a p \<and> claims brickIO b p \<and> a < b \<and> unrelated bricks a b))"
    using collision_hits_iff [of _ _ _ bricks brickIO] by (metis ex_in_conv prod_cases3 set_empty)
  also have "\<dots> \<longleftrightarrow> (\<forall>a b p. claims brickIO a p \<and> claims brickIO b p \<and> a \<noteq> b \<longrightarrow>
        isAncestor bricks a b \<or> isAncestor bricks b a)"
    unfolding unrelated_def by (metis less_irrefl linorder_neqE)
  finally show ?thesis .
qed

theorem Check_empty_iff_disjoint_witness:
  "Check [(''a'', \<lparr>br_path = ''a''\<rparr>), (''ab'', \<lparr>br_path = ''a/b''\<rparr>)]
     [(''a'', \<lparr>io_reads = [], io_writes = [''a/b/x'']\<rparr>), (''ab'', \<lparr>io_reads = [], io_writes = [''a/b/x'']\<rparr>)] = []"
proof -
  have "isAncestor [(''a'', \<lparr>br_path = ''a''\<rparr>), (''ab'', \<lparr>br_path = ''a/b''\<rparr>)] ''a'' ''ab''"
    by code_simp
  then show ?thesis
    by (subst Check_empty_iff_disjoint) (auto simp: claims_def)
qed

text \<open>
  C19 (\<open>Check\<close>). When the keys \<open>A__B\<close> of different pairs of slugs are different, the
  result has exactly one entry for each pair of unrelated bricks that share a write
  path, with \<open>A\<close> before \<open>B\<close>, and the entry lists exactly the shared paths, sorted and
  without repetition; the entries are sorted by key.
\<close>

theorem Check_exact:
  assumes "inj_on (\<lambda>(a, b). pair_key a b) (set (keys brickIO) \<times> set (keys brickIO))"
  shows "(c \<in> set (Check bricks brickIO) \<longleftrightarrow>
      co_a c < co_b c \<and> unrelated bricks (co_a c) (co_b c) \<and> co_pair c = pair_key (co_a c) (co_b c) \<and>
      co_paths c \<noteq> [] \<and> sorted (co_paths c) \<and> distinct (co_paths c) \<and>
      set (co_paths c) = {p. claims brickIO (co_a c) p \<and> claims brickIO (co_b c) p})
    \<and> sorted (map co_pair (Check bricks brickIO)) \<and> distinct (map co_pair (Check bricks brickIO))"
proof -
  let ?hits = "collision_hits bricks brickIO"
  let ?pairs = "foldl (collide_path bricks) [] (byPath brickIO)"
  note ok = Check_pairs [of bricks brickIO, unfolded pairs_ok_def]
  have keys_hit: "a \<in> set (keys brickIO) \<and> b \<in> set (keys brickIO)" if "(p, a, b) \<in> set ?hits" for p a b
    using that unfolding collision_hits_iff claims_def by force
  have same: "pair_key a b = pair_key a' b' \<longleftrightarrow> a = a' \<and> b = b'"
    if "(p, a, b) \<in> set ?hits" "(p', a', b') \<in> set ?hits" for p a b p' a' b'
    using inj_onD [OF assms, of "(a, b)" "(a', b')"] keys_hit [OF that(1)] keys_hit [OF that(2)] by auto
  have paths: "filter (\<lambda>(p, a', b'). pair_key a' b' = pair_key a b) ?hits
      = filter (\<lambda>(p, a', b'). a' = a \<and> b' = b) ?hits" if "(q, a, b) \<in> set ?hits" for q a b
    using same [OF _ that] by (intro filter_cong) auto
  have set_paths: "set (map fst (filter (\<lambda>(p, a', b'). a' = a \<and> b' = b) ?hits))
      = {p. claims brickIO a p \<and> claims brickIO b p}" if "a < b" "unrelated bricks a b" for a b
    using that by (force simp: collision_hits_iff)
  have dist_paths: "distinct (map fst (filter (\<lambda>(p, a', b'). a' = a \<and> b' = b) ?hits))" for a b
    using collision_hits_distinct [of bricks brickIO] by (auto simp: distinct_map inj_on_def)
  have entry: "co_pair d = k \<and> pair_key (co_a d) (co_b d) = k \<and> (\<exists>p. (p, co_a d, co_b d) \<in> set ?hits) \<and>
      co_paths d = map fst (filter (\<lambda>(p, a, b). pair_key a b = k) ?hits)" if "(k, d) \<in> set ?pairs" for k d
    using ok that by fast
  have "c \<in> set (Check bricks brickIO) \<longleftrightarrow>
      co_a c < co_b c \<and> unrelated bricks (co_a c) (co_b c) \<and> co_pair c = pair_key (co_a c) (co_b c) \<and>
      co_paths c \<noteq> [] \<and> sorted (co_paths c) \<and> distinct (co_paths c) \<and>
      set (co_paths c) = {p. claims brickIO (co_a c) p \<and> claims brickIO (co_b c) p}" (is "_ \<longleftrightarrow> ?r")
  proof
    assume "c \<in> set (Check bricks brickIO)"
    then obtain d where d: "(co_pair c, d) \<in> set ?pairs" and c: "c = d\<lparr>co_paths := sort (co_paths d)\<rparr>"
      unfolding Check_entry by blast
    note e = entry [OF d]
    then obtain p where hit: "(p, co_a d, co_b d) \<in> set ?hits" by blast
    then have rel: "co_a d < co_b d" "unrelated bricks (co_a d) (co_b d)" "p \<in> {p. claims brickIO (co_a d) p \<and> claims brickIO (co_b d) p}"
      by (simp_all add: collision_hits_iff)
    have "co_paths d = map fst (filter (\<lambda>(p, a', b'). a' = co_a d \<and> b' = co_b d) ?hits)"
      using e paths [OF hit] by simp
    then have "set (co_paths d) = {p. claims brickIO (co_a d) p \<and> claims brickIO (co_b d) p}"
      and "distinct (co_paths d)"
      using set_paths [OF rel(1,2)] dist_paths by simp_all
    moreover from this(1) rel(3) have "co_paths d \<noteq> []"
      by fastforce
    moreover have "co_a c = co_a d" "co_b c = co_b d" "co_paths c = sort (co_paths d)"
      by (simp_all add: c)
    moreover have "co_pair c = pair_key (co_a d) (co_b d)"
      using e by simp
    ultimately show ?r
      using rel(1,2) by simp
  next
    assume r: ?r
    then obtain p where hit: "(p, co_a c, co_b c) \<in> set ?hits"
      by (metis (mono_tags, lifting) collision_hits_iff last_in_set mem_Collect_eq)
    moreover have "set (keys ?pairs) = (\<lambda>(p, a, b). pair_key a b) ` set ?hits"
      using ok by blast
    ultimately have "pair_key (co_a c) (co_b c) \<in> set (keys ?pairs)"
      using image_eqI [OF _ hit, of _ "\<lambda>(p, a, b). pair_key a b"] by simp
    then obtain d where d: "(co_pair c, d) \<in> set ?pairs"
      using r by auto
    note e = entry [OF d]
    then obtain q where q: "(q, co_a d, co_b d) \<in> set ?hits" by blast
    with e r same [OF q hit] have ab: "co_a d = co_a c" "co_b d = co_b c" by auto
    have "co_paths d = map fst (filter (\<lambda>(p, a', b'). a' = co_a c \<and> b' = co_b c) ?hits)"
      using e r paths [OF hit] by simp
    then have "set (co_paths d) = set (co_paths c)" and "distinct (co_paths d)"
      using r set_paths [of "co_a c" "co_b c"] dist_paths by simp_all
    then have "sort (co_paths d) = co_paths c"
      using r sort_set_eq [of "co_paths d" "co_paths c"] by (simp add: sorted_sort_id)
    moreover have "co_pair d = co_pair c"
      using e by simp
    ultimately have "c = d\<lparr>co_paths := sort (co_paths d)\<rparr>"
      using ab by (intro collision.equality) simp_all
    with d show "c \<in> set (Check bricks brickIO)"
      unfolding Check_entry by blast
  qed
  moreover have "co_pair (the (map_of ?pairs k)) = k" if "k \<in> set (keys ?pairs)" for k
    using entry [OF the_map_of_key [OF _ that]] ok by blast
  then have "map co_pair (Check bricks brickIO) = sort (keys ?pairs)"
    unfolding Check_def Let_def map_map by (intro map_idI) simp
  ultimately show ?thesis
    using ok by (simp add: wf_map_def)
qed

theorem Check_exact_witness:
  "Check [] [(''b'', \<lparr>io_reads = [], io_writes = [''x'', ''y'']\<rparr>), (''a'', \<lparr>io_reads = [], io_writes = [''y'', ''x'', ''y'']\<rparr>)]
     = [\<lparr>co_pair = ''a__b'', co_a = ''a'', co_b = ''b'', co_paths = [''x'', ''y'']\<rparr>]
   \<and> distinct [''x'', ''y'']"
proof -
  let ?io = "[(''b'', \<lparr>io_reads = [], io_writes = [''x'', ''y'']\<rparr>), (''a'', \<lparr>io_reads = [], io_writes = [''y'', ''x'', ''y'']\<rparr>)]"
  let ?c = "\<lparr>co_pair = ''a__b'', co_a = ''a'', co_b = ''b'', co_paths = [''x'', ''y'']\<rparr>"
  have run: "Check [] ?io = [?c]"
    by code_simp
  have "inj_on (\<lambda>(a, b). pair_key a b) (set (keys ?io) \<times> set (keys ?io))"
    by (auto simp: inj_on_def pair_key_def)
  from Check_exact [OF this, of ?c "[]"] run show ?thesis
    by simp
qed

text \<open>
  \<open>Check\<close>: The key \<open>A__B\<close> does not identify the pair when slugs contain the
  separator: here \<open>a\<close> and \<open>b__c\<close> collide on \<open>p\<close>, \<open>a__b\<close> and \<open>c\<close> collide on \<open>q\<close>, and the
  result has one entry that names the first pair and lists both paths.
\<close>

theorem Check_merges_ambiguous_pairs:
  "Check [] [(''a'', \<lparr>io_reads = [], io_writes = [''p'']\<rparr>), (''b__c'', \<lparr>io_reads = [], io_writes = [''p'']\<rparr>),
             (''a__b'', \<lparr>io_reads = [], io_writes = [''q'']\<rparr>), (''c'', \<lparr>io_reads = [], io_writes = [''q'']\<rparr>)]
     = [\<lparr>co_pair = ''a__b__c'', co_a = ''a'', co_b = ''b__c'', co_paths = [''p'', ''q'']\<rparr>]"
  by code_simp

end
