(* ===== verification/Json.thy ===== *)
theory Json
  imports GoFmt
begin

text \<open>
  The values of \<open>encoding/json\<close> as the program handles them (\<open>any\<close> after \<open>Unmarshal\<close>). A JSON
  object is a Go map; it is kept as the association list sorted by key, which is the
  order \<open>json.Marshal\<close> prints, so that equal maps are equal lists. Numbers are kept as
  their literal.
\<close>

datatype json =
    JNull | JBool bool | JNum string | JStr string
  | JArr "json list" | JObj "(string \<times> json) list"

type_synonym jobj = "(string \<times> json) list"

section \<open>Objects\<close>

definition wf_obj :: "(string \<times> 'v) list \<Rightarrow> bool" where
  "wf_obj m \<longleftrightarrow> sorted_wrt (<) (map fst m)"

fun obj_set :: "string \<Rightarrow> 'v \<Rightarrow> (string \<times> 'v) list \<Rightarrow> (string \<times> 'v) list" where
  "obj_set k v [] = [(k, v)]"
| "obj_set k v ((k', v') # m) =
     (if k = k' then (k, v) # m else if k < k' then (k, v) # (k', v') # m else (k', v') # obj_set k v m)"

lemma wf_obj_Nil [simp]: "wf_obj []"
  by (simp add: wf_obj_def)

lemma wf_obj_Cons: "wf_obj ((k, v) # m) \<longleftrightarrow> (\<forall>k' \<in> fst ` set m. k < k') \<and> wf_obj m"
  by (auto simp: wf_obj_def)

lemma wf_obj_distinct: "wf_obj m \<Longrightarrow> distinct (map fst m)"
  by (simp add: wf_obj_def strict_sorted_iff)

lemma obj_set_keys: "fst ` set (obj_set k v m) = insert k (fst ` set m)"
  by (induction k v m rule: obj_set.induct) auto

lemma wf_obj_set: "wf_obj m \<Longrightarrow> wf_obj (obj_set k v m)"
proof (induction k v m rule: obj_set.induct)
  case (2 k v k' v' m)
  have "wf_obj ((k, v) # (k', v') # m)" if "k < k'"
    using that 2(2) unfolding wf_obj_Cons by auto
  with 2 show ?case
    by (auto simp: wf_obj_Cons obj_set_keys)
qed (simp add: wf_obj_def)

lemma map_of_above: "\<forall>k' \<in> fst ` set m. (k :: string) < k' \<Longrightarrow> map_of m k = None"
  by (metis map_of_eq_None_iff order_less_irrefl)

lemma map_of_obj_set: "wf_obj m \<Longrightarrow> map_of (obj_set k v m) = (map_of m)(k \<mapsto> v)"
proof (induction k v m rule: obj_set.induct)
  case (2 k v k' v' m)
  have "map_of m k = None" if "k < k'"
    using 2(2) that by (intro map_of_above) (auto simp: wf_obj_Cons)
  with 2 show ?case
    by (auto simp: wf_obj_Cons fun_eq_iff)
qed simp

lemma wf_obj_eqI:
  assumes "wf_obj m" and "wf_obj m'" and "map_of m = map_of m'"
  shows "m = m'"
proof -
  have "set m = set m'"
    using assms wf_obj_distinct by (metis map_of_inject_set)
  moreover have "sorted_wrt (<) (map fst m)" "sorted_wrt (<) (map fst m')"
    using assms by (simp_all add: wf_obj_def)
  moreover have "sorted_wrt (<) (map fst m) \<Longrightarrow> sorted_wrt (<) (map fst m') \<Longrightarrow> set m = set m' \<Longrightarrow> m = m'" for m m' :: "(string \<times> 'a) list"
  proof (induction m arbitrary: m')
    case (Cons e m)
    then obtain e' m1 where m': "m' = e' # m1"
      by (cases m') auto
    have ee: "e = e'"
    proof (rule ccontr)
      assume "e \<noteq> e'"
      then have "e \<in> set m1" "e' \<in> set m"
        using Cons.prems(3) m' by auto
      then have "fst e' < fst e" "fst e < fst e'"
        using Cons.prems(1,2) m' by auto
      then show False by simp
    qed
    have "e \<notin> set m" "e' \<notin> set m1"
      using Cons.prems(1,2) m' by auto
    then have "set m = set m1"
      using Cons.prems(3) ee m' by auto
    with Cons m' ee show ?case by simp
  qed simp
  ultimately show ?thesis by blast
qed

lemma obj_set_commute: "wf_obj m \<Longrightarrow> k \<noteq> k' \<Longrightarrow> obj_set k v (obj_set k' v' m) = obj_set k' v' (obj_set k v m)"
  by (rule wf_obj_eqI) (simp_all add: wf_obj_set map_of_obj_set fun_upd_twist)

lemma obj_set_twice: "wf_obj m \<Longrightarrow> obj_set k v (obj_set k v' m) = obj_set k v m"
  by (rule wf_obj_eqI) (simp_all add: wf_obj_set map_of_obj_set)

lemma obj_set_last: "\<forall>k' \<in> fst ` set m. k' < k \<Longrightarrow> obj_set k v m = m @ [(k, v)]"
  by (induction m) (auto simp: order_less_asym')

text \<open>Overlaying the entries of one object on another.\<close>

definition obj_union :: "(string \<times> 'v) list \<Rightarrow> (string \<times> 'v) list \<Rightarrow> (string \<times> 'v) list" where
  "obj_union existing shallow = foldl (\<lambda>m (k, v). obj_set k v m) existing shallow"

lemma wf_obj_union: "wf_obj m \<Longrightarrow> wf_obj (obj_union m m')"
  unfolding obj_union_def by (induction m' arbitrary: m) (auto simp: wf_obj_set)

lemma map_of_obj_union:
  "wf_obj m \<Longrightarrow> distinct (map fst m') \<Longrightarrow> map_of (obj_union m m') = map_of m ++ map_of m'"
  unfolding obj_union_def
proof (induction m' arbitrary: m)
  case (Cons e m')
  have "map_of m' (fst e) = None"
    using Cons.prems(2) by (simp add: map_of_eq_None_iff)
  with Cons show ?case
    by (cases e) (auto simp: wf_obj_set map_of_obj_set fun_eq_iff map_add_def split: option.splits)
qed simp

section \<open>Well-formed values\<close>

fun wf_json :: "json \<Rightarrow> bool" where
  "wf_json (JObj m) = (wf_obj m \<and> (\<forall>v \<in> snd ` set m. wf_json v))"
| "wf_json (JArr xs) = (\<forall>x \<in> set xs. wf_json x)"
| "wf_json _ = True"

definition wf_jobj :: "jobj \<Rightarrow> bool" where
  "wf_jobj m \<longleftrightarrow> wf_json (JObj m)"

lemma wf_jobj_obj: "wf_jobj m \<Longrightarrow> wf_obj m"
  by (simp add: wf_jobj_def)

lemma wf_jobj_value: "wf_jobj m \<Longrightarrow> map_of m k = Some v \<Longrightarrow> wf_json v"
  by (force simp: wf_jobj_def dest: map_of_SomeD)

lemma obj_set_values: "snd ` set (obj_set k v m) \<subseteq> insert v (snd ` set m)"
  by (induction k v m rule: obj_set.induct) auto

lemma wf_jobj_Nil [simp]: "wf_jobj []"
  by (simp add: wf_jobj_def)

lemma wf_jobj_set:
  assumes "wf_jobj m" and "wf_json v"
  shows "wf_jobj (obj_set k v m)"
proof -
  have "wf_json x" if "x \<in> snd ` set (obj_set k v m)" for x
    using subsetD [OF obj_set_values that] assms by (auto simp: wf_jobj_def)
  then show ?thesis
    using assms(1) by (simp add: wf_jobj_def wf_obj_set)
qed

lemma wf_jobj_union: "wf_jobj m \<Longrightarrow> wf_jobj m' \<Longrightarrow> wf_jobj (obj_union m m')"
proof -
  have "wf_jobj m \<Longrightarrow> \<forall>v \<in> snd ` set m'. wf_json v \<Longrightarrow> wf_jobj (foldl (\<lambda>m (k, v). obj_set k v m) m m')"
    by (induction m' arbitrary: m) (auto simp: wf_jobj_set)
  then show "wf_jobj m \<Longrightarrow> wf_jobj m' \<Longrightarrow> wf_jobj (obj_union m m')"
    by (simp add: obj_union_def wf_jobj_def)
qed

lemma obj_union_empty: "wf_obj m \<Longrightarrow> obj_union [] m = m"
  by (rule wf_obj_eqI) (simp_all add: wf_obj_union map_of_obj_union wf_obj_distinct)

end
