(* ===== verification/LatticeShards.thy ===== *)
theory LatticeShards
  imports Json
begin

text \<open>
  Splitting the lattice into shards (\<open>splitIntoShards\<close>, \<open>splitTreeNode\<close> of
  \<open>lib/gen/lattice/lattice.go\<close>) and grafting shards together again (\<open>graftAtPath\<close> of
  \<open>lib/spec/spec.go\<close>). The mutation of nested Go maps in place is the functional update of
  the nested object. \<open>msize\<close> is the length of the marshalled value, which \<open>splitTreeNode\<close>
  compares with the threshold.
\<close>

section \<open>The model\<close>

type_synonym shard = "string list \<times> json"

definition recursionThreshold :: nat where
  "recursionThreshold = 1 * 1024 * 1024"

lemma size_map_of: "map_of m k = Some v \<Longrightarrow> size v < size_list (size_prod (\<lambda>_. 0) size) m"
  by (induction m) (auto split: if_splits)

lemma size_in_obj: "(k, v) \<in> set m \<Longrightarrow> size v < size_list (size_prod (\<lambda>_. 0) size) m"
  by (induction m) auto

text \<open>A node that is not split is emitted whole.\<close>

function splitTreeNode :: "(json \<Rightarrow> nat) \<Rightarrow> string list \<Rightarrow> jobj \<Rightarrow> shard list" where
  "splitTreeNode msize p node =
     (if msize (JObj node) < recursionThreshold then [(p, JObj node)]
      else case map_of node ''dirs'' of
        Some (JObj dirs) \<Rightarrow>
          if dirs = [] then [(p, JObj node)]
          else (p, JObj (filter (\<lambda>(k, v). k \<noteq> ''dirs'') node))
            # concat (map (\<lambda>(childName, child).
                case child of
                  JObj childMap \<Rightarrow> splitTreeNode msize (p @ [''dirs'', childName]) childMap
                | _ \<Rightarrow> [(p @ [''dirs'', childName], child)]) dirs)
      | _ \<Rightarrow> [(p, JObj node)])"
  by pat_completeness auto
termination
proof (relation "measure (\<lambda>(_, _, node). size (JObj node))", goal_cases)
  case (2 msize p node v dirs e childName child childMap)
  have "size child < size_list (size_prod (\<lambda>_. 0) size) dirs"
    using 2 by (intro size_in_obj) auto
  moreover have "size v < size_list (size_prod (\<lambda>_. 0) size) node"
    using 2 by (intro size_map_of) auto
  ultimately show ?case
    using 2 by simp
qed simp

declare splitTreeNode.simps [simp del]

text \<open>The key \<open>sortShards\<close> compares: the components joined with a zero byte.\<close>

definition shard_key :: "string list \<Rightarrow> string" where
  "shard_key p = join [CHR 0x00] p"

definition splitIntoShards :: "(json \<Rightarrow> nat) \<Rightarrow> jobj \<Rightarrow> shard list" where
  "splitIntoShards msize lattice =
     sort_key (\<lambda>(p, v). shard_key p)
       (map (\<lambda>(k, v). ([k], v)) (filter (\<lambda>(k, v). k \<noteq> ''tree'') lattice)
        @ (case map_of lattice ''tree'' of
             Some (JObj tree) \<Rightarrow> splitTreeNode msize [''tree''] tree
           | _ \<Rightarrow> []))"

fun graftAtPath :: "jobj \<Rightarrow> string list \<Rightarrow> json \<Rightarrow> jobj" where
  "graftAtPath root [] value = root"
| "graftAtPath root [final] value =
     (case (map_of root final, value) of
        (Some (JObj existing), JObj shallow) \<Rightarrow> obj_set final (JObj (obj_union existing shallow)) root
      | _ \<Rightarrow> obj_set final value root)"
| "graftAtPath root (p # q # ps) value =
     (case map_of root p of
        Some (JObj next) \<Rightarrow> obj_set p (JObj (graftAtPath next (q # ps) value)) root
      | _ \<Rightarrow> obj_set p (JObj (graftAtPath [] (q # ps) value)) root)"

definition graft_all :: "jobj \<Rightarrow> shard list \<Rightarrow> jobj" where
  "graft_all root shards = foldl (\<lambda>r (p, v). graftAtPath r p v) root shards"

section \<open>Folds whose steps commute\<close>

text \<open>
  A fold over elements that commute pairwise on good states gives the same result for
  every order of the elements.
\<close>

locale commuting_fold =
  fixes f :: "'s \<Rightarrow> 'x \<Rightarrow> 's" and good :: "'s \<Rightarrow> bool" and fits :: "'x \<Rightarrow> bool" and compat :: "'x \<Rightarrow> 'x \<Rightarrow> bool"
  assumes step_good: "good s \<Longrightarrow> fits x \<Longrightarrow> good (f s x)"
    and step_commute: "good s \<Longrightarrow> fits x \<Longrightarrow> fits y \<Longrightarrow> compat x y \<Longrightarrow> f (f s x) y = f (f s y) x"
begin

lemma fold_good: "good s \<Longrightarrow> \<forall>x \<in> set xs. fits x \<Longrightarrow> good (foldl f s xs)"
  by (induction xs arbitrary: s) (auto simp: step_good)

lemma fold_move:
  assumes "good s" and "fits x" and "\<forall>a \<in> set as. fits a \<and> compat x a"
  shows "foldl f s (as @ x # bs) = foldl f (f s x) (as @ bs)"
  using assms
proof (induction as arbitrary: s)
  case (Cons a "as")
  have "foldl f (f s a) (as @ x # bs) = foldl f (f (f s a) x) (as @ bs)"
    using Cons by (simp add: step_good)
  also have "f (f s a) x = f (f s x) a"
    using Cons.prems step_commute [of s x a] by simp
  finally show ?case by simp
qed simp

lemma fold_perm:
  assumes "mset xs = mset ys" and "good s" and "\<forall>x \<in> set xs. fits x"
    and "sorted_wrt compat xs"
  shows "foldl f s xs = foldl f s ys"
  using assms
proof (induction xs arbitrary: ys s)
  case (Cons x xs)
  then obtain "as" bs where ys: "ys = as @ x # bs"
    by (metis list.set_intros(1) mset_eq_setD split_list)
  have perm: "mset xs = mset (as @ bs)"
    using Cons.prems(1) by (simp add: ys)
  then have sub: "set as \<subseteq> set xs"
    by (metis Un_upper1 mset_eq_setD set_append)
  have "\<forall>a \<in> set as. fits a \<and> compat x a"
    using Cons.prems(3,4) sub by auto
  then have "foldl f s ys = foldl f (f s x) (as @ bs)"
    unfolding ys using Cons.prems(2,3) by (intro fold_move) auto
  also have "\<dots> = foldl f (f s x) xs"
    using Cons.IH [OF perm, of "f s x"] Cons.prems by (simp add: step_good)
  finally show ?case by simp
qed simp

end

section \<open>Grafts commute\<close>

text \<open>Two shards fit together: different paths, and an object above the other leaves its key free.\<close>

definition leaves_free :: "shard \<Rightarrow> shard \<Rightarrow> bool" where
  "leaves_free = (\<lambda>(p, v) (q, w). \<forall>k r. q = p @ k # r \<longrightarrow> (\<exists>m. v = JObj m \<and> map_of m k = None))"

definition shards_compat :: "shard \<Rightarrow> shard \<Rightarrow> bool" where
  "shards_compat x y \<longleftrightarrow> fst x \<noteq> fst y \<and> leaves_free x y \<and> leaves_free y x"

text \<open>The object held at a slot, empty when there is none, and the value a graft stores there.\<close>

definition slot_obj :: "json option \<Rightarrow> jobj" where
  "slot_obj old = (case old of Some (JObj m) \<Rightarrow> m | _ \<Rightarrow> [])"

definition graft_val :: "json option \<Rightarrow> string list \<Rightarrow> json \<Rightarrow> json" where
  "graft_val old p v =
     (if p = [] then (case v of JObj m \<Rightarrow> JObj (obj_union (slot_obj old) m) | _ \<Rightarrow> v)
      else JObj (graftAtPath (slot_obj old) p v))"

lemma graft_Cons:
  "wf_json v \<Longrightarrow> graftAtPath root (k # p) v = obj_set k (graft_val (map_of root k) p v) root"
  by (cases p)
    (auto simp: graft_val_def slot_obj_def obj_union_empty split: option.splits json.splits)

lemma slot_obj_wf:
  assumes "wf_jobj root"
  shows "wf_jobj (slot_obj (map_of root k))"
proof (cases "map_of root k")
  case (Some v)
  then have "wf_json v"
    by (rule wf_jobj_value [OF assms])
  with Some show ?thesis
    by (cases v) (simp_all add: slot_obj_def wf_jobj_def)
qed (simp add: slot_obj_def)

lemma graft_val_wf:
  assumes "wf_jobj (slot_obj old)" and "wf_json v"
    and "p \<noteq> [] \<Longrightarrow> wf_jobj (graftAtPath (slot_obj old) p v)"
  shows "wf_json (graft_val old p v)"
proof (cases "p = []")
  case True
  with assms(1,2) wf_jobj_union [OF assms(1)] show ?thesis
    by (cases v) (simp_all add: graft_val_def wf_jobj_def)
next
  case False
  with assms(3) show ?thesis
    by (simp add: graft_val_def wf_jobj_def)
qed

lemma graft_wf_jobj: "wf_jobj root \<Longrightarrow> wf_json v \<Longrightarrow> wf_jobj (graftAtPath root p v)"
proof (induction p arbitrary: root)
  case (Cons k p)
  have "wf_json (graft_val (map_of root k) p v)"
    by (intro graft_val_wf slot_obj_wf Cons)
  with Cons.prems show ?case
    by (simp add: graft_Cons wf_jobj_set)
qed simp

lemma slot_obj_graft_val:
  assumes "p \<noteq> [] \<or> (\<exists>m. v = JObj m)"
  shows "graft_val old p v = JObj (slot_obj (Some (graft_val old p v)))"
  using assms by (auto simp: graft_val_def slot_obj_def)

lemma graft_val_commute_above:
  assumes "wf_jobj (slot_obj old)" and "wf_jobj m" and "wf_json w" and "map_of m k = None"
  shows "graft_val (Some (graft_val old [] (JObj m))) (k # r) w = graft_val (Some (graft_val old (k # r) w)) [] (JObj m)"
proof -
  define N where "N = slot_obj old"
  have wf: "wf_obj N" "wf_obj m" "wf_obj (obj_union N m)"
    using wf_jobj_obj [OF assms(1)] wf_jobj_obj [OF assms(2)] wf_obj_union by (simp_all add: N_def)
  have get: "map_of (obj_union N m) k = map_of N k"
    using assms(4) wf by (simp add: map_of_obj_union wf_obj_distinct map_add_def)
  have "obj_set k x (obj_union N m) = obj_union (obj_set k x N) m" for x
    using wf assms(4)
    by (intro wf_obj_eqI) (auto simp: wf_obj_set wf_obj_union map_of_obj_set map_of_obj_union wf_obj_distinct
        fun_eq_iff map_add_def split: option.splits)
  then show ?thesis
    using get by (simp add: graft_val_def slot_obj_def N_def [symmetric] graft_Cons [OF assms(3)] N_def)
qed

lemma graft_commute:
  assumes "shards_compat (p, v) (q, w)" and "wf_jobj root" and "wf_json v" and "wf_json w"
  shows "graftAtPath (graftAtPath root p v) q w = graftAtPath (graftAtPath root q w) p v"
  using assms
proof (induction p arbitrary: q root)
  case (Cons a p)
  show ?case
  proof (cases q)
    case (Cons b q')
    note q = this
    have wf: "wf_obj root" and slot: "wf_jobj (slot_obj (map_of root a))"
      using \<open>wf_jobj root\<close> wf_jobj_obj slot_obj_wf by blast+
    show ?thesis
    proof (cases "a = b")
      case False
      then show ?thesis
        using wf assms(3,4) by (simp add: q graft_Cons map_of_obj_set obj_set_commute)
    next
      case True
      have compat: "(p, v) \<noteq> (q', w) \<and> p \<noteq> q'" and "leaves_free (a # p, v) (a # q', w)" "leaves_free (a # q', w) (a # p, v)"
        using Cons.prems(1) q True by (auto simp: shards_compat_def)
      then have free: "\<And>k r. q' = p @ k # r \<Longrightarrow> \<exists>m. v = JObj m \<and> map_of m k = None"
        "\<And>k r. p = q' @ k # r \<Longrightarrow> \<exists>m. w = JObj m \<and> map_of m k = None"
        by (auto simp: leaves_free_def)
      have "graft_val (Some (graft_val (map_of root a) p v)) q' w = graft_val (Some (graft_val (map_of root a) q' w)) p v"
      proof (cases p)
        case Nil
        then obtain k r where q': "q' = k # r"
          using compat by (cases q') auto
        with free(1) Nil obtain m where "v = JObj m" "map_of m k = None" by auto
        with Nil q' show ?thesis
          using graft_val_commute_above [OF slot _ assms(4)] assms(3) by (simp add: wf_jobj_def)
      next
        case (Cons k r)
        note p = this
        show ?thesis
        proof (cases q')
          case Nil
          with free(2) p obtain m where "w = JObj m" "map_of m k = None" by auto
          with Nil p show ?thesis
            using graft_val_commute_above [OF slot _ assms(3)] assms(4) by (simp add: wf_jobj_def)
        next
          case (Cons k' r')
          have "shards_compat (p, v) (q', w)"
            using compat free by (auto simp: shards_compat_def leaves_free_def)
          from Cons.IH [OF this slot assms(3,4)] show ?thesis
            by (simp add: graft_val_def slot_obj_def p Cons)
        qed
      qed
      then show ?thesis
        using wf assms(3,4) by (simp add: q True graft_Cons map_of_obj_set obj_set_twice wf_obj_set)
    qed
  qed simp
qed simp

interpretation graft: commuting_fold "\<lambda>r (p, v). graftAtPath r p v" wf_jobj "\<lambda>(p, v). wf_json v" shards_compat
proof
  fix s and x y :: shard
  show "wf_jobj (case x of (p, v) \<Rightarrow> graftAtPath s p v)" if "wf_jobj s" "case x of (p, v) \<Rightarrow> wf_json v"
    using that graft_wf_jobj by (auto split: prod.splits)
  show "(case y of (p, v) \<Rightarrow> graftAtPath (case x of (p, v) \<Rightarrow> graftAtPath s p v) p v) =
      (case x of (p, v) \<Rightarrow> graftAtPath (case y of (p, v) \<Rightarrow> graftAtPath s p v) p v)"
    if "wf_jobj s" "case x of (p, v) \<Rightarrow> wf_json v" "case y of (p, v) \<Rightarrow> wf_json v" "shards_compat x y"
    using that graft_commute by (auto split: prod.splits)
qed

section \<open>Grafting the shards of one node\<close>

text \<open>The value of one slot after grafting shards whose paths are relative to the slot.\<close>

definition slot_graft :: "json option \<Rightarrow> shard list \<Rightarrow> json option" where
  "slot_graft old shards = foldl (\<lambda>old (p, v). Some (graft_val old p v)) old shards"

definition below :: "string \<Rightarrow> shard list \<Rightarrow> shard list" where
  "below k shards = map (\<lambda>(p, v). (k # p, v)) shards"

definition wf_shards :: "shard list \<Rightarrow> bool" where
  "wf_shards shards \<longleftrightarrow> (\<forall>v \<in> snd ` set shards. wf_json v)"

lemma slot_graft_simps [simp]:
  "slot_graft old [] = old"
  "slot_graft old ((p, v) # shards) = slot_graft (Some (graft_val old p v)) shards"
  by (simp_all add: slot_graft_def)

lemma slot_graft_append [simp]: "slot_graft old (xs @ ys) = slot_graft (slot_graft old xs) ys"
  by (simp add: slot_graft_def)

lemma graft_all_simps [simp]:
  "graft_all root [] = root"
  "graft_all root ((p, v) # shards) = graft_all (graftAtPath root p v) shards"
  by (simp_all add: graft_all_def)

lemma graft_all_append [simp]: "graft_all root (xs @ ys) = graft_all (graft_all root xs) ys"
  by (simp add: graft_all_def)

lemma below_simps [simp]:
  "below k [] = []" "below k ((p, v) # shards) = (k # p, v) # below k shards"
  "below k (xs @ ys) = below k xs @ below k ys"
  by (simp_all add: below_def)

lemma below_concat: "below k (concat xss) = concat (map (below k) xss)"
  by (induction xss) simp_all

lemma wf_shards_simps [simp]:
  "wf_shards []" "wf_shards ((p, v) # shards) \<longleftrightarrow> wf_json v \<and> wf_shards shards"
  "wf_shards (xs @ ys) \<longleftrightarrow> wf_shards xs \<and> wf_shards ys"
  by (auto simp: wf_shards_def)

lemma wf_shards_below [simp]: "wf_shards (below k shards) \<longleftrightarrow> wf_shards shards"
  by (force simp: wf_shards_def below_def)

lemma wf_shards_concat: "wf_shards (concat xss) \<longleftrightarrow> (\<forall>xs \<in> set xss. wf_shards xs)"
  by (induction xss) simp_all

lemma graft_all_below:
  assumes "wf_obj root" and "wf_shards shards" and "shards \<noteq> []"
  shows "graft_all root (below k shards) = obj_set k (the (slot_graft (map_of root k) shards)) root"
  using assms
proof (induction shards arbitrary: root)
  case (Cons x shards)
  obtain p v where x: "x = (p, v)" by force
  show ?case
  proof (cases "shards = []")
    case False
    have "graft_all (obj_set k (graft_val (map_of root k) p v) root) (below k shards) =
        obj_set k (the (slot_graft (Some (graft_val (map_of root k) p v)) shards)) root"
      using Cons.IH [of "obj_set k (graft_val (map_of root k) p v) root"] Cons.prems False
      by (simp add: x wf_obj_set map_of_obj_set obj_set_twice)
    with Cons.prems show ?thesis
      by (simp add: x graft_Cons)
  qed (use Cons.prems in \<open>simp add: x graft_Cons\<close>)
qed simp

lemma slot_graft_inside:
  assumes "\<forall>p \<in> fst ` set shards. p \<noteq> []"
  shows "slot_graft (Some (JObj m)) shards = Some (JObj (graft_all m shards))"
  using assms by (induction shards arbitrary: m) (auto simp: graft_val_def slot_obj_def)

lemma slot_graft_fresh:
  assumes "\<forall>p \<in> fst ` set shards. p \<noteq> []" and "shards \<noteq> []"
  shows "slot_graft None shards = Some (JObj (graft_all [] shards))"
proof (cases shards)
  case (Cons x xs)
  obtain p v where x: "x = (p, v)" by force
  from assms Cons x show ?thesis
    by (simp add: graft_val_def slot_obj_def slot_graft_inside)
qed (use assms in simp)

section \<open>The split of a node, relative to the node\<close>

definition child_shards :: "(json \<Rightarrow> nat) \<Rightarrow> json \<Rightarrow> shard list" where
  "child_shards msize child = (case child of JObj m \<Rightarrow> splitTreeNode msize [] m | _ \<Rightarrow> [([], child)])"

lemma splitTreeNode_path:
  "splitTreeNode msize p node = map (\<lambda>(q, v). (p @ q, v)) (splitTreeNode msize [] node)"
proof (induction "size (JObj node)" arbitrary: p node rule: less_induct)
  case less
  show ?case
  proof (cases "msize (JObj node) < recursionThreshold")
    case True
    then show ?thesis by (simp add: splitTreeNode.simps [of _ _ node])
  next
    case False
    show ?thesis
    proof (cases "\<exists>dirs. map_of node ''dirs'' = Some (JObj dirs) \<and> dirs \<noteq> []")
      case True
      then obtain dirs where dirs: "map_of node ''dirs'' = Some (JObj dirs)" "dirs \<noteq> []" by blast
      have block: "splitTreeNode msize (r @ [''dirs'', c]) m =
          map (\<lambda>(q, v). (r @ [''dirs'', c] @ q, v)) (splitTreeNode msize [] m)"
        if "(c, JObj m) \<in> set dirs" for r c m
      proof -
        have "size (JObj m) < size (JObj node)"
          using size_in_obj [OF that] size_map_of [OF dirs(1)] by simp
        from less [OF this, of "r @ [''dirs'', c]"] show ?thesis by simp
      qed
      have "(case e of (c, child) \<Rightarrow> case child of
              JObj m \<Rightarrow> splitTreeNode msize (p @ [''dirs'', c]) m | _ \<Rightarrow> [(p @ [''dirs'', c], child)]) =
          map (\<lambda>(q, v). (p @ q, v)) (case e of (c, child) \<Rightarrow> case child of
              JObj m \<Rightarrow> splitTreeNode msize ([] @ [''dirs'', c]) m | _ \<Rightarrow> [([] @ [''dirs'', c], child)])"
        if "e \<in> set dirs" for e
      proof (cases "\<exists>c m. e = (c, JObj m)")
        case True
        then obtain c m where e: "e = (c, JObj m)" by blast
        show ?thesis
          using block [of c m p] block [of c m "[]"] that by (simp add: e o_def split_def)
      qed (cases e; cases "snd e"; simp)
      then show ?thesis
        using dirs False
        by (simp add: splitTreeNode.simps [of _ _ node] map_concat o_def cong: map_cong)
    qed (use False in \<open>auto simp: splitTreeNode.simps [of _ _ node] split: option.splits json.splits\<close>)
  qed
qed

lemma splitTreeNode_cases [consumes 0, case_names whole split]:
  assumes "splitTreeNode msize [] node = [([], JObj node)] \<Longrightarrow> P"
    and "\<And>dirs. map_of node ''dirs'' = Some (JObj dirs) \<Longrightarrow> dirs \<noteq> [] \<Longrightarrow>
      splitTreeNode msize [] node = ([], JObj (filter (\<lambda>(k, v). k \<noteq> ''dirs'') node))
        # below ''dirs'' (concat (map (\<lambda>(c, child). below c (child_shards msize child)) dirs)) \<Longrightarrow> P"
  shows P
proof (cases "msize (JObj node) \<ge> recursionThreshold \<and> (\<exists>dirs. map_of node ''dirs'' = Some (JObj dirs) \<and> dirs \<noteq> [])")
  case True
  then obtain dirs where dirs: "map_of node ''dirs'' = Some (JObj dirs)" "dirs \<noteq> []" by blast
  have "(case child of JObj m \<Rightarrow> splitTreeNode msize ([] @ [''dirs'', c]) m | _ \<Rightarrow> [([] @ [''dirs'', c], child)]) =
      below ''dirs'' (below c (child_shards msize child))" for c child
    using splitTreeNode_path [of msize "[''dirs'', c]"]
    by (cases child) (auto simp: child_shards_def below_def o_def split_def)
  then show P
    using dirs True
    by (intro assms(2) [OF dirs]) (simp add: splitTreeNode.simps [of _ _ node] below_concat o_def split_def cong: map_cong)
next
  case False
  then show P
    by (intro assms(1)) (auto simp: splitTreeNode.simps [of _ _ node] split: option.splits json.splits)
qed

lemma child_shards_nonempty: "child_shards msize child \<noteq> []"
proof (cases child)
  case (JObj m)
  then show ?thesis
    by (cases msize m rule: splitTreeNode_cases) (simp_all add: child_shards_def)
qed (simp_all add: child_shards_def)

lemma wf_jobj_filter: "wf_jobj m \<Longrightarrow> wf_jobj (filter P m)"
  by (auto simp: wf_jobj_def wf_obj_def distinct_map_filter strict_sorted_iff sorted_filter)

lemma wf_dirs: "wf_jobj node \<Longrightarrow> map_of node k = Some (JObj dirs) \<Longrightarrow> wf_jobj dirs"
  using wf_jobj_value [of node k "JObj dirs"] by (simp only: wf_jobj_def [of dirs])

lemma wf_child: "wf_jobj dirs \<Longrightarrow> (c, child) \<in> set dirs \<Longrightarrow> wf_json child"
  by (force simp: wf_jobj_def)

lemma child_size:
  "map_of node k = Some (JObj dirs) \<Longrightarrow> (c, child) \<in> set dirs \<Longrightarrow> size child < size (JObj node)"
  using size_in_obj [of c child dirs] size_map_of [of node k "JObj dirs"] by simp

text \<open>An induction over the nodes of a tree that are split.\<close>

lemma split_induct [consumes 1, case_names leaf whole split]:
  assumes wf: "wf_json child"
    and leaf: "\<And>v. wf_json v \<Longrightarrow> child_shards msize v = [([], v)] \<Longrightarrow> (\<And>m. v \<noteq> JObj m) \<Longrightarrow> P v"
    and whole: "\<And>m. wf_jobj m \<Longrightarrow> child_shards msize (JObj m) = [([], JObj m)] \<Longrightarrow> P (JObj m)"
    and split: "\<And>m dirs. wf_jobj m \<Longrightarrow> map_of m ''dirs'' = Some (JObj dirs) \<Longrightarrow> dirs \<noteq> [] \<Longrightarrow> wf_jobj dirs \<Longrightarrow>
      (\<And>c v. (c, v) \<in> set dirs \<Longrightarrow> wf_json v \<and> P v) \<Longrightarrow>
      child_shards msize (JObj m) = ([], JObj (filter (\<lambda>(k, v). k \<noteq> ''dirs'') m))
        # below ''dirs'' (concat (map (\<lambda>(c, child). below c (child_shards msize child)) dirs)) \<Longrightarrow> P (JObj m)"
  shows "P child"
  using wf
proof (induction "size child" arbitrary: child rule: less_induct)
  case less
  show ?case
  proof (cases "\<exists>m. child = JObj m")
    case True
    then obtain m where m: "child = JObj m" by blast
    with less.prems have wf: "wf_jobj m" by (simp add: wf_jobj_def)
    show ?thesis
    proof (cases msize m rule: splitTreeNode_cases)
      case whole
      with assms(3) [OF wf] show ?thesis by (simp add: m child_shards_def)
    next
      case (split dirs)
      have "wf_json v \<and> P v" if "(c, v) \<in> set dirs" for c v
        using less.hyps child_size [OF split(1) that] wf_child [OF wf_dirs [OF wf split(1)] that] m by simp
      with assms(4) [OF wf split(1,2) wf_dirs [OF wf split(1)]] split(3) show ?thesis
        by (simp add: m child_shards_def)
    qed
  next
    case False
    then have "child_shards msize child = [([], child)]"
      by (cases child) (simp_all add: child_shards_def)
    with leaf less.prems False show ?thesis by blast
  qed
qed

lemma child_shards_wf:
  assumes "wf_json child"
  shows "wf_shards (child_shards msize child)"
  using assms
proof (induction rule: split_induct [where msize = msize])
  case (split m dirs)
  have "wf_json (JObj (filter (\<lambda>(k, v). k \<noteq> ''dirs'') m))"
    using wf_jobj_filter [OF split(1)] by (simp only: wf_jobj_def)
  moreover have "wf_shards (concat (map (\<lambda>(c, child). below c (child_shards msize child)) dirs))"
    using split(6) by (force simp: wf_shards_concat)
  ultimately show ?case
    by (simp add: split(5) del: wf_json.simps)
qed (simp_all add: wf_jobj_def)

lemma graft_blocks:
  assumes "wf_obj D" and "distinct (map fst dirs)" and "fst ` set dirs \<inter> fst ` set D = {}"
    and "\<And>c v. (c, v) \<in> set dirs \<Longrightarrow> wf_shards (sh v) \<and> sh v \<noteq> [] \<and> slot_graft None (sh v) = Some v"
  shows "graft_all D (concat (map (\<lambda>(c, child). below c (sh child)) dirs)) = obj_union D dirs"
  using assms
proof (induction dirs arbitrary: D)
  case (Cons e dirs)
  obtain c v where e: "e = (c, v)" by force
  have v: "wf_shards (sh v)" "sh v \<noteq> []" "slot_graft None (sh v) = Some v"
    using Cons.prems(4) [of c v] e by simp_all
  have "map_of D c = None"
    using Cons.prems(3) by (auto simp: e map_of_eq_None_iff)
  then have "graft_all D (below c (sh v)) = obj_set c v D"
    using graft_all_below [OF Cons.prems(1) v(1,2)] v(3) by simp
  moreover have "graft_all (obj_set c v D) (concat (map (\<lambda>(c, child). below c (sh child)) dirs)) =
      obj_union (obj_set c v D) dirs"
    using Cons.prems by (intro Cons.IH) (auto simp: e wf_obj_set obj_set_keys)
  ultimately show ?case
    by (simp add: e obj_union_def)
qed (simp add: obj_union_def)

lemma obj_without_reset:
  assumes "wf_obj m" and "map_of m k = Some x"
  shows "obj_set k x (filter (\<lambda>(k', v). k' \<noteq> k) m) = m"
proof (rule wf_obj_eqI)
  have wf: "wf_obj (filter (\<lambda>(k', v). k' \<noteq> k) m)"
    using assms(1) by (auto simp: wf_obj_def distinct_map_filter strict_sorted_iff sorted_filter)
  then show "wf_obj (obj_set k x (filter (\<lambda>(k', v). k' \<noteq> k) m))" by (rule wf_obj_set)
  have "map_of (filter (\<lambda>(k', v). k' \<noteq> k) m) k' = (if k' = k then None else map_of m k')" for k'
    by (induction m) auto
  with assms(2) show "map_of (obj_set k x (filter (\<lambda>(k', v). k' \<noteq> k) m)) = map_of m"
    by (auto simp: map_of_obj_set [OF wf])
qed (rule assms(1))

lemma child_shards_graft:
  assumes "wf_json child"
  shows "slot_graft None (child_shards msize child) = Some child"
  using assms
proof (induction rule: split_induct [where msize = msize])
  case (leaf v)
  then show ?case by (simp add: graft_val_def split: json.splits)
next
  case (whole m)
  then show ?case by (simp add: graft_val_def slot_obj_def obj_union_empty wf_jobj_obj)
next
  case (split m dirs)
  let ?parent = "filter (\<lambda>(k, v). k \<noteq> ''dirs'') m"
  let ?blocks = "concat (map (\<lambda>(c, child). below c (child_shards msize child)) dirs)"
  have wf: "wf_obj ?parent"
    using wf_jobj_obj [OF wf_jobj_filter [OF split(1)]] .
  have blocks: "wf_shards ?blocks" "?blocks \<noteq> []" "\<forall>p \<in> fst ` set ?blocks. p \<noteq> []"
    using split(3,6) child_shards_nonempty [of msize] child_shards_wf
    by (force simp: wf_shards_concat, cases dirs, auto simp: below_def)
  have "graft_all [] ?blocks = dirs"
    using split(4,6) graft_blocks [of "[]" dirs "child_shards msize"] child_shards_wf child_shards_nonempty
    by (simp add: wf_jobj_obj wf_obj_distinct obj_union_empty)
  moreover have "map_of ?parent ''dirs'' = None"
    by (auto simp: map_of_eq_None_iff)
  ultimately have "graft_all ?parent (below ''dirs'' ?blocks) = m"
    using graft_all_below [OF wf blocks(1,2), of "''dirs''"] slot_graft_fresh [OF blocks(3,2)]
      obj_without_reset [OF wf_jobj_obj [OF split(1)] split(2)] by simp
  moreover have "\<forall>p \<in> fst ` set (below ''dirs'' ?blocks). p \<noteq> []"
    by (auto simp: below_def)
  ultimately show ?case
    using wf by (simp add: split(5) graft_val_def slot_obj_def obj_union_empty slot_graft_inside)
qed

section \<open>The shards of one lattice fit together\<close>

lemma shards_compat_below [simp]: "shards_compat (k # p, v) (k # q, w) \<longleftrightarrow> shards_compat (p, v) (q, w)"
  by (simp add: shards_compat_def leaves_free_def)

lemma shards_compat_apart: "k \<noteq> l \<Longrightarrow> shards_compat (k # p, v) (l # q, w)"
  by (auto simp: shards_compat_def leaves_free_def)

lemma sorted_compat_below: "sorted_wrt shards_compat (below k xs) \<longleftrightarrow> sorted_wrt shards_compat xs"
  by (induction xs) (auto simp: below_def)

lemma sorted_compat_blocks:
  assumes "distinct (map fst dirs)" and "\<And>c v. (c, v) \<in> set dirs \<Longrightarrow> sorted_wrt shards_compat (sh v)"
  shows "sorted_wrt shards_compat (concat (map (\<lambda>(c, child). below c (sh child)) dirs))"
  using assms
proof (induction dirs)
  case (Cons e dirs)
  obtain c v where e: "e = (c, v)" by force
  have "shards_compat x y" if "x \<in> set (below c (sh v))" and "(d, w) \<in> set dirs" and "y \<in> set (below d (sh w))" for x y d w
  proof -
    have "c \<noteq> d"
      using Cons.prems(1) that(2) by (force simp: e)
    with that(1,3) show ?thesis
      by (auto simp: below_def intro: shards_compat_apart)
  qed
  with Cons show ?case
    by (auto simp: e sorted_wrt_append sorted_compat_below)
qed simp

lemma child_shards_compat:
  assumes "wf_json child"
  shows "sorted_wrt shards_compat (child_shards msize child)"
  using assms
proof (induction rule: split_induct [where msize = msize])
  case (split m dirs)
  have "shards_compat ([], JObj (filter (\<lambda>(k, v). k \<noteq> ''dirs'') m)) x" if "x \<in> set (below ''dirs'' xs)" for x xs
    using that by (auto simp: below_def shards_compat_def leaves_free_def map_of_eq_None_iff)
  moreover have "sorted_wrt shards_compat (concat (map (\<lambda>(c, child). below c (child_shards msize child)) dirs))"
    using split(4,6) by (intro sorted_compat_blocks) (auto simp: wf_jobj_obj wf_obj_distinct)
  ultimately show ?case
    by (simp add: split(5) sorted_compat_below)
qed simp_all

section \<open>The round trip\<close>

lemma plain_blocks: "map (\<lambda>(k, v). ([k], v)) m = concat (map (\<lambda>(k, v). below k [([], v)]) m)"
  by (induction m) auto

lemma wf_obj_filter: "wf_obj m \<Longrightarrow> wf_obj (filter P m)"
  by (auto simp: wf_obj_def distinct_map_filter strict_sorted_iff sorted_filter)

lemma slot_graft_plain: "wf_json v \<Longrightarrow> slot_graft None [([], v)] = Some v"
  by (cases v) (simp_all add: graft_val_def slot_obj_def obj_union_empty)

lemma splitIntoShards_mset:
  assumes "map_of lattice ''tree'' = Some (JObj tree)"
  shows "mset (splitIntoShards msize lattice) =
    mset (map (\<lambda>(k, v). ([k], v)) (filter (\<lambda>(k, v). k \<noteq> ''tree'') lattice) @ below ''tree'' (child_shards msize (JObj tree)))"
  using splitTreeNode_path [of msize "[''tree'']"]
  by (simp add: splitIntoShards_def assms child_shards_def below_def)

lemma graft_plain:
  assumes "wf_jobj lattice"
  shows "graft_all [] (map (\<lambda>(k, v). ([k], v)) (filter P lattice)) = filter P lattice"
proof -
  have wf: "wf_jobj (filter P lattice)" "wf_obj (filter P lattice)"
    using assms wf_jobj_filter wf_jobj_obj by blast+
  have "graft_all [] (map (\<lambda>(k, v). ([k], v)) (filter P lattice)) = obj_union [] (filter P lattice)"
    unfolding plain_blocks
    using wf_child [OF wf(1)] wf_obj_distinct [OF wf(2)]
    by (intro graft_blocks) (auto simp: slot_graft_plain simp del: slot_graft_simps)
  also have "\<dots> = filter P lattice"
    by (rule obj_union_empty [OF wf(2)])
  finally show ?thesis .
qed

lemma plain_compat:
  "wf_jobj lattice \<Longrightarrow> sorted_wrt shards_compat (map (\<lambda>(k, v). ([k], v)) (filter P lattice))"
  unfolding plain_blocks using wf_obj_distinct [OF wf_obj_filter [OF wf_jobj_obj]]
  by (intro sorted_compat_blocks) auto

lemma graft_lattice:
  assumes "wf_jobj lattice" and "map_of lattice ''tree'' = Some (JObj tree)"
  shows "graft_all [] (map (\<lambda>(k, v). ([k], v)) (filter (\<lambda>(k, v). k \<noteq> ''tree'') lattice)
    @ below ''tree'' (child_shards msize (JObj tree))) = lattice"
proof -
  let ?rest = "filter (\<lambda>(k, v). k \<noteq> ''tree'') lattice"
  have wf: "wf_obj ?rest" "wf_json (JObj tree)"
    using assms wf_jobj_filter wf_jobj_obj wf_jobj_value by blast+
  have "map_of ?rest ''tree'' = None"
    by (auto simp: map_of_eq_None_iff)
  with graft_plain [OF assms(1)] show ?thesis
    using graft_all_below [OF wf(1) child_shards_wf [OF wf(2)] child_shards_nonempty, of "''tree''"]
      child_shards_graft [OF wf(2)] obj_without_reset [OF wf_jobj_obj [OF assms(1)] assms(2)]
    by simp
qed

lemma lattice_shards_compat:
  assumes "wf_jobj lattice" and "map_of lattice ''tree'' = Some (JObj tree)"
  shows "sorted_wrt shards_compat (map (\<lambda>(k, v). ([k], v)) (filter (\<lambda>(k, v). k \<noteq> ''tree'') lattice)
    @ below ''tree'' (child_shards msize (JObj tree)))"
proof -
  let ?rest = "filter (\<lambda>(k, v). k \<noteq> ''tree'') lattice"
  have "sorted_wrt shards_compat (map (\<lambda>(k, v). ([k], v)) ?rest)"
    by (rule plain_compat [OF assms(1)])
  moreover have "sorted_wrt shards_compat (below ''tree'' (child_shards msize (JObj tree)))"
    using child_shards_compat [OF wf_jobj_value [OF assms]] by (simp add: sorted_compat_below)
  moreover have "shards_compat x y" if "x \<in> set (map (\<lambda>(k, v). ([k], v)) ?rest)" and "y \<in> set (below ''tree'' xs)" for x y xs
    using that by (auto simp: below_def intro: shards_compat_apart)
  ultimately show ?thesis
    by (auto simp: sorted_wrt_append)
qed

lemma splitIntoShards_rebuild:
  assumes "wf_jobj lattice" and "map_of lattice ''tree'' = Some (JObj tree)"
    and "mset shards = mset (splitIntoShards msize lattice)"
  shows "graft_all [] shards = lattice"
proof -
  let ?xs = "map (\<lambda>(k, v). ([k], v)) (filter (\<lambda>(k, v). k \<noteq> ''tree'') lattice) @ below ''tree'' (child_shards msize (JObj tree))"
  have "wf_shards (map (\<lambda>(k, v). ([k], v)) (filter (\<lambda>(k, v). k \<noteq> ''tree'') lattice))"
    using wf_child [OF assms(1)] by (auto simp: wf_shards_def)
  then have "wf_shards ?xs"
    using child_shards_wf [OF wf_jobj_value [OF assms(1,2)]] by simp
  then have "\<forall>x \<in> set ?xs. case x of (p, v) \<Rightarrow> wf_json v"
    unfolding wf_shards_def split_def by blast
  moreover have "mset ?xs = mset shards"
    using assms(3) splitIntoShards_mset [OF assms(2)] by simp
  ultimately have "graft_all [] ?xs = graft_all [] shards"
    unfolding graft_all_def
    using lattice_shards_compat [OF assms(1,2)] by (intro graft.fold_perm) simp_all
  then show ?thesis
    using graft_lattice [OF assms(1,2)] by simp
qed

text \<open>
  C2 (round trip): for a lattice whose tree is an object, grafting the shards of
  \<open>splitIntoShards\<close> into an empty map rebuilds the lattice, whatever the sizes of the nodes (hence
  wherever the tree is cut) and in whatever order the shards arrive. This is the claim of
  \<open>graftAtPath\<close>'s comment that the order of grafts does not matter.
\<close>

theorem splitIntoShards_graft:
  assumes "wf_jobj lattice" and "map_of lattice ''tree'' = Some (JObj tree)"
    and "mset shards = mset (splitIntoShards msize lattice)"
  shows "graft_all [] shards = lattice"
  by (rule splitIntoShards_rebuild [OF assms])

definition sample_lattice :: jobj where
  "sample_lattice =
     [(''bricks'', JObj [(''a'', JNum ''1'')]),
      (''tree'', JObj [(''dirs'', JObj [(''.aws'', JNull), (''m'', JObj [(''type'', JStr ''dir'')])]), (''type'', JStr ''dir'')])]"

lemma sample_lattice_wf: "wf_jobj sample_lattice"
  by (simp add: sample_lattice_def wf_jobj_def wf_obj_def)

theorem splitIntoShards_graft_witness:
  "graft_all [] (rev (splitIntoShards (\<lambda>_. recursionThreshold) sample_lattice)) = sample_lattice"
  by (rule splitIntoShards_graft [OF sample_lattice_wf _ mset_rev]) (simp add: sample_lattice_def)

text \<open>
  C40 (error): a nil tree is stored in the lattice as the key \<open>tree\<close> with the value \<open>null\<close>, but
  has no shard, so the shards rebuild a lattice without the key.
\<close>

theorem splitIntoShards_nil_tree:
  assumes "wf_jobj lattice" and "map_of lattice ''tree'' = Some JNull"
  shows "graft_all [] (splitIntoShards msize lattice) = filter (\<lambda>(k, v). k \<noteq> ''tree'') lattice"
proof -
  let ?rest = "filter (\<lambda>(k, v). k \<noteq> ''tree'') lattice"
  have wf: "wf_jobj ?rest" "wf_obj ?rest"
    using assms wf_jobj_filter wf_jobj_obj by blast+
  have "mset (map (\<lambda>(k, v). ([k], v)) ?rest) = mset (splitIntoShards msize lattice)"
    by (simp add: splitIntoShards_def assms(2))
  moreover have "sorted_wrt shards_compat (map (\<lambda>(k, v). ([k], v)) ?rest)"
    by (rule plain_compat [OF assms(1)])
  moreover have "\<forall>x \<in> set (map (\<lambda>(k, v). ([k], v)) ?rest). case x of (p, v) \<Rightarrow> wf_json v"
    using wf_child [OF assms(1)] by auto
  ultimately have "graft_all [] (map (\<lambda>(k, v). ([k], v)) ?rest) = graft_all [] (splitIntoShards msize lattice)"
    unfolding graft_all_def by (intro graft.fold_perm) simp_all
  then show ?thesis
    using graft_plain [OF assms(1)] by simp
qed

theorem splitIntoShards_nil_tree_witness:
  "graft_all [] (splitIntoShards (\<lambda>_. 0) [(''bricks'', JNull), (''tree'', JNull)]) = [(''bricks'', JNull)]"
  using splitIntoShards_nil_tree [of "[(''bricks'', JNull), (''tree'', JNull)]" "\<lambda>_. 0"]
  by (simp add: wf_jobj_def wf_obj_def)

end
