(* ===== verification/Gen.thy ===== *)
theory Gen
  imports GoFS GoFmt
begin

text \<open>
  \<open>lib/gen/gen.go\<close>, \<open>lib/gen/exec.go\<close> and the file sync of \<open>lib/gen/buildsync\<close>: slugs, catalog
  defaults, the CUE overlay, and the writers that keep modification times when nothing
  changed. CUE evaluation and \<open>cue fmt\<close> are parameters.
\<close>

section \<open>Slugs and catalog defaults\<close>

definition DefaultBrickSlug :: "string \<Rightarrow> string" where
  "DefaultBrickSlug p =
     (let parts = split_on slash p;
          parts' = (if length parts \<ge> 3 \<and> hd parts = ''tenant'' then drop 2 parts
                    else if length parts \<ge> 2 \<and> hd parts = ''kernel'' then drop 1 parts
                    else parts)
      in join ''--'' parts')"

definition BrickSlug :: "string \<Rightarrow> string \<Rightarrow> string" where
  "BrickSlug slug p = (if slug \<noteq> '''' then slug else DefaultBrickSlug p)"

text \<open>
  A catalog query: \<open>None\<close> when the field does not exist, \<open>Some None\<close> when it exists but is
  not a string.
\<close>

definition DefaultTenant :: "(string \<Rightarrow> string option option) \<Rightarrow> string" where
  "DefaultTenant query =
     (case query ''default_tenant'' of
        None \<Rightarrow> ''defn''
      | Some v \<Rightarrow> (case v of None \<Rightarrow> ''defn'' | Some s \<Rightarrow> if s = '''' then ''defn'' else s))"

definition MirrorPrefix :: "(string \<Rightarrow> string option option) \<Rightarrow> string" where
  "MirrorPrefix query =
     (case query ''mirror_prefix'' of None \<Rightarrow> '''' | Some v \<Rightarrow> (case v of None \<Rightarrow> '''' | Some s \<Rightarrow> s))"

definition CueFieldKey :: "string \<Rightarrow> string" where
  "CueFieldKey s = trim_cutset s [CHR 0x22]"

section \<open>The overlay\<close>

fun package_of_lines :: "string list \<Rightarrow> string" where
  "package_of_lines [] = ''''"
| "package_of_lines (line # rest) =
     (let t = trim_space line in
      if t = '''' \<or> has_prefix t ''//'' \<or> has_prefix t ''@'' then package_of_lines rest
      else if has_prefix t ''package '' then trim_space (drop 8 t)
      else '''')"

definition cuePackageName :: "string \<Rightarrow> string" where
  "cuePackageName src = package_of_lines (split_on newline src)"

text \<open>A directory entry: its name and whether it is a directory; \<open>None\<close> from \<open>ReadDir\<close> is an error.\<close>

type_synonym dirent = "string \<times> bool"

datatype readdir_result = Entries "dirent list" | NoDir | ReadDirErr

type_synonym overlay = "(string, string) gomap"

definition cue_files :: "dirent list \<Rightarrow> string list" where
  "cue_files es = map fst (filter (\<lambda>(name, is_dir). \<not> is_dir \<and> has_suffix name ''.cue'') es)"

definition tenant_virt :: "string \<Rightarrow> string \<Rightarrow> string \<Rightarrow> string \<Rightarrow> string" where
  "tenant_virt absDir sub tenant name =
     fp_join [absDir, ''kernel'', sub, ''tenant--'' @ tenant @ ''--'' @ name]"

text \<open>The files of one directory, projected under the name \<open>virt\<close> gives them.\<close>

fun add_files :: "(string \<Rightarrow> string option) \<Rightarrow> string \<Rightarrow> (string \<Rightarrow> string) \<Rightarrow> string list \<Rightarrow> overlay \<Rightarrow> overlay option" where
  "add_files read dir virt [] ov = Some ov"
| "add_files read dir virt (name # names) ov =
     (case read (fp_join [dir, name]) of
        None \<Rightarrow> None
      | Some src \<Rightarrow> add_files read dir virt names (AList.update (virt name) src ov))"

fun add_tenant_dirs :: "(string \<Rightarrow> readdir_result) \<Rightarrow> (string \<Rightarrow> string option) \<Rightarrow> string \<Rightarrow>
    (string \<times> string) list \<Rightarrow> overlay \<Rightarrow> overlay option" where
  "add_tenant_dirs readdir read absDir [] ov = Some ov"
| "add_tenant_dirs readdir read absDir ((tenant, sub) # rest) ov =
     (let subDir = fp_join [fp_join [absDir, ''tenant''], tenant, sub] in
      case readdir subDir of
        Entries es \<Rightarrow>
          (case add_files read subDir (tenant_virt absDir sub tenant) (cue_files es) ov of
             None \<Rightarrow> None
           | Some ov' \<Rightarrow> add_tenant_dirs readdir read absDir rest ov')
      | _ \<Rightarrow> add_tenant_dirs readdir read absDir rest ov)"

fun add_var_files :: "(string \<Rightarrow> string option) \<Rightarrow> string \<Rightarrow> string list \<Rightarrow> overlay \<Rightarrow> overlay option" where
  "add_var_files read absDir [] ov = Some ov"
| "add_var_files read absDir (name # names) ov =
     (case read (fp_join [fp_join [absDir, ''var''], name]) of
        None \<Rightarrow> None
      | Some src \<Rightarrow>
          (let pkg = cuePackageName src in
           if pkg = '''' then None
           else add_var_files read absDir names (AList.update (fp_join [absDir, ''kernel'', pkg, name]) src ov)))"

definition addVarOverlay :: "(string \<Rightarrow> readdir_result) \<Rightarrow> (string \<Rightarrow> string option) \<Rightarrow> string \<Rightarrow> overlay \<Rightarrow> overlay option" where
  "addVarOverlay readdir read absDir ov =
     (case readdir (fp_join [absDir, ''var'']) of
        NoDir \<Rightarrow> Some ov
      | ReadDirErr \<Rightarrow> None
      | Entries es \<Rightarrow> add_var_files read absDir (cue_files es) ov)"

definition buildOverlay :: "(string \<Rightarrow> readdir_result) \<Rightarrow> (string \<Rightarrow> string option) \<Rightarrow> string \<Rightarrow> overlay option" where
  "buildOverlay readdir read absDir =
     (let tenants = (case readdir (fp_join [absDir, ''tenant'']) of Entries es \<Rightarrow> Some es | NoDir \<Rightarrow> Some [] | ReadDirErr \<Rightarrow> None) in
      case tenants of
        None \<Rightarrow> None
      | Some es \<Rightarrow>
          (let dirs = concat (map (\<lambda>t. [(t, ''catalog''), (t, ''spec'')]) (map fst (filter snd es))) in
           case add_tenant_dirs readdir read absDir dirs [] of
             None \<Rightarrow> None
           | Some ov \<Rightarrow> addVarOverlay readdir read absDir ov))"

section \<open>Writers\<close>

text \<open>The result is the new file system, whether a write was needed, and whether it succeeded.\<close>

definition WriteIfChanged :: "string \<Rightarrow> string \<Rightarrow> nat \<Rightarrow> gofs \<Rightarrow> gofs \<times> bool \<times> bool" where
  "WriteIfChanged p content perm fs =
     (if ReadFile fs p = ReadData content then (fs, False, True)
      else case WriteFile p content perm fs of
        None \<Rightarrow> (fs, True, False)
      | Some fs' \<Rightarrow> (fs', True, True))"

text \<open>
  \<open>WriteCUEFmtIfChanged\<close>: the content is formatted in the temporary file \<open>tmp\<close> beside the
  target, which is removed on every path. \<open>cue_fmt\<close> gives the formatted text, or \<open>None\<close> when
  the tool fails.
\<close>

definition remove_tmp :: "string \<Rightarrow> gofs \<Rightarrow> gofs" where
  "remove_tmp tmp fs = (case Remove tmp fs of None \<Rightarrow> fs | Some fs' \<Rightarrow> fs')"

definition WriteCUEFmtIfChanged :: "(string \<Rightarrow> string option) \<Rightarrow> string \<Rightarrow> string \<Rightarrow> string \<Rightarrow> string \<Rightarrow> gofs \<Rightarrow>
    gofs \<times> bool \<times> bool" where
  "WriteCUEFmtIfChanged cue_fmt workDir tmp p raw fs =
     (let abs = fp_join [workDir, p] in
      case WriteFile tmp raw 384 fs of
        None \<Rightarrow> (fs, False, False)
      | Some fs1 \<Rightarrow>
      (case cue_fmt raw of
        None \<Rightarrow> (remove_tmp tmp fs1, False, False)
      | Some out \<Rightarrow>
      (case WriteFile tmp out 384 fs1 of
        None \<Rightarrow> (remove_tmp tmp fs1, False, False)
      | Some fs2 \<Rightarrow>
      (case ReadFile fs2 tmp of
        ReadData formatted \<Rightarrow>
          if ReadFile fs2 abs = ReadData formatted then (remove_tmp tmp fs2, False, True)
          else (case WriteFile abs formatted 420 fs2 of
            None \<Rightarrow> (remove_tmp tmp fs2, True, False)
          | Some fs3 \<Rightarrow> (remove_tmp tmp fs3, True, True))
      | _ \<Rightarrow> (remove_tmp tmp fs2, False, False)))))"

text \<open>\<open>syncFile\<close> of \<open>buildsync\<close>: errors end the function without a result; the log line is left out.\<close>

record syncOp =
  so_src :: string
  so_dest :: string
  so_mode :: string

definition sync_mode :: "string \<Rightarrow> nat" where
  "sync_mode mode = (if mode = ''755'' then 493 else 420)"

text \<open>The bytes to write: the source's, unless it is missing or the destination already matches.\<close>

definition sync_need :: "string \<Rightarrow> syncOp \<Rightarrow> gofs \<Rightarrow> string option" where
  "sync_need workDir op fs =
     (let srcPath = fp_join [workDir, so_src op]; destPath = fp_join [workDir, so_dest op] in
      case ReadFile fs srcPath of
        ReadData srcBytes \<Rightarrow>
          if ReadFile fs destPath = ReadData srcBytes \<and>
             map_option fl_mode (fs_files fs destPath) = Some (sync_mode (so_mode op))
          then None else Some srcBytes
      | _ \<Rightarrow> None)"

definition syncFile :: "string \<Rightarrow> syncOp \<Rightarrow> gofs \<Rightarrow> gofs" where
  "syncFile workDir op fs =
     (let destPath = fp_join [workDir, so_dest op]; destMode = sync_mode (so_mode op) in
      case sync_need workDir op fs of
        None \<Rightarrow> fs
      | Some srcBytes \<Rightarrow>
          (case WriteFile destPath srcBytes destMode fs of
             None \<Rightarrow> fs
           | Some fs' \<Rightarrow> Chmod destPath destMode fs'))"

section \<open>The writers keep the contract\<close>

definition put_if_changed :: "string \<times> string \<times> nat \<Rightarrow> gofs \<Rightarrow> gofs option" where
  "put_if_changed = (\<lambda>(p, content, perm) fs.
     case WriteIfChanged p content perm fs of (fs', _, ok) \<Rightarrow> if ok then Some fs' else None)"

lemma put_if_changed_eq:
  "put_if_changed (p, content, perm) fs =
     (if ReadFile fs p = ReadData content then Some fs else WriteFile p content perm fs)"
  by (auto simp: put_if_changed_def WriteIfChanged_def split: option.splits)

lemma WriteFile_read:
  "WriteFile p d m fs = Some fs' \<Longrightarrow> \<not> fs_noread fs p \<Longrightarrow> ReadFile fs' p = ReadData d"
  by (simp add: ReadFile_data WriteFile_data WriteFile_frame)

lemma WriteFile_agree: "WriteFile p d m fs = Some fs' \<Longrightarrow> agree_on (- {p}) fs' fs"
  using WriteFile_frame by (auto simp: agree_on_def)

lemma agree_on_read: "agree_on A gs fs \<Longrightarrow> p \<in> A \<Longrightarrow> ReadFile gs p = ReadFile fs p"
  by (simp add: agree_on_def ReadFile_def)

lemma agree_on_refl [simp]: "agree_on A fs fs"
  by (simp add: agree_on_def)

lemma WriteFile_clock: "WriteFile p d m fs = Some fs' \<Longrightarrow> fs_clock fs' = fs_clock fs + 1"
  by (auto simp: WriteFile_def Let_def split: if_splits)

lemma WriteFile_not_same: "WriteFile p d m fs \<noteq> Some fs"
  using WriteFile_clock [of p d m fs fs] by auto

interpretation wic: writer_family put_if_changed "\<lambda>(p, content, perm). p" "\<lambda>_. {}"
proof
  fix i :: "string \<times> string \<times> nat" and fs fs' gs
  obtain p d m where i: "i = (p, d, m)" by (cases i)
  show "agree_on (- {case i of (p, content, perm) \<Rightarrow> p}) fs' fs" if "put_if_changed i fs = Some fs'"
    using that WriteFile_agree by (auto simp: i put_if_changed_eq split: if_splits)
  show "put_if_changed i fs' = Some fs'"
    if "put_if_changed i fs = Some fs'" "\<not> fs_noread fs (case i of (p, content, perm) \<Rightarrow> p)"
    using that WriteFile_read by (auto simp: i put_if_changed_eq split: if_splits)
  show "put_if_changed i gs = Some gs"
    if "put_if_changed i fs = Some fs" "agree_on (insert (case i of (p, content, perm) \<Rightarrow> p) {}) gs fs"
    using that agree_on_read WriteFile_not_same by (auto simp: i put_if_changed_eq split: if_splits)
qed

definition put_sync :: "string \<Rightarrow> syncOp \<Rightarrow> gofs \<Rightarrow> gofs option" where
  "put_sync workDir op fs = Some (syncFile workDir op fs)"

lemma WriteFile_None: "WriteFile p d m fs = None \<longleftrightarrow> fs_nowrite fs p"
  by (simp add: WriteFile_def Let_def)

lemma Chmod_data: "file_data (Chmod p m fs) = file_data fs"
  by (auto simp: Chmod_def file_data_def fun_eq_iff split: option.splits)

lemma Chmod_mode: "file_data fs p \<noteq> None \<Longrightarrow> map_option fl_mode (fs_files (Chmod p m fs) p) = Some m"
  by (auto simp: Chmod_def file_data_def)

lemma Chmod_clock [simp]: "fs_clock (Chmod p m fs) = fs_clock fs"
  by (auto simp: Chmod_def split: option.splits)

text \<open>A sync either leaves the file system alone or writes the source's bytes.\<close>

lemma syncFile_same_iff:
  "syncFile workDir op fs = fs \<longleftrightarrow> sync_need workDir op fs = None \<or> fs_nowrite fs (fp_join [workDir, so_dest op])"
proof (cases "sync_need workDir op fs = None \<or> fs_nowrite fs (fp_join [workDir, so_dest op])")
  case True
  then have "syncFile workDir op fs = fs"
    using WriteFile_None [THEN iffD2] by (cases "sync_need workDir op fs") (auto simp: syncFile_def Let_def)
  with True show ?thesis by simp
next
  case False
  then obtain d where d: "sync_need workDir op fs = Some d" by auto
  from False obtain fs1 where w: "WriteFile (fp_join [workDir, so_dest op]) d (sync_mode (so_mode op)) fs = Some fs1"
    using WriteFile_None [of "fp_join [workDir, so_dest op]" d "sync_mode (so_mode op)" fs] by auto
  have "fs_clock (syncFile workDir op fs) = fs_clock fs + 1"
    using d w WriteFile_clock [OF w] by (simp add: syncFile_def)
  then have "syncFile workDir op fs \<noteq> fs"
    by auto
  with False show ?thesis by simp
qed

lemma sync_need_agree:
  "agree_on {fp_join [workDir, so_dest op], fp_join [workDir, so_src op]} gs fs \<Longrightarrow>
     sync_need workDir op gs = sync_need workDir op fs"
proof -
  assume a: "agree_on {fp_join [workDir, so_dest op], fp_join [workDir, so_src op]} gs fs"
  have "ReadFile gs (fp_join [workDir, so_src op]) = ReadFile fs (fp_join [workDir, so_src op])"
    "ReadFile gs (fp_join [workDir, so_dest op]) = ReadFile fs (fp_join [workDir, so_dest op])"
    "fs_files gs (fp_join [workDir, so_dest op]) = fs_files fs (fp_join [workDir, so_dest op])"
    using agree_on_read [OF a] a by (auto simp: agree_on_def)
  then show ?thesis
    unfolding sync_need_def Let_def by (simp only:)
qed

lemma syncFile_local:
  assumes "syncFile workDir op fs = fs"
    and "agree_on {fp_join [workDir, so_dest op], fp_join [workDir, so_src op]} gs fs"
  shows "syncFile workDir op gs = gs"
  using assms(1) sync_need_agree [OF assms(2)] assms(2) unfolding syncFile_same_iff by (simp add: agree_on_def)

lemma syncFile_agree: "agree_on (- {fp_join [workDir, so_dest op]}) (syncFile workDir op fs) fs"
  using WriteFile_frame by (auto simp: syncFile_def agree_on_def Let_def split: option.splits)

lemma syncFile_settles:
  assumes "\<not> fs_noread fs (fp_join [workDir, so_dest op])"
  shows "syncFile workDir op (syncFile workDir op fs) = syncFile workDir op fs"
proof (cases "syncFile workDir op fs = fs")
  case False
  let ?src = "fp_join [workDir, so_src op]" and ?dest = "fp_join [workDir, so_dest op]" and ?m = "sync_mode (so_mode op)"
  from False obtain d where d: "sync_need workDir op fs = Some d" and "\<not> fs_nowrite fs ?dest"
    by (auto simp: syncFile_same_iff)
  then obtain fs1 where w: "WriteFile ?dest d ?m fs = Some fs1"
    using WriteFile_None by (cases "WriteFile ?dest d ?m fs") auto
  have eq: "syncFile workDir op fs = Chmod ?dest ?m fs1"
    using d w by (simp add: syncFile_def)
  have data: "file_data (Chmod ?dest ?m fs1) = (file_data fs)(?dest \<mapsto> d)"
    using WriteFile_data [OF w] by (simp add: Chmod_data)
  note noread = WriteFile_frame(1) [OF w]
  have "ReadFile fs ?src = ReadData d"
    using d by (auto simp: sync_need_def Let_def split: read_result.splits if_splits)
  then have "ReadFile (Chmod ?dest ?m fs1) ?src = ReadData d"
    by (simp add: ReadFile_data data noread)
  moreover have "ReadFile (Chmod ?dest ?m fs1) ?dest = ReadData d"
    using assms by (simp add: ReadFile_data data noread)
  moreover have "map_option fl_mode (fs_files (Chmod ?dest ?m fs1) ?dest) = Some ?m"
    using WriteFile_data [OF w] by (intro Chmod_mode) simp
  ultimately have "sync_need workDir op (Chmod ?dest ?m fs1) = None"
    by (simp add: sync_need_def Let_def)
  then show ?thesis
    unfolding eq syncFile_same_iff by simp
qed simp

interpretation sync: writer_family "put_sync workDir" "\<lambda>op. fp_join [workDir, so_dest op]"
  "\<lambda>op. {fp_join [workDir, so_src op]}" for workDir
proof
  fix op :: syncOp and fs fs' gs
  show "agree_on (- {fp_join [workDir, so_dest op]}) fs' fs" if "put_sync workDir op fs = Some fs'"
    using that syncFile_agree by (auto simp: put_sync_def)
  show "put_sync workDir op fs' = Some fs'"
    if "put_sync workDir op fs = Some fs'" "\<not> fs_noread fs (fp_join [workDir, so_dest op])"
    using that syncFile_settles [OF that(2)] by (simp add: put_sync_def)
  show "put_sync workDir op gs = Some gs"
    if "put_sync workDir op fs = Some fs"
      "agree_on (insert (fp_join [workDir, so_dest op]) {fp_join [workDir, so_src op]}) gs fs"
    using that syncFile_local [of workDir op fs gs] by (simp add: put_sync_def)
qed

section \<open>The theorems\<close>

text \<open>
  \<open>WriteIfChanged\<close>: A pass of writes to different readable files is idempotent: when
  every write succeeded, the files hold the contents, and the same pass run again
  changes nothing, modification times included.
\<close>

theorem WriteIfChanged_pass_idempotent:
  assumes "run_all put_if_changed ws fs = Some fs'" and "distinct (map fst ws)"
    and "\<forall>(p, d, m) \<in> set ws. \<not> fs_noread fs p"
  shows "run_all put_if_changed ws fs' = Some fs' \<and> (\<forall>(p, d, m) \<in> set ws. file_data fs' p = Some d)"
proof -
  have readable: "\<forall>i \<in> set ws. \<not> fs_noread fs (case i of (p, d, m) \<Rightarrow> p)"
    using assms(3) by auto
  have order: "sorted_wrt (\<lambda>i j. (case j of (p, d, m) \<Rightarrow> p) \<notin> insert (case i of (p, d, m) \<Rightarrow> p) {}) ws"
    using assms(2) by (induction ws) force+
  have "put_if_changed w fs' = Some fs'" if "w \<in> set ws" for w
    using wic.run_all_settled [OF assms(1) readable order] that by blast
  then have "file_data fs' p = Some d" if "(p, d, m) \<in> set ws" for p d m
    using that WriteFile_not_same by (fastforce simp: put_if_changed_eq ReadFile_data split: if_splits)
  with wic.run_all_idempotent [OF assms(1) readable order] show ?thesis
    by blast
qed

definition empty_fs :: gofs where
  "empty_fs = \<lparr>fs_files = Map.empty, fs_clock = 0, fs_noread = (\<lambda>_. False), fs_nowrite = (\<lambda>_. False)\<rparr>"

theorem WriteIfChanged_pass_idempotent_witness:
  "\<exists>fs'. run_all put_if_changed [(''a'', ''x'', 420), (''b'', ''y'', 420)] empty_fs = Some fs' \<and>
     run_all put_if_changed [(''a'', ''x'', 420), (''b'', ''y'', 420)] fs' = Some fs'"
proof -
  obtain fs' where run: "run_all put_if_changed [(''a'', ''x'', 420), (''b'', ''y'', 420)] empty_fs = Some fs'"
    by (simp add: put_if_changed_eq ReadFile_def WriteFile_def empty_fs_def)
  have "run_all put_if_changed [(''a'', ''x'', 420), (''b'', ''y'', 420)] fs' = Some fs'"
    using WriteIfChanged_pass_idempotent [OF run] by (simp add: empty_fs_def)
  with run show ?thesis by blast
qed

text \<open>
  \<open>syncFile\<close>: A pass of syncs whose destinations are readable and are neither repeated
  nor a source of an earlier sync is idempotent: run again it changes nothing,
  modification times included.
\<close>

theorem syncFile_pass_idempotent:
  assumes "\<forall>op \<in> set ops. \<not> fs_noread fs (fp_join [workDir, so_dest op])"
    and "sorted_wrt (\<lambda>a b. fp_join [workDir, so_dest b] \<notin> {fp_join [workDir, so_dest a], fp_join [workDir, so_src a]}) ops"
  shows "fold (syncFile workDir) ops (fold (syncFile workDir) ops fs) = fold (syncFile workDir) ops fs"
proof -
  have run: "run_all (put_sync workDir) ops gs = Some (fold (syncFile workDir) ops gs)" for gs
    by (induction ops arbitrary: gs) (auto simp: put_sync_def)
  show ?thesis
    using sync.run_all_idempotent [OF run assms] by (simp add: run)
qed

theorem syncFile_pass_idempotent_witness:
  "let ops = [\<lparr>so_src = ''g'', so_dest = ''d'', so_mode = ''644''\<rparr>];
       fs = empty_fs\<lparr>fs_files := [''/w/g'' \<mapsto> \<lparr>fl_data = ''x'', fl_mtime = 0, fl_mode = 420\<rparr>]\<rparr>
   in fold (syncFile ''/w'') ops (fold (syncFile ''/w'') ops fs) = fold (syncFile ''/w'') ops fs"
  unfolding Let_def by (rule syncFile_pass_idempotent) (simp_all add: empty_fs_def)

text \<open>
  \<open>DefaultBrickSlug\<close>: The slug of a brick does not change when the brick moves between
  the kernel and a tenant or between tenants: it is the path below that prefix with the
  slashes replaced.
\<close>

theorem DefaultBrickSlug_stable:
  assumes "slash \<notin> set t"
  shows "DefaultBrickSlug (''tenant/'' @ t @ ''/'' @ p) = join ''--'' (split_on slash p)
    \<and> DefaultBrickSlug (''kernel/'' @ p) = join ''--'' (split_on slash p)"
proof -
  have tenant: "split_on slash (''tenant/'' @ t @ ''/'' @ p) = ''tenant'' # t # split_on slash p"
    using split_on_append_sep [of slash "''tenant''" "t @ ''/'' @ p"] split_on_append_sep [of slash t p] assms
    by (simp add: split_on_no_sep)
  have kernel: "split_on slash (''kernel/'' @ p) = ''kernel'' # split_on slash p"
    using split_on_append_sep [of slash "''kernel''" p] by simp
  have "length (split_on slash p) \<noteq> 0"
    by simp
  then have "length (split_on slash p) \<ge> 1"
    by linarith
  then show ?thesis
    unfolding DefaultBrickSlug_def tenant kernel Let_def by simp
qed

theorem DefaultBrickSlug_stable_witness:
  "DefaultBrickSlug ''tenant/x/go/cmd'' = ''go--cmd'' \<and> DefaultBrickSlug ''kernel/go/cmd'' = ''go--cmd''"
  using DefaultBrickSlug_stable [of "''x''" "''go/cmd''"] by simp

text \<open>
  \<open>buildOverlay\<close>: The virtual names of tenant files are not unique: the file \<open>b--x.cue\<close> of
  tenant \<open>a\<close> and the file \<open>x.cue\<close> of tenant \<open>a--b\<close> have the same one, so only one of the two
  contents reaches the overlay.
\<close>

theorem buildOverlay_name_clash:
  "buildOverlay
     (\<lambda>d. if d = ''/w/tenant'' then Entries [(''a'', True), (''a--b'', True)]
          else if d = ''/w/tenant/a/catalog'' then Entries [(''b--x.cue'', False)]
          else if d = ''/w/tenant/a--b/catalog'' then Entries [(''x.cue'', False)] else NoDir)
     (\<lambda>p. Some p) ''/w''
   = Some [(''/w/kernel/catalog/tenant--a--b--x.cue'', ''/w/tenant/a--b/catalog/x.cue'')]"
  by code_simp

end
