(* ===== verification/Parallel.thy ===== *)
theory Parallel
  imports Main "HOL-Library.Multiset"
begin

text \<open>
  \<open>Parallel\<close> and \<open>ParallelN\<close> of \<open>lib/gen/gen.go\<close>. The call of item \<open>i\<close> has the outcome \<open>fn i\<close>
  (\<open>None\<close> for a nil error); what is nondeterministic is the interleaving, which is a step
  relation. \<open>ParallelN\<close> is modelled with its channel: the main goroutine sends the
  indices and closes the channel, each worker receives, runs and stores, and exits when
  the channel is closed and empty. The buffer of the channel holds all items, so a send
  never blocks.
\<close>

section \<open>Parallel\<close>

fun first_error :: "'e option list \<Rightarrow> 'e option" where
  "first_error [] = None"
| "first_error (None # es) = first_error es"
| "first_error (Some e # es) = Some e"

text \<open>Goroutine \<open>i\<close> finishes: it stores its outcome at its own index.\<close>

inductive par_step :: "'e option list \<Rightarrow> nat set \<times> 'e option list \<Rightarrow> nat set \<times> 'e option list \<Rightarrow> bool"
  for outs where
  finish: "i < length outs \<Longrightarrow> i \<notin> fin \<Longrightarrow> par_step outs (fin, errs) (insert i fin, errs[i := outs ! i])"

definition par_init :: "'e option list \<Rightarrow> nat set \<times> 'e option list" where
  "par_init outs = ({}, replicate (length outs) None)"

text \<open>\<open>wg.Wait\<close> returns when every goroutine has finished.\<close>

definition par_done :: "'e option list \<Rightarrow> nat set \<times> 'e option list \<Rightarrow> bool" where
  "par_done outs s \<longleftrightarrow> fst s = {..<length outs}"

definition par_inv :: "'e option list \<Rightarrow> nat set \<times> 'e option list \<Rightarrow> bool" where
  "par_inv outs s \<longleftrightarrow> fst s \<subseteq> {..<length outs} \<and> length (snd s) = length outs \<and>
     (\<forall>i < length outs. snd s ! i = (if i \<in> fst s then outs ! i else None))"

lemma par_inv_reach: "(par_step outs)\<^sup>*\<^sup>* (par_init outs) s \<Longrightarrow> par_inv outs s"
proof (induction rule: rtranclp_induct)
  case base
  then show ?case
    by (simp add: par_init_def par_inv_def)
next
  case (step s t)
  from step(2,3) show ?case
    by cases (auto simp: par_inv_def nth_list_update)
qed

section \<open>ParallelN\<close>

datatype worker = Idle | Busy nat | Exited

record 'e pn_state =
  pn_sent :: nat
  pn_closed :: bool
  pn_queue :: "nat list"
  pn_workers :: "worker list"
  pn_errs :: "'e option list"

text \<open>The number of workers after the clamping of \<open>n\<close>, which is an \<open>int\<close>.\<close>

definition pn_workers_count :: "int \<Rightarrow> nat \<Rightarrow> nat" where
  "pn_workers_count n items = (if n \<le> 0 \<or> n > int items then items else nat n)"

definition pn_init :: "int \<Rightarrow> nat \<Rightarrow> 'e pn_state" where
  "pn_init n items =
     \<lparr>pn_sent = 0, pn_closed = False, pn_queue = [], pn_workers = replicate (pn_workers_count n items) Idle,
      pn_errs = replicate items None\<rparr>"

inductive pn_step :: "nat \<Rightarrow> (nat \<Rightarrow> 'e option) \<Rightarrow> 'e pn_state \<Rightarrow> 'e pn_state \<Rightarrow> bool" for items fn where
  send: "pn_sent s < items \<Longrightarrow>
    pn_step items fn s (s\<lparr>pn_sent := Suc (pn_sent s), pn_queue := pn_queue s @ [pn_sent s]\<rparr>)"
| close: "pn_sent s = items \<Longrightarrow> \<not> pn_closed s \<Longrightarrow> pn_step items fn s (s\<lparr>pn_closed := True\<rparr>)"
| take: "w < length (pn_workers s) \<Longrightarrow> pn_workers s ! w = Idle \<Longrightarrow> pn_queue s = i # q \<Longrightarrow>
    pn_step items fn s (s\<lparr>pn_queue := q, pn_workers := (pn_workers s)[w := Busy i]\<rparr>)"
| store: "w < length (pn_workers s) \<Longrightarrow> pn_workers s ! w = Busy i \<Longrightarrow>
    pn_step items fn s (s\<lparr>pn_errs := (pn_errs s)[i := fn i], pn_workers := (pn_workers s)[w := Idle]\<rparr>)"
| leave: "w < length (pn_workers s) \<Longrightarrow> pn_workers s ! w = Idle \<Longrightarrow> pn_queue s = [] \<Longrightarrow> pn_closed s \<Longrightarrow>
    pn_step items fn s (s\<lparr>pn_workers := (pn_workers s)[w := Exited]\<rparr>)"

inductive_cases pn_stepE: "pn_step items fn s t"

text \<open>\<open>close(work)\<close> has happened and every worker has called \<open>wg.Done\<close>.\<close>

definition pn_done :: "'e pn_state \<Rightarrow> bool" where
  "pn_done s \<longleftrightarrow> pn_closed s \<and> (\<forall>w \<in> set (pn_workers s). w = Exited)"

fun busy_item :: "worker \<Rightarrow> nat option" where
  "busy_item (Busy i) = Some i"
| "busy_item _ = None"

definition busy_items :: "'e pn_state \<Rightarrow> nat list" where
  "busy_items s = List.map_filter busy_item (pn_workers s)"

section \<open>Invariant of the pool\<close>

lemma map_filter_update:
  "w < length ws \<Longrightarrow>
     mset (List.map_filter f (ws[w := x])) + mset (case f (ws ! w) of None \<Rightarrow> [] | Some y \<Rightarrow> [y])
     = mset (List.map_filter f ws) + mset (case f x of None \<Rightarrow> [] | Some y \<Rightarrow> [y])"
proof (induction ws arbitrary: w)
  case (Cons a ws)
  then show ?case
    by (cases w) (auto simp: map_filter_simps split: option.splits)
qed simp

lemma busy_update:
  "w < length ws \<Longrightarrow>
     mset (List.map_filter busy_item (ws[w := x])) + mset (case busy_item (ws ! w) of None \<Rightarrow> [] | Some y \<Rightarrow> [y])
     = mset (List.map_filter busy_item ws) + mset (case busy_item x of None \<Rightarrow> [] | Some y \<Rightarrow> [y])"
  by (rule map_filter_update)

text \<open>
  The indices sent so far are, each exactly once, in the queue, in the hands of a worker,
  or stored; only stored indices have an entry in \<open>errs\<close>. A worker has exited only when the
  channel was closed and empty.
\<close>

definition pn_inv :: "nat \<Rightarrow> nat \<Rightarrow> (nat \<Rightarrow> 'e option) \<Rightarrow> nat multiset \<Rightarrow> 'e pn_state \<Rightarrow> bool" where
  "pn_inv k items fn stored s \<longleftrightarrow>
     length (pn_workers s) = k \<and> length (pn_errs s) = items \<and> pn_sent s \<le> items \<and>
     mset (pn_queue s) + mset (busy_items s) + stored = mset [0..<pn_sent s] \<and>
     (\<forall>i < items. pn_errs s ! i = (if i \<in># stored then fn i else None)) \<and>
     (pn_closed s \<longrightarrow> pn_sent s = items) \<and>
     (Exited \<in> set (pn_workers s) \<longrightarrow> pn_closed s \<and> pn_queue s = [])"

lemma pn_inv_init: "pn_inv (pn_workers_count n items) items fn {#} (pn_init n items)"
proof -
  have "List.map_filter busy_item (replicate k Idle) = []" for k
    by (induction k) (auto simp: map_filter_simps)
  then show ?thesis
    by (auto simp: pn_inv_def pn_init_def busy_items_def)
qed

lemma pn_inv_step:
  assumes "pn_step items fn s t" and "pn_inv k items fn stored s"
  shows "\<exists>stored'. pn_inv k items fn stored' t \<and> stored \<subseteq># stored'"
  using assms
proof cases
  case send
  with assms(2) show ?thesis
    by (intro exI [of _ stored]) (auto simp: pn_inv_def busy_items_def)
next
  case close
  with assms(2) show ?thesis
    by (intro exI [of _ stored]) (auto simp: pn_inv_def busy_items_def)
next
  case (take w i q)
  have "mset (List.map_filter busy_item ((pn_workers s)[w := Busy i])) = add_mset i (mset (busy_items s))"
    using busy_update [OF take(2), of "Busy i"] take(3) by (simp add: busy_items_def)
  moreover have "Exited \<notin> set (pn_workers s)"
    using assms(2) take(4) by (auto simp: pn_inv_def)
  then have "Exited \<notin> set ((pn_workers s)[w := Busy i])"
    using set_update_subset_insert by fastforce
  ultimately show ?thesis
    using assms(2) take by (intro exI [of _ stored]) (auto simp: pn_inv_def busy_items_def)
next
  case (store w i)
  have busy: "add_mset i (mset (List.map_filter busy_item ((pn_workers s)[w := Idle]))) = mset (busy_items s)"
    using busy_update [OF store(2), of Idle] store(3) by (simp add: busy_items_def)
  then have "i \<in># mset [0..<pn_sent s]"
    using assms(2) unfolding pn_inv_def by (metis union_iff union_single_eq_member)
  then have i: "i < items"
    using assms(2) by (auto simp: pn_inv_def)
  have "mset (pn_queue t) + mset (busy_items t) + add_mset i stored = mset [0..<pn_sent t]"
  proof -
    have "mset (pn_queue s) + mset (busy_items s) + stored = mset [0..<pn_sent s]"
      using assms(2) by (simp add: pn_inv_def)
    then show ?thesis
      unfolding busy [symmetric] by (simp add: store(1) busy_items_def)
  qed
  moreover have "Exited \<in> set (pn_workers t) \<Longrightarrow> Exited \<in> set (pn_workers s)"
    using store(1) set_update_subset_insert by fastforce
  ultimately show ?thesis
    using assms(2) store(1) i
    by (intro exI [of _ "add_mset i stored"]) (auto simp: pn_inv_def nth_list_update)
next
  case (leave w)
  have "mset (List.map_filter busy_item ((pn_workers s)[w := Exited])) = mset (busy_items s)"
    using busy_update [OF leave(2), of Exited] leave(3) by (simp add: busy_items_def)
  then show ?thesis
    using assms(2) leave by (intro exI [of _ stored]) (auto simp: pn_inv_def busy_items_def)
qed

lemma pn_inv_reach:
  assumes "(pn_step items fn)\<^sup>*\<^sup>* (pn_init n items) s"
  shows "\<exists>stored. pn_inv (pn_workers_count n items) items fn stored s"
  using assms
proof (induction rule: rtranclp_induct)
  case base
  then show ?case
    using pn_inv_init by blast
next
  case (step s t)
  then show ?case
    using pn_inv_step by blast
qed



section \<open>Every run ends\<close>

definition pn_measure :: "nat \<Rightarrow> 'e pn_state \<Rightarrow> nat" where
  "pn_measure items s =
     3 * (items - pn_sent s) + (if pn_closed s then 0 else 1) + 2 * length (pn_queue s)
     + length (busy_items s) + length (filter (\<lambda>w. w \<noteq> Exited) (pn_workers s))"

lemma length_filter_update:
  "w < length ws \<Longrightarrow> length (filter P (ws[w := x])) + (if P (ws ! w) then 1 else 0)
     = length (filter P ws) + (if P x then 1 else 0)"
proof (induction ws arbitrary: w)
  case (Cons a ws)
  then show ?case by (cases w) auto
qed simp

lemma pn_step_measure:
  assumes "pn_step items fn s t"
  shows "pn_measure items t < pn_measure items s"
  using assms
proof cases
  case (take w i q)
  have "length (List.map_filter busy_item ((pn_workers s)[w := Busy i])) = Suc (length (busy_items s))"
    using arg_cong [OF busy_update [OF take(2), of "Busy i"], of size] take(3) by (simp add: busy_items_def)
  then show ?thesis
    using length_filter_update [OF take(2), of "\<lambda>w. w \<noteq> Exited" "Busy i"] take
    by (simp add: pn_measure_def busy_items_def)
next
  case (store w i)
  have "Suc (length (List.map_filter busy_item ((pn_workers s)[w := Idle]))) = length (busy_items s)"
    using arg_cong [OF busy_update [OF store(2), of Idle], of size] store(3) by (simp add: busy_items_def)
  then show ?thesis
    using length_filter_update [OF store(2), of "\<lambda>w. w \<noteq> Exited" Idle] store
    by (simp add: pn_measure_def busy_items_def)
next
  case (leave w)
  have "length (List.map_filter busy_item ((pn_workers s)[w := Exited])) = length (busy_items s)"
    using arg_cong [OF busy_update [OF leave(2), of Exited], of size] leave(3) by (simp add: busy_items_def)
  then show ?thesis
    using length_filter_update [OF leave(2), of "\<lambda>w. w \<noteq> Exited" Exited] leave
    by (simp add: pn_measure_def busy_items_def)
qed (auto simp: pn_measure_def busy_items_def)

lemma pn_progress:
  assumes "pn_inv k items fn stored s" and "\<not> pn_done s"
  shows "\<exists>t. pn_step items fn s t"
proof -
  consider "pn_sent s < items" | "pn_sent s = items" "\<not> pn_closed s" | "pn_closed s"
    using assms(1) by (auto simp: pn_inv_def nat_less_le)
  then show ?thesis
  proof cases
    case 3
    then obtain w where w: "w < length (pn_workers s)" "pn_workers s ! w \<noteq> Exited"
      using assms(2) by (auto simp: pn_done_def in_set_conv_nth)
    show ?thesis
    proof (cases "pn_workers s ! w")
      case Idle
      then show ?thesis
        using w(1) 3 pn_step.take [of w s] pn_step.leave [of w s] by (cases "pn_queue s") blast+
    next
      case (Busy i)
      then show ?thesis
        using w(1) pn_step.store [of w s i] by blast
    qed (use w in simp)
  qed (blast intro: pn_step.send pn_step.close)+
qed

section \<open>The theorems\<close>

text \<open>
  \<open>Parallel\<close>: Whatever the interleaving, when all goroutines have finished the error
  returned is the first one in the order of the arguments, and the group never gets
  stuck before that.
\<close>

theorem Parallel_first_error:
  assumes "(par_step outs)\<^sup>*\<^sup>* (par_init outs) s"
  shows "(par_done outs s \<longrightarrow> first_error (snd s) = first_error outs) \<and>
    (\<not> par_done outs s \<longrightarrow> (\<exists>t. par_step outs s t))"
proof (intro conjI impI)
  note inv = par_inv_reach [OF assms, unfolded par_inv_def]
  assume "par_done outs s"
  then have "snd s = outs"
    using inv by (intro nth_equalityI) (auto simp: par_done_def)
  then show "first_error (snd s) = first_error outs"
    by simp
next
  note inv = par_inv_reach [OF assms, unfolded par_inv_def]
  assume "\<not> par_done outs s"
  then obtain i where "i < length outs" "i \<notin> fst s"
    using inv by (auto simp: par_done_def)
  then show "\<exists>t. par_step outs s t"
    using par_step.finish [of i outs "fst s" "snd s"] by auto
qed

theorem Parallel_first_error_witness:
  "first_error (snd ({0, 1 :: nat}, [None, Some ''e''])) = first_error [None, Some ''e'']"
proof -
  have "par_step [None, Some ''e''] (par_init [None, Some ''e'']) ({1}, [None, Some ''e''])"
    using par_step.finish [of 1 "[None, Some ''e'']" "{}" "[None, None]"] by (simp add: par_init_def)
  moreover have "par_step [None, Some ''e''] ({1}, [None, Some ''e'']) ({0, 1}, [None, Some ''e''])"
    using par_step.finish [of 0 "[None, Some ''e'']" "{1}" "[None, Some ''e'']"] by simp
  ultimately have "(par_step [None, Some ''e''])\<^sup>*\<^sup>* (par_init [None, Some ''e'']) ({0, 1}, [None, Some ''e''])"
    by (meson converse_rtranclp_into_rtranclp rtranclp.rtrancl_refl)
  from Parallel_first_error [OF this] show ?thesis
    by (simp add: par_done_def lessThan_Suc numeral_2_eq_2 insert_commute)
qed


text \<open>
  \<open>ParallelN\<close>: The pool never deadlocks and always ends: a reachable state in which
  not all workers have exited has a next step, and every step decreases a natural
  number.
\<close>

theorem ParallelN_terminates:
  assumes "(pn_step items fn)\<^sup>*\<^sup>* (pn_init n items) s"
  shows "(\<not> pn_done s \<longrightarrow> (\<exists>t. pn_step items fn s t)) \<and>
    (\<forall>t. pn_step items fn s t \<longrightarrow> pn_measure items t < pn_measure items s)"
  using pn_inv_reach [OF assms] pn_progress pn_step_measure by blast

section \<open>A sample run\<close>

definition sample_pool :: "nat \<Rightarrow> bool \<Rightarrow> nat list \<Rightarrow> worker \<Rightarrow> string option \<Rightarrow> string pn_state" where
  "sample_pool sent closed queue w e =
     \<lparr>pn_sent = sent, pn_closed = closed, pn_queue = queue, pn_workers = [w], pn_errs = [e]\<rparr>"

lemma sample_run:
  defines "step \<equiv> pn_step 1 (\<lambda>_. Some ''e'')"
  shows "step\<^sup>*\<^sup>* (pn_init 4 1) (sample_pool 1 True [] (Busy 0) None)"
    and "step\<^sup>*\<^sup>* (pn_init 4 1) (sample_pool 1 True [] Exited (Some ''e''))"
proof -
  have init: "pn_init 4 1 = sample_pool 0 False [] Idle None"
    by (simp add: pn_init_def pn_workers_count_def sample_pool_def)
  have s1: "step (sample_pool 0 False [] Idle None) (sample_pool 1 False [0] Idle None)"
    using pn_step.send [of "sample_pool 0 False [] Idle None" 1] by (simp add: step_def sample_pool_def)
  have s2: "step (sample_pool 1 False [0] Idle None) (sample_pool 1 False [] (Busy 0) None)"
    using pn_step.take [of 0 "sample_pool 1 False [0] Idle None" 0 "[]" 1] by (simp add: step_def sample_pool_def)
  have s3: "step (sample_pool 1 False [] (Busy 0) None) (sample_pool 1 True [] (Busy 0) None)"
    using pn_step.close [of "sample_pool 1 False [] (Busy 0) None" 1] by (simp add: step_def sample_pool_def)
  have s4: "step (sample_pool 1 True [] (Busy 0) None) (sample_pool 1 True [] Idle (Some ''e''))"
    using pn_step.store [of 0 "sample_pool 1 True [] (Busy 0) None" 0 1 "\<lambda>_. Some ''e''"]
    by (simp add: step_def sample_pool_def)
  have s5: "step (sample_pool 1 True [] Idle (Some ''e'')) (sample_pool 1 True [] Exited (Some ''e''))"
    using pn_step.leave [of 0 "sample_pool 1 True [] Idle (Some ''e'')" 1] by (simp add: step_def sample_pool_def)
  show r: "step\<^sup>*\<^sup>* (pn_init 4 1) (sample_pool 1 True [] (Busy 0) None)"
    unfolding init using s1 s2 s3 by (meson rtranclp.rtrancl_refl converse_rtranclp_into_rtranclp)
  show "step\<^sup>*\<^sup>* (pn_init 4 1) (sample_pool 1 True [] Exited (Some ''e''))"
    using r s4 s5 by (meson rtranclp.rtrancl_into_rtrancl)
qed


theorem ParallelN_terminates_witness:
  "\<exists>t. pn_step 1 (\<lambda>_. Some ''e'') (sample_pool 1 True [] (Busy 0) None) t"
  using ParallelN_terminates [OF sample_run(1)] by (simp add: pn_done_def sample_pool_def)

end
