(* ===== verification/LatticeStore.thy ===== *)
theory LatticeStore
  imports LatticeShards Gen Parallel
begin

text \<open>
  The lattice on disk: \<open>lib/gen/lattice/lattice.go\<close> writes the shards of the lattice and an
  index into \<open>var/lattice\<close>, \<open>MergeShards\<close> of \<open>lib/spec/spec.go\<close> reads them back. The encodings
  are the fields of a \<open>codec\<close>: \<open>json.Marshal\<close> and \<open>json.Unmarshal\<close>, gzip, SHA-256 in hexadecimal.
  Failing to create a directory is failing to write in it.
\<close>

section \<open>Building the lattice\<close>

record shard_entry =
  se_path :: "string list"
  se_file :: string
  se_sha :: string

record shard_index =
  ix_version :: int
  ix_sha :: string
  ix_shards :: "shard_entry list"

record codec =
  marshal :: "json \<Rightarrow> string option"
  unmarshal :: "string \<Rightarrow> json option"
  marshal_index :: "shard_index \<Rightarrow> string option"
  unmarshal_index :: "string \<Rightarrow> shard_index option"
  gzip :: "string \<Rightarrow> string option"
  gunzip :: "string \<Rightarrow> string option"
  sha256 :: "string \<Rightarrow> string"

definition gzipThreshold :: nat where
  "gzipThreshold = 64 * 1024"

definition shardDirRel :: string where
  "shardDirRel = ''var/lattice''"

definition shardSubtreeRel :: string where
  "shardSubtreeRel = ''m/'' @ shardDirRel"

definition skipEnrich :: "string \<Rightarrow> bool" where
  "skipEnrich name = list_ex (has_suffix name) [''.gz'', ''.tgz'', ''.jar'', ''.sha256'']"

text \<open>The content of one file entry.\<close>

definition enrich_file :: "gofs \<Rightarrow> string \<Rightarrow> string \<times> json \<Rightarrow> string \<times> json" where
  "enrich_file fs basePath = (\<lambda>(fname, entry).
     case entry of
       JObj m \<Rightarrow>
         if map_of m ''type'' \<noteq> Some (JStr ''file'') \<or> skipEnrich fname then (fname, entry)
         else (case ReadFile fs (fp_join [basePath, fname]) of
             ReadData content \<Rightarrow> (fname, JObj (obj_set ''content'' (JStr (trim_space content)) m))
           | _ \<Rightarrow> (fname, entry))
     | _ \<Rightarrow> (fname, entry))"

definition enrich_files :: "gofs \<Rightarrow> string \<Rightarrow> jobj \<Rightarrow> jobj" where
  "enrich_files fs basePath tree =
     (case map_of tree ''files'' of
        Some (JObj files) \<Rightarrow> obj_set ''files'' (JObj (map (enrich_file fs basePath) files)) tree
      | _ \<Rightarrow> tree)"

lemma enrich_files_dirs: "map_of (enrich_files fs b tree) ''dirs'' = map_of tree ''dirs''"
proof -
  have "map_of (obj_set ''files'' v tree) ''dirs'' = map_of tree ''dirs''" for v
    by (induction "''files''" v tree rule: obj_set.induct) auto
  then show ?thesis
    by (simp add: enrich_files_def split: option.splits json.splits)
qed

function enrichTree :: "gofs \<Rightarrow> jobj \<Rightarrow> string \<Rightarrow> string \<Rightarrow> jobj" where
  "enrichTree fs tree basePath treeRel =
     (if treeRel = shardSubtreeRel then tree
      else let tree' = enrich_files fs basePath tree in
        case map_of tree ''dirs'' of
          Some (JObj dirs) \<Rightarrow>
            obj_set ''dirs'' (JObj (map (\<lambda>(dname, subtree).
              (dname, case subtree of
                 JObj m \<Rightarrow> JObj (enrichTree fs m (fp_join [basePath, dname])
                             (if treeRel = '''' then dname else treeRel @ ''/'' @ dname))
               | _ \<Rightarrow> subtree)) dirs)) tree'
        | _ \<Rightarrow> tree')"
  by pat_completeness auto
termination
proof (relation "measure (\<lambda>(_, tree, _, _). size (JObj tree))", goal_cases)
  case (2 fs tree basePath treeRel tree' v dirs e dname subtree m)
  have "size subtree < size_list (size_prod (\<lambda>_. 0) size) dirs"
    using 2 by (intro size_in_obj) auto
  moreover have "size v < size_list (size_prod (\<lambda>_. 0) size) tree"
    using 2 by (intro size_map_of) auto
  ultimately show ?case
    using 2 by simp
qed simp

declare enrichTree.simps [simp del]

text \<open>
  \<open>buildLattice\<close>: \<open>cq\<close> and \<open>sq\<close> give the value of a catalog or schema expression, \<open>None\<close> when it does
  not marshal; \<open>spec_tree\<close> is the tree of the running pipeline, \<open>cue_tree\<close> the one loaded from
  CUE when there is none.
\<close>

definition catalogFields :: "string list" where
  "catalogFields =
     [''formatters'', ''apps'', ''k3d_clusters'', ''k8s_platforms'',
      ''environments'', ''chart_versions'', ''oci_images'',
      ''container_images'', ''bricks'', ''skills'',
      ''aws_tofu_apps'', ''aws_orgs'', ''aws_accounts'', ''auth'']"

definition set_if :: "string \<Rightarrow> json option \<Rightarrow> jobj \<Rightarrow> jobj" where
  "set_if k v m = (case v of None \<Rightarrow> m | Some x \<Rightarrow> obj_set k x m)"

definition buildLattice :: "(string \<Rightarrow> json option) \<Rightarrow> (string \<Rightarrow> json option) \<Rightarrow> string \<Rightarrow> jobj option \<Rightarrow> jobj option \<Rightarrow> jobj" where
  "buildLattice cq sq default_tenant spec_tree cue_tree =
     (let lattice = foldl (\<lambda>m field. obj_set field (case cq field of None \<Rightarrow> JObj [] | Some v \<Rightarrow> v) m) [] catalogFields;
          lattice = obj_set ''default_tenant'' (JStr default_tenant) lattice;
          lattice = set_if ''approved_requires'' (cq ''scripting_policy.approved_requires'') lattice;
          lattice = set_if ''versions'' (sq ''versions'') lattice;
          tree = (case spec_tree of Some t \<Rightarrow> Some t | None \<Rightarrow> cue_tree)
      in obj_set ''tree'' (case tree of None \<Rightarrow> JNull | Some t \<Rightarrow> JObj t) lattice)"

definition enrichLatticeTree :: "gofs \<Rightarrow> string option \<Rightarrow> jobj \<Rightarrow> jobj option" where
  "enrichLatticeTree fs repoRoot lattice =
     (case repoRoot of
        None \<Rightarrow> None
      | Some root \<Rightarrow> Some
          (case map_of lattice ''tree'' of
             Some (JObj tree) \<Rightarrow> obj_set ''tree'' (JObj (enrichTree fs tree root '''')) lattice
           | _ \<Rightarrow> lattice))"

section \<open>Writing the shards\<close>

datatype lattice_error =
    GitRevParse | MarshalMerged | MarshalShard "string list" | GzipShard "string list" | WriteShard string
  | MarshalManifest | WriteIndex | WriteIndexSha | PruneShards

datatype lattice_status = Unchanged nat | Generated nat nat

definition shardFilename :: "string list \<Rightarrow> string" where
  "shardFilename p = join ''--'' p @ ''.json''"

text \<open>The name and the bytes of a shard file.\<close>

definition shard_file :: "codec \<Rightarrow> shard \<Rightarrow> lattice_error + string \<times> string" where
  "shard_file c = (\<lambda>(p, v).
     case marshal c v of
       None \<Rightarrow> Inl (MarshalShard p)
     | Some r \<Rightarrow>
         (let raw = r @ [newline] in
          if length raw \<ge> gzipThreshold
          then (case gzip c raw of None \<Rightarrow> Inl (GzipShard p) | Some z \<Rightarrow> Inr (shardFilename p @ ''.gz'', z))
          else Inr (shardFilename p, raw)))"

text \<open>The other encoding of the same shard, left by an earlier run.\<close>

definition sibling :: "string list \<Rightarrow> string \<Rightarrow> string" where
  "sibling p fname = (if fname = shardFilename p then shardFilename p @ ''.gz'' else shardFilename p)"

definition write_shard :: "codec \<Rightarrow> string \<Rightarrow> shard \<Rightarrow> gofs \<Rightarrow> gofs \<times> (lattice_error + shard_entry)" where
  "write_shard c shardDir sh fs =
     (case shard_file c sh of
        Inl e \<Rightarrow> (fs, Inl e)
      | Inr (fname, bytes) \<Rightarrow>
          (case WriteIfChanged (fp_join [shardDir, fname]) bytes 420 fs of
             (fs', _, ok) \<Rightarrow>
               if ok then (remove_tmp (fp_join [shardDir, sibling (fst sh) fname]) fs',
                           Inr \<lparr>se_path = fst sh, se_file = fname, se_sha = sha256 c bytes\<rparr>)
               else (fs', Inl (WriteShard fname))))"

fun write_shards :: "codec \<Rightarrow> string \<Rightarrow> shard list \<Rightarrow> gofs \<Rightarrow> gofs \<times> (lattice_error + shard_entry list)" where
  "write_shards c shardDir [] fs = (fs, Inr [])"
| "write_shards c shardDir (sh # shards) fs =
     (case write_shard c shardDir sh fs of
        (fs', Inl e) \<Rightarrow> (fs', Inl e)
      | (fs', Inr entry) \<Rightarrow>
          (case write_shards c shardDir shards fs' of
             (fs'', Inl e) \<Rightarrow> (fs'', Inl e)
           | (fs'', Inr entries) \<Rightarrow> (fs'', Inr (entry # entries))))"

definition is_shard_name :: "string \<Rightarrow> bool" where
  "is_shard_name name \<longleftrightarrow> has_suffix name ''.json'' \<or> has_suffix name ''.json.gz'' \<or> has_suffix name ''.sha256''"

fun prune_entries :: "string \<Rightarrow> string list \<Rightarrow> dirent list \<Rightarrow> gofs \<Rightarrow> gofs \<times> bool" where
  "prune_entries shardDir keep [] fs = (fs, True)"
| "prune_entries shardDir keep ((name, is_dir) # es) fs =
     (if is_dir \<or> \<not> is_shard_name name \<or> name \<in> set keep then prune_entries shardDir keep es fs
      else case Remove (fp_join [shardDir, name]) fs of
        None \<Rightarrow> (fs, False)
      | Some fs' \<Rightarrow> prune_entries shardDir keep es fs')"

definition pruneStaleShards :: "(gofs \<Rightarrow> string \<Rightarrow> readdir_result) \<Rightarrow> string \<Rightarrow> string list \<Rightarrow> gofs \<Rightarrow> gofs \<times> bool" where
  "pruneStaleShards readdir shardDir keep fs =
     (case readdir fs shardDir of
        Entries es \<Rightarrow> prune_entries shardDir keep es fs
      | _ \<Rightarrow> (fs, False))"

definition removeMonolith :: "string \<Rightarrow> gofs \<Rightarrow> gofs" where
  "removeMonolith workDir fs =
     foldl (\<lambda>fs rel. remove_tmp (fp_join [workDir, rel]) fs) fs
       [''var/lattice.json.gz'', ''var/lattice.json.sha256'', ''var/lattice.json'']"

text \<open>The part of \<open>Run\<close> after the shards are written: manifest, digest, garbage collection.\<close>

definition finish_run :: "codec \<Rightarrow> (gofs \<Rightarrow> string \<Rightarrow> readdir_result) \<Rightarrow> string \<Rightarrow> string \<Rightarrow> shard_entry list \<Rightarrow> gofs \<Rightarrow>
    gofs \<times> lattice_error option" where
  "finish_run c readdir shardDir digest entries fs =
     (let sorted = sort_key (\<lambda>e. shard_key (se_path e)) entries in
      case marshal_index c \<lparr>ix_version = 1, ix_sha = digest, ix_shards = sorted\<rparr> of
        None \<Rightarrow> (fs, Some MarshalManifest)
      | Some manifest \<Rightarrow>
      (case WriteIfChanged (fp_join [shardDir, ''_index.json'']) (manifest @ [newline]) 420 fs of
        (fs1, _, False) \<Rightarrow> (fs1, Some WriteIndex)
      | (fs1, _, True) \<Rightarrow>
      (case WriteIfChanged (fp_join [shardDir, ''_index.sha256'']) (digest @ [newline]) 420 fs1 of
        (fs2, _, False) \<Rightarrow> (fs2, Some WriteIndexSha)
      | (fs2, _, True) \<Rightarrow>
      (case pruneStaleShards readdir shardDir (map se_file entries @ [''_index.json'', ''_index.sha256'']) fs2 of
        (fs3, False) \<Rightarrow> (fs3, Some PruneShards)
      | (fs3, True) \<Rightarrow> (fs3, None)))))"

definition marshal_size :: "codec \<Rightarrow> json \<Rightarrow> nat" where
  "marshal_size c v = (case marshal c v of None \<Rightarrow> 0 | Some r \<Rightarrow> length r)"

definition store_lattice :: "codec \<Rightarrow> (gofs \<Rightarrow> string \<Rightarrow> readdir_result) \<Rightarrow> string \<Rightarrow> jobj \<Rightarrow> gofs \<Rightarrow>
    gofs \<times> (lattice_error + lattice_status)" where
  "store_lattice c readdir workDir lattice fs =
     (case marshal c (JObj lattice) of
        None \<Rightarrow> (fs, Inl MarshalMerged)
      | Some r \<Rightarrow>
          (let mergedJSON = r @ [newline]; digest = sha256 c mergedJSON;
               shardDir = fp_join [workDir, shardDirRel] in
           if (case ReadFile fs (fp_join [shardDir, ''_index.sha256'']) of
                 ReadData old \<Rightarrow> trim_space old = digest | _ \<Rightarrow> False)
           then (removeMonolith workDir fs, Inr (Unchanged (length mergedJSON)))
           else case write_shards c shardDir (splitIntoShards (marshal_size c) lattice) fs of
             (fs1, Inl e) \<Rightarrow> (fs1, Inl e)
           | (fs1, Inr entries) \<Rightarrow>
               (case finish_run c readdir shardDir digest entries fs1 of
                  (fs2, Some e) \<Rightarrow> (fs2, Inl e)
                | (fs2, None) \<Rightarrow> (removeMonolith workDir fs2, Inr (Generated (length entries) (length mergedJSON))))))"

definition Run :: "codec \<Rightarrow> (gofs \<Rightarrow> string \<Rightarrow> readdir_result) \<Rightarrow> string option \<Rightarrow> string \<Rightarrow> jobj \<Rightarrow> gofs \<Rightarrow>
    gofs \<times> (lattice_error + lattice_status)" where
  "Run c readdir repoRoot workDir built fs =
     (case enrichLatticeTree fs repoRoot built of
        None \<Rightarrow> (fs, Inl GitRevParse)
      | Some lattice \<Rightarrow> store_lattice c readdir workDir lattice fs)"

section \<open>Reading the shards\<close>

datatype merge_error =
    ReadIndex | ParseIndex | BadVersion int | ReadShard string | ShaMismatch string | GunzipShard string
  | ParseShard string | MarshalRoot | MergedMismatch

text \<open>One goroutine of \<open>MergeShards\<close>: it reads its shard and fills its own slot of \<open>parsed\<close> or \<open>errs\<close>.\<close>

definition load_shard :: "codec \<Rightarrow> string \<Rightarrow> gofs \<Rightarrow> shard_entry \<Rightarrow> merge_error + json" where
  "load_shard c shardDir fs sh =
     (case ReadFile fs (fp_join [shardDir, se_file sh]) of
        ReadData rawOnDisk \<Rightarrow>
          if sha256 c rawOnDisk \<noteq> se_sha sh then Inl (ShaMismatch (se_file sh))
          else (case (if has_suffix (se_file sh) ''.gz'' then gunzip c rawOnDisk else Some rawOnDisk) of
             None \<Rightarrow> Inl (GunzipShard (se_file sh))
           | Some jsonBytes \<Rightarrow>
               (case unmarshal c jsonBytes of
                  None \<Rightarrow> Inl (ParseShard (se_file sh))
                | Some v \<Rightarrow> Inr v))
      | _ \<Rightarrow> Inl (ReadShard (se_file sh)))"

definition slot_error :: "'e + 'a \<Rightarrow> 'e option" where
  "slot_error r = (case r of Inl e \<Rightarrow> Some e | Inr _ \<Rightarrow> None)"

definition slot_value :: "'e + json \<Rightarrow> json" where
  "slot_value r = (case r of Inl _ \<Rightarrow> JNull | Inr v \<Rightarrow> v)"

definition MergeShards :: "codec \<Rightarrow> string \<Rightarrow> gofs \<Rightarrow> merge_error + string" where
  "MergeShards c shardDir fs =
     (case ReadFile fs (fp_join [shardDir, ''_index.json'']) of
        ReadData indexBytes \<Rightarrow>
          (case unmarshal_index c indexBytes of
             None \<Rightarrow> Inl ParseIndex
           | Some idx \<Rightarrow>
               if ix_version idx \<noteq> 1 then Inl (BadVersion (ix_version idx))
               else let slots = map (load_shard c shardDir fs) (ix_shards idx) in
                 case first_error (map slot_error slots) of
                   Some e \<Rightarrow> Inl e
                 | None \<Rightarrow>
                     (case marshal c (JObj (graft_all [] (zip (map se_path (ix_shards idx)) (map slot_value slots)))) of
                        None \<Rightarrow> Inl MarshalRoot
                      | Some r \<Rightarrow>
                          (let out = r @ [newline] in
                           if sha256 c out \<noteq> ix_sha idx then Inl MergedMismatch else Inr out)))
      | _ \<Rightarrow> Inl ReadIndex)"

definition readShardFile :: "codec \<Rightarrow> gofs \<Rightarrow> string \<Rightarrow> string option" where
  "readShardFile c fs p =
     (case ReadFile fs p of
        ReadData raw \<Rightarrow> if has_suffix p ''.gz'' then gunzip c raw else Some raw
      | _ \<Rightarrow> None)"

section \<open>What the writers leave on disk\<close>

text \<open>Two file systems with the same permissions that agree outside the paths \<open>A\<close>.\<close>

definition touches :: "string set \<Rightarrow> gofs \<Rightarrow> gofs \<Rightarrow> bool" where
  "touches A fs' fs \<longleftrightarrow> agree_on (- A) fs' fs"

lemma touches_refl [simp]: "touches A fs fs"
  by (simp add: touches_def)

lemma touches_trans: "touches A fs2 fs1 \<Longrightarrow> touches B fs1 fs \<Longrightarrow> touches (A \<union> B) fs2 fs"
  by (auto simp: touches_def agree_on_def)

lemma touches_mono: "touches A fs' fs \<Longrightarrow> A \<subseteq> B \<Longrightarrow> touches B fs' fs"
  by (auto simp: touches_def agree_on_def)

lemma touches_data: "touches A fs' fs \<Longrightarrow> q \<notin> A \<Longrightarrow> file_data fs' q = file_data fs q"
  by (simp add: touches_def agree_on_def file_data_def)

lemma touches_noread: "touches A fs' fs \<Longrightarrow> fs_noread fs' = fs_noread fs"
  by (simp add: touches_def agree_on_def)

lemma remove_touches: "touches {p} (remove_tmp p fs) fs"
proof (cases "Remove p fs")
  case (Some fs')
  show ?thesis
    using Remove_frame [OF Some] by (simp add: remove_tmp_def Some touches_def agree_on_def)
qed (simp add: remove_tmp_def)

lemma WriteIfChanged_ok:
  assumes "WriteIfChanged p d m fs = (fs', ch, True)"
  shows "file_data fs' p = Some d" and "touches {p} fs' fs"
proof -
  have "put_if_changed (p, d, m) fs = Some fs'"
    unfolding put_if_changed_def prod.case assms by simp
  then have put: "(if ReadFile fs p = ReadData d then Some fs else WriteFile p d m fs) = Some fs'"
    unfolding put_if_changed_eq .
  have "file_data fs' p = Some d \<and> touches {p} fs' fs"
  proof (cases "ReadFile fs p = ReadData d")
    case True
    with put have "fs' = fs" by simp
    with True show ?thesis by (simp add: ReadFile_data)
  next
    case False
    with put have w: "WriteFile p d m fs = Some fs'" by simp
    show ?thesis
      using WriteFile_data [OF w] WriteFile_agree [OF w] by (simp add: touches_def)
  qed
  then show "file_data fs' p = Some d" and "touches {p} fs' fs" by blast+
qed

text \<open>Names without a slash, which is what the comment of \<open>shardFilename\<close> assumes.\<close>

definition plain_names :: "string list \<Rightarrow> bool" where
  "plain_names p \<longleftrightarrow> (\<forall>c \<in> set p. slash \<notin> set c)"

lemma slash_join: "slash \<in> set (join sep p) \<Longrightarrow> slash \<in> set sep \<or> (\<exists>c \<in> set p. slash \<in> set c)"
  by (induction sep p rule: join.induct) auto

lemma plain_shard_names:
  assumes "plain_names p"
  shows "plain_part (shardFilename p)" "plain_part (shardFilename p @ ''.gz'')"
  using assms slash_join [of "''--''" p]
  by (auto simp: plain_names_def plain_part_def shardFilename_def append_eq_Cons_conv)

lemma shard_suffix: "shardFilename p \<noteq> f @ ''.gz'' \<and> shardFilename p \<noteq> f @ ''.sha256''"
proof -
  have "rev (shardFilename p) \<noteq> rev (f @ ''.gz'')" "rev (shardFilename p) \<noteq> rev (f @ ''.sha256'')"
    by (simp_all add: shardFilename_def)
  then show ?thesis by metis
qed

lemma shard_file_name:
  "shard_file c sh = Inr (f, b) \<Longrightarrow> f = shardFilename (fst sh) \<or> f = shardFilename (fst sh) @ ''.gz''"
  by (auto simp: shard_file_def Let_def split: prod.splits option.splits if_splits)

definition shard_paths :: "string \<Rightarrow> string list \<Rightarrow> string set" where
  "shard_paths shardDir p = {fp_join [shardDir, shardFilename p], fp_join [shardDir, shardFilename p @ ''.gz'']}"

lemma shard_paths_disjoint:
  assumes "plain_names p" and "plain_names q" and "shardFilename p \<noteq> shardFilename q"
  shows "shard_paths d p \<inter> shard_paths d q = {}"
  using assms(3) plain_shard_names [OF assms(1)] plain_shard_names [OF assms(2)]
    shard_suffix [of p "shardFilename q"] shard_suffix [of q "shardFilename p"]
  by (auto simp: shard_paths_def fp_join_inj)

lemma write_shard_ok:
  assumes "write_shard c d sh fs = (fs', Inr e)" and "plain_names (fst sh)"
  obtains f b where "shard_file c sh = Inr (f, b)" and "e = \<lparr>se_path = fst sh, se_file = f, se_sha = sha256 c b\<rparr>"
    and "file_data fs' (fp_join [d, f]) = Some b" and "touches (shard_paths d (fst sh)) fs' fs"
    and "fp_join [d, f] \<in> shard_paths d (fst sh)"
proof -
  obtain f b where stored: "shard_file c sh = Inr (f, b)"
    using assms(1) by (cases "shard_file c sh") (auto simp: write_shard_def)
  obtain fs1 ch ok where w: "WriteIfChanged (fp_join [d, f]) b 420 fs = (fs1, ch, ok)"
    using prod_cases3 by blast
  have ok: ok and fs': "fs' = remove_tmp (fp_join [d, sibling (fst sh) f]) fs1"
    and e: "e = \<lparr>se_path = fst sh, se_file = f, se_sha = sha256 c b\<rparr>"
    using assms(1) by (auto simp: write_shard_def stored w split: if_splits)
  have ne: "fp_join [d, f] \<noteq> fp_join [d, sibling (fst sh) f]"
    using shard_file_name [OF stored] plain_shard_names [OF assms(2)] by (auto simp: sibling_def fp_join_inj)
  have f: "{fp_join [d, f], fp_join [d, sibling (fst sh) f]} \<subseteq> shard_paths d (fst sh)"
    using shard_file_name [OF stored] by (auto simp: sibling_def shard_paths_def)
  note wok = WriteIfChanged_ok [OF w [unfolded ok [THEN eqTrueI]]]
  note rm = remove_touches [of "fp_join [d, sibling (fst sh) f]" fs1]
  show thesis
  proof
    show "file_data fs' (fp_join [d, f]) = Some b"
      using touches_data [OF rm] ne wok(1) by (simp add: fs')
    show "touches (shard_paths d (fst sh)) fs' fs"
      unfolding fs' using touches_mono [OF touches_trans [OF rm wok(2)]] f by simp
  qed (use stored e f in auto)
qed

text \<open>The entry of a shard, and the bytes of its file.\<close>

definition shard_entry_of :: "codec \<Rightarrow> shard \<Rightarrow> shard_entry" where
  "shard_entry_of c sh =
     (case shard_file c sh of Inr (f, b) \<Rightarrow> \<lparr>se_path = fst sh, se_file = f, se_sha = sha256 c b\<rparr>
      | Inl e \<Rightarrow> \<lparr>se_path = fst sh, se_file = '''', se_sha = ''''\<rparr>)"

definition shard_stored :: "codec \<Rightarrow> string \<Rightarrow> gofs \<Rightarrow> shard \<Rightarrow> bool" where
  "shard_stored c d fs sh =
     (case shard_file c sh of Inr (f, b) \<Rightarrow> file_data fs (fp_join [d, f]) = Some b | Inl e \<Rightarrow> False)"

lemma shard_stored_kept:
  assumes "shard_stored c d fs sh" and "touches A fs' fs" and "fp_join [d, se_file (shard_entry_of c sh)] \<notin> A"
  shows "shard_stored c d fs' sh"
  using assms(1,3) touches_data [OF assms(2)]
  by (auto simp: shard_stored_def shard_entry_of_def split: sum.splits)

lemma shard_entry_path:
  assumes "shard_stored c d fs sh"
  shows "fp_join [d', se_file (shard_entry_of c sh)] \<in> shard_paths d' (fst sh)"
proof -
  obtain f b where stored: "shard_file c sh = Inr (f, b)"
    using assms by (auto simp: shard_stored_def split: sum.splits)
  with shard_file_name [OF stored] show ?thesis
    by (auto simp: shard_entry_of_def shard_paths_def)
qed

lemma shard_stored_touches:
  assumes "shard_stored c d fs sh" and "touches A fs' fs" and "shard_paths d (fst sh) \<inter> A = {}"
  shows "shard_stored c d fs' sh"
  using shard_stored_kept [OF assms(1,2)] shard_entry_path [OF assms(1), of d] assms(3) by blast

definition names_ok :: "shard list \<Rightarrow> bool" where
  "names_ok shards \<longleftrightarrow> (\<forall>p \<in> fst ` set shards. plain_names p) \<and> distinct (map (shardFilename \<circ> fst) shards) \<and>
     ''_index.json'' \<notin> (shardFilename \<circ> fst) ` set shards"

lemma names_okD:
  assumes "names_ok shards" and "sh \<in> set shards"
  shows "plain_names (fst sh)" and "shardFilename (fst sh) \<noteq> ''_index.json''"
  using assms unfolding names_ok_def by (blast, metis comp_apply image_eqI)

lemma write_shards_ok:
  assumes "write_shards c d shards fs = (fs', Inr entries)" and "names_ok shards"
  shows "entries = map (shard_entry_of c) shards \<and> touches (\<Union>sh \<in> set shards. shard_paths d (fst sh)) fs' fs \<and>
    (\<forall>sh \<in> set shards. shard_stored c d fs' sh)"
  using assms
proof (induction shards arbitrary: fs entries)
  case (Cons sh shards)
  obtain fs1 e es where one: "write_shard c d sh fs = (fs1, Inr e)"
    and rest: "write_shards c d shards fs1 = (fs', Inr es)" and entries: "entries = e # es"
    using Cons.prems(1) by (auto split: prod.splits sum.splits)
  have names: "plain_names (fst sh)" "names_ok shards"
    using Cons.prems(2) by (auto simp: names_ok_def)
  obtain f b where sh: "shard_file c sh = Inr (f, b)" "e = \<lparr>se_path = fst sh, se_file = f, se_sha = sha256 c b\<rparr>"
    "file_data fs1 (fp_join [d, f]) = Some b" "touches (shard_paths d (fst sh)) fs1 fs"
    by (rule write_shard_ok [OF one names(1)])
  note IH = Cons.IH [OF rest names(2)]
  have "shard_paths d (fst sh) \<inter> (\<Union>x \<in> set shards. shard_paths d (fst x)) = {}"
  proof -
    have "shard_paths d (fst sh) \<inter> shard_paths d (fst x) = {}" if "x \<in> set shards" for x
      using Cons.prems(2) that by (intro shard_paths_disjoint) (auto simp: names_ok_def)
    then show ?thesis by blast
  qed
  with sh(1,3) have "shard_stored c d fs' sh"
    by (intro shard_stored_touches [OF _ conjunct1 [OF conjunct2 [OF IH]]]) (simp_all add: shard_stored_def)
  moreover have "touches (\<Union>x \<in> set (sh # shards). shard_paths d (fst x)) fs' fs"
    using touches_trans [OF conjunct1 [OF conjunct2 [OF IH]] sh(4)] by (simp add: Un_commute)
  ultimately show ?case
    using IH by (simp add: entries shard_entry_of_def sh(1,2))
qed simp

lemma prune_entries_touches:
  assumes "prune_entries d keep es fs = (fs', ok)"
  shows "touches {fp_join [d, n] |n. n \<in> fst ` set es \<and> n \<notin> set keep} fs' fs"
  using assms
proof (induction d keep es fs rule: prune_entries.induct)
  case (2 d keep name is_dir es fs)
  let ?A = "{fp_join [d, n] |n. n \<in> fst ` set es \<and> n \<notin> set keep}"
  show ?case
  proof (cases "is_dir \<or> \<not> is_shard_name name \<or> name \<in> set keep")
    case True
    then have "prune_entries d keep es fs = (fs', ok)"
      using 2(3) by simp
    from 2(1) [OF True this] show ?thesis
      by (rule touches_mono) auto
  next
    case False
    show ?thesis
    proof (cases "Remove (fp_join [d, name]) fs")
      case None
      with False 2(3) show ?thesis by simp
    next
      case (Some fs1)
      have "prune_entries d keep es fs1 = (fs', ok)"
        using 2(3) False Some by simp
      moreover have "touches {fp_join [d, name]} fs1 fs"
        using remove_touches [of "fp_join [d, name]" fs] by (simp add: remove_tmp_def Some)
      ultimately have "touches (?A \<union> {fp_join [d, name]}) fs' fs"
        by (intro touches_trans [OF 2(2) [OF False Some]])
      then show ?thesis
        by (rule touches_mono) (use False in auto)
    qed
  qed
qed simp

text \<open>What is written into the shard directory is not a legacy file beside it.\<close>

definition monolith_paths :: "string \<Rightarrow> string set" where
  "monolith_paths workDir =
     (\<lambda>rel. fp_join [workDir, rel]) ` {''var/lattice.json.gz'', ''var/lattice.json.sha256'', ''var/lattice.json''}"

lemma monolith_touches: "touches (monolith_paths workDir) (removeMonolith workDir fs) fs"
proof -
  have fold: "touches ((\<lambda>rel. fp_join [workDir, rel]) ` set rels)
      (foldl (\<lambda>fs rel. remove_tmp (fp_join [workDir, rel]) fs) fs rels) fs" for rels
  proof (induction rels arbitrary: fs)
    case (Cons r rels)
    show ?case
      using touches_trans [OF Cons [of "remove_tmp (fp_join [workDir, r]) fs"] remove_touches [of "fp_join [workDir, r]" fs]]
      by simp
  qed simp
  show ?thesis
    unfolding removeMonolith_def monolith_paths_def
    using fold [of "[''var/lattice.json.gz'', ''var/lattice.json.sha256'', ''var/lattice.json'']"]
    by (simp only: list.set)
qed

lemma remove_tmp_fixed: "remove_tmp p fs = fs \<longleftrightarrow> fs_nowrite fs p \<or> fs_files fs p = None"
proof -
  have "fs\<lparr>fs_files := (fs_files fs)(p := None)\<rparr> = fs \<longleftrightarrow> fs_files fs p = None"
    by (cases fs) (auto simp: fun_eq_iff)
  then show ?thesis
    by (simp add: remove_tmp_def Remove_def)
qed

lemma remove_tmp_keeps_fixed: "remove_tmp q fs = fs \<Longrightarrow> remove_tmp q (remove_tmp p fs) = remove_tmp p fs"
  unfolding remove_tmp_fixed by (simp add: remove_tmp_def Remove_def)

lemma remove_tmp_idem: "remove_tmp p (remove_tmp p fs) = remove_tmp p fs"
  unfolding remove_tmp_fixed by (simp add: remove_tmp_def Remove_def)

lemma removeMonolith_idem: "removeMonolith workDir (removeMonolith workDir fs) = removeMonolith workDir fs"
  by (simp add: removeMonolith_def remove_tmp_idem remove_tmp_keeps_fixed)

lemma shard_dir_not_monolith:
  assumes "plain_part n"
  shows "fp_join [fp_join [workDir, shardDirRel], n] \<notin> monolith_paths workDir"
proof
  assume "fp_join [fp_join [workDir, shardDirRel], n] \<in> monolith_paths workDir"
  then obtain rel where rel: "rel \<in> {''var/lattice.json.gz'', ''var/lattice.json.sha256'', ''var/lattice.json''}"
    and eq: "fp_join [fp_join [workDir, shardDirRel], n] = fp_join [workDir, rel]"
    unfolding monolith_paths_def by blast
  from rel obtain f where f: "rel = ''var'' @ slash # f" "plain_part f"
    by (elim insertE emptyE) (simp_all add: plain_part_def)
  have parts: "plain_path (''var'' @ slash # a) \<and> split_on slash (''var'' @ slash # a) = [''var'', a]" if "plain_part a" for a
    using that plain_path_append [of "''var''" a] split_on_append_sep [of slash "''var''" a]
    by (simp add: plain_path_part plain_part_def split_on_no_sep)
  have plain: "plain_path shardDirRel" "split_on slash shardDirRel = [''var'', ''lattice'']"
    and plain_rel: "plain_path rel" "split_on slash rel = [''var'', f]"
    using parts [of "''lattice''"] parts [OF f(2)] by (simp_all add: shardDirRel_def f(1) plain_part_def)
  obtain X where "split_on slash (fp_join [workDir, shardDirRel]) = X @ [''var'', ''lattice'']"
    using fp_join_parts [of workDir "split_on slash workDir" "[]" shardDirRel] plain by auto
  from fp_join_parts [OF this, of n] obtain Y where
    "split_on slash (fp_join [fp_join [workDir, shardDirRel], n]) = Y @ [''var'', ''lattice'', n]"
    using assms by (auto simp: plain_part_def plain_path_part split_on_no_sep)
  moreover obtain Z where "split_on slash (fp_join [workDir, rel]) = Z @ [''var'', f]"
    using fp_join_parts [of workDir "split_on slash workDir" "[]" rel] plain_rel by auto
  ultimately have "Y @ [''var'', ''lattice'', n] = Z @ [''var'', f]"
    using eq by simp
  then have "rev [''var'', ''lattice'', n] @ rev Y = rev [''var'', f] @ rev Z"
    by (metis rev_append)
  then show False by simp
qed

section \<open>A complete run\<close>

definition readdir_plain :: "(gofs \<Rightarrow> string \<Rightarrow> readdir_result) \<Rightarrow> bool" where
  "readdir_plain readdir \<longleftrightarrow> (\<forall>fs d es. readdir fs d = Entries es \<longrightarrow> (\<forall>n \<in> fst ` set es. plain_part n))"

lemma plain_index: "plain_part ''_index.json''" "plain_part ''_index.sha256''"
  by (simp_all add: plain_part_def)

lemma index_not_shard:
  assumes "plain_names p" and "shardFilename p \<noteq> ''_index.json''"
  shows "fp_join [d, ''_index.json''] \<notin> shard_paths d p" and "fp_join [d, ''_index.sha256''] \<notin> shard_paths d p"
proof -
  have "shardFilename p \<noteq> ''_index.sha256''" "shardFilename p @ ''.gz'' \<noteq> ''_index.json''"
    "shardFilename p @ ''.gz'' \<noteq> ''_index.sha256''"
    using shard_suffix [of p "''_index''"] append_eq_append_conv [of "''gz''" "''on''"]
    by (auto simp: append_eq_Cons_conv shardFilename_def)
  then show "fp_join [d, ''_index.json''] \<notin> shard_paths d p" and "fp_join [d, ''_index.sha256''] \<notin> shard_paths d p"
    using plain_shard_names [OF assms(1)] assms(2) plain_index by (auto simp: shard_paths_def fp_join_inj)
qed

text \<open>The index a run writes for the shards.\<close>

definition index_of :: "codec \<Rightarrow> string \<Rightarrow> shard list \<Rightarrow> shard_index" where
  "index_of c digest shards =
     \<lparr>ix_version = 1, ix_sha = digest,
      ix_shards = sort_key (\<lambda>e. shard_key (se_path e)) (map (shard_entry_of c) shards)\<rparr>"

text \<open>The files of the shard directory after a complete run.\<close>

definition lattice_stored :: "codec \<Rightarrow> string \<Rightarrow> string \<Rightarrow> shard list \<Rightarrow> gofs \<Rightarrow> bool" where
  "lattice_stored c d digest shards fs \<longleftrightarrow>
     (\<forall>sh \<in> set shards. shard_stored c d fs sh) \<and>
     (\<exists>m. marshal_index c (index_of c digest shards) = Some m \<and>
          file_data fs (fp_join [d, ''_index.json'']) = Some (m @ [newline])) \<and>
     file_data fs (fp_join [d, ''_index.sha256'']) = Some (digest @ [newline])"

lemma lattice_stored_touches:
  assumes "lattice_stored c d digest shards fs" and "touches A fs' fs"
    and "\<forall>n. n \<in> {''_index.json'', ''_index.sha256''} \<union> (\<lambda>sh. se_file (shard_entry_of c sh)) ` set shards \<longrightarrow> fp_join [d, n] \<notin> A"
  shows "lattice_stored c d digest shards fs'"
proof -
  have "shard_stored c d fs' sh" if "sh \<in> set shards" for sh
    using assms(1,3) that by (intro shard_stored_kept [OF _ assms(2)]) (auto simp: lattice_stored_def)
  moreover have "file_data fs' (fp_join [d, n]) = file_data fs (fp_join [d, n])"
    if "n \<in> {''_index.json'', ''_index.sha256''}" for n
    using assms(3) that by (intro touches_data [OF assms(2)]) blast
  ultimately show ?thesis
    using assms(1) by (simp add: lattice_stored_def)
qed

lemma entry_file_plain:
  assumes "shard_stored c d fs sh" and "plain_names (fst sh)"
  shows "plain_part (se_file (shard_entry_of c sh))"
proof -
  obtain f b where stored: "shard_file c sh = Inr (f, b)"
    using assms(1) by (auto simp: shard_stored_def split: sum.splits)
  with shard_file_name [OF stored] plain_shard_names [OF assms(2)] show ?thesis
    by (auto simp: shard_entry_of_def)
qed

lemma prune_stored:
  assumes "lattice_stored c d digest shards fs" and "names_ok shards" and "readdir_plain readdir"
    and "pruneStaleShards readdir d (map se_file (map (shard_entry_of c) shards) @ [''_index.json'', ''_index.sha256'']) fs = (fs', True)"
  shows "lattice_stored c d digest shards fs'" and "fs_noread fs' = fs_noread fs"
proof -
  let ?keep = "map se_file (map (shard_entry_of c) shards) @ [''_index.json'', ''_index.sha256'']"
  obtain es where es: "readdir fs d = Entries es" and prune: "prune_entries d ?keep es fs = (fs', True)"
    using assms(4) by (auto simp: pruneStaleShards_def split: readdir_result.splits)
  note t = prune_entries_touches [OF prune]
  have "fp_join [d, n] \<notin> {fp_join [d, n'] |n'. n' \<in> fst ` set es \<and> n' \<notin> set ?keep}" if "n \<in> set ?keep" for n
  proof -
    have "plain_part n"
      using that assms(1) plain_index entry_file_plain [OF _ names_okD(1) [OF assms(2)]]
      by (auto simp del: split_paired_All simp: lattice_stored_def)
    moreover have "plain_part n'" if "n' \<in> fst ` set es" for n'
      using assms(3) es that by (auto simp: readdir_plain_def)
    ultimately show ?thesis
      using that fp_join_inj by auto
  qed
  then show "lattice_stored c d digest shards fs'"
    by (intro lattice_stored_touches [OF assms(1) t]) auto
  show "fs_noread fs' = fs_noread fs"
    using t by (rule touches_noread)
qed

lemma finish_run_ok:
  assumes "finish_run c readdir d digest (map (shard_entry_of c) shards) fs = (fs', None)"
    and "names_ok shards" and "readdir_plain readdir" and "\<forall>sh \<in> set shards. shard_stored c d fs sh"
  shows "lattice_stored c d digest shards fs'" and "fs_noread fs' = fs_noread fs"
proof -
  obtain m where m: "marshal_index c (index_of c digest shards) = Some m"
    using assms(1) by (cases "marshal_index c (index_of c digest shards)") (auto simp: finish_run_def index_of_def Let_def)
  obtain fs1 ch1 where w1: "WriteIfChanged (fp_join [d, ''_index.json'']) (m @ [newline]) 420 fs = (fs1, ch1, True)"
    using assms(1) m by (auto simp: finish_run_def index_of_def Let_def split: prod.splits bool.splits)
  obtain fs2 ch2 where w2: "WriteIfChanged (fp_join [d, ''_index.sha256'']) (digest @ [newline]) 420 fs1 = (fs2, ch2, True)"
    using assms(1) m w1 by (auto simp: finish_run_def index_of_def Let_def split: prod.splits bool.splits)
  have prune: "pruneStaleShards readdir d (map se_file (map (shard_entry_of c) shards) @ [''_index.json'', ''_index.sha256'']) fs2 = (fs', True)"
    using assms(1) m w1 w2 by (auto simp: finish_run_def index_of_def Let_def split: prod.splits bool.splits)
  note ok1 = WriteIfChanged_ok [OF w1] and ok2 = WriteIfChanged_ok [OF w2]
  have ne: "fp_join [d, ''_index.json''] \<noteq> fp_join [d, ''_index.sha256'']"
    by (simp add: fp_join_inj plain_index)
  have stored2: "shard_stored c d fs2 sh" if "sh \<in> set shards" for sh
  proof -
    have p: "plain_names (fst sh)" "shardFilename (fst sh) \<noteq> ''_index.json''"
      using names_okD [OF assms(2) that] .
    have "shard_stored c d fs1 sh"
      using index_not_shard [OF p] assms(4) that by (intro shard_stored_touches [OF _ ok1(2)]) auto
    then show ?thesis
      using index_not_shard [OF p] by (intro shard_stored_touches [OF _ ok2(2)]) auto
  qed
  have "file_data fs2 (fp_join [d, ''_index.json'']) = Some (m @ [newline])"
    using touches_data [OF ok2(2), of "fp_join [d, ''_index.json'']"] ok1(1) ne by simp
  with stored2 m ok2(1) have "lattice_stored c d digest shards fs2"
    by (simp add: lattice_stored_def)
  from prune_stored [OF this assms(2,3) prune]
  show "lattice_stored c d digest shards fs'" and "fs_noread fs' = fs_noread fs"
    using touches_noread [OF ok1(2)] touches_noread [OF ok2(2)] by simp_all
qed

section \<open>Merging what a run wrote\<close>






lemma store_lattice_ok:
  assumes "store_lattice c readdir workDir lattice fs = (fs', Inr (Generated n b))"
    and "names_ok (splitIntoShards (marshal_size c) lattice)" and "readdir_plain readdir"
  obtains r where "marshal c (JObj lattice) = Some r" and "n = length (splitIntoShards (marshal_size c) lattice)"
    and "b = length (r @ [newline])" and "removeMonolith workDir fs' = fs'" and "fs_noread fs' = fs_noread fs"
    and "lattice_stored c (fp_join [workDir, shardDirRel]) (sha256 c (r @ [newline])) (splitIntoShards (marshal_size c) lattice) fs'"
proof -
  let ?d = "fp_join [workDir, shardDirRel]" and ?shards = "splitIntoShards (marshal_size c) lattice"
  obtain r where r: "marshal c (JObj lattice) = Some r"
    using assms(1) by (cases "marshal c (JObj lattice)") (auto simp: store_lattice_def)
  obtain fs1 entries where w: "write_shards c ?d ?shards fs = (fs1, Inr entries)"
    using assms(1) r by (auto simp: store_lattice_def Let_def split: if_splits prod.splits sum.splits)
  note ok = write_shards_ok [OF w assms(2)]
  obtain fs2 where fin: "finish_run c readdir ?d (sha256 c (r @ [newline])) entries fs1 = (fs2, None)"
    and fs': "fs' = removeMonolith workDir fs2" and n: "n = length entries" "b = length (r @ [newline])"
    using assms(1) r w by (auto simp: store_lattice_def Let_def split: if_splits prod.splits sum.splits option.splits)
  have fin': "finish_run c readdir ?d (sha256 c (r @ [newline])) (map (shard_entry_of c) ?shards) fs1 = (fs2, None)"
    using fin ok by simp
  note finished = finish_run_ok [OF fin' assms(2,3)]
  note mono = monolith_touches [of workDir fs2, folded fs']
  have plain: "plain_part n" if "n \<in> {''_index.json'', ''_index.sha256''} \<union> (\<lambda>sh. se_file (shard_entry_of c sh)) ` set ?shards" for n
    using that plain_index entry_file_plain [OF _ names_okD(1) [OF assms(2)]] ok
    by (auto simp del: split_paired_All)
  have "lattice_stored c ?d (sha256 c (r @ [newline])) ?shards fs'"
    using finished(1) ok plain shard_dir_not_monolith by (intro lattice_stored_touches [OF _ mono]) auto
  moreover have "fs_noread fs' = fs_noread fs"
    using touches_noread [OF mono] finished(2) ok touches_noread by metis
  ultimately show thesis
    using that r n ok removeMonolith_idem [of workDir fs2] by (simp add: fs')
qed

section \<open>A run on a writable store succeeds\<close>

definition writable :: "gofs \<Rightarrow> bool" where
  "writable fs \<longleftrightarrow> (\<forall>p. \<not> fs_nowrite fs p)"

lemma touches_writable: "touches A fs' fs \<Longrightarrow> writable fs' \<longleftrightarrow> writable fs"
  by (simp add: writable_def touches_def agree_on_def)

lemma WriteIfChanged_writable:
  assumes "writable fs"
  obtains fs' ch where "WriteIfChanged p d m fs = (fs', ch, True)" and "writable fs'"
proof -
  obtain fs' ch ok where w: "WriteIfChanged p d m fs = (fs', ch, ok)"
    using prod_cases3 by blast
  have ok
    using assms w by (cases "ReadFile fs p = ReadData d") (auto simp: WriteIfChanged_def WriteFile_def Let_def writable_def)
  then show thesis
    using that w touches_writable [OF WriteIfChanged_ok(2)] assms by simp
qed

lemma write_shard_writable:
  assumes "writable fs" and "shard_file c sh = Inr (f, b)"
  obtains fs' where "write_shard c d sh fs = (fs', Inr (shard_entry_of c sh))" and "writable fs'"
proof -
  obtain fs1 ch where w: "WriteIfChanged (fp_join [d, f]) b 420 fs = (fs1, ch, True)" "writable fs1"
    using WriteIfChanged_writable [OF assms(1)] .
  show thesis
    using that w touches_writable [OF remove_touches] by (simp add: write_shard_def assms(2) shard_entry_of_def)
qed

lemma write_shards_writable:
  assumes "writable fs" and "\<forall>sh \<in> set shards. \<exists>f b. shard_file c sh = Inr (f, b)"
  shows "\<exists>fs'. write_shards c d shards fs = (fs', Inr (map (shard_entry_of c) shards)) \<and> writable fs'"
  using assms
proof (induction shards arbitrary: fs)
  case (Cons sh shards)
  obtain f b where "shard_file c sh = Inr (f, b)"
    using Cons.prems(2) by auto
  from write_shard_writable [OF Cons.prems(1) this] obtain fs1
    where "write_shard c d sh fs = (fs1, Inr (shard_entry_of c sh))" "writable fs1" .
  with Cons.IH [of fs1] Cons.prems(2) show ?case by auto
qed simp

text \<open>What \<open>os.ReadDir\<close> documents: different plain names, and the files among them exist.\<close>

definition readdir_lists :: "(gofs \<Rightarrow> string \<Rightarrow> readdir_result) \<Rightarrow> bool" where
  "readdir_lists readdir \<longleftrightarrow> (\<forall>fs d. \<exists>es. readdir fs d = Entries es \<and> distinct (map fst es) \<and>
     (\<forall>(n, is_dir) \<in> set es. plain_part n \<and> (\<not> is_dir \<longrightarrow> fs_files fs (fp_join [d, n]) \<noteq> None)))"

lemma prune_writable:
  assumes "writable fs" and "distinct (map fst es)"
    and "\<forall>(n, is_dir) \<in> set es. plain_part n \<and> (\<not> is_dir \<longrightarrow> fs_files fs (fp_join [d, n]) \<noteq> None)"
  shows "\<exists>fs'. prune_entries d keep es fs = (fs', True)"
  using assms
proof (induction es arbitrary: fs)
  case (Cons e es)
  obtain n is_dir where e: "e = (n, is_dir)" by force
  show ?case
  proof (cases "is_dir \<or> \<not> is_shard_name n \<or> n \<in> set keep")
    case True
    with Cons show ?thesis by (auto simp: e)
  next
    case False
    have "fs_files fs (fp_join [d, n]) \<noteq> None"
      using Cons.prems(3) False by (auto simp: e)
    then obtain fs1 where fs1: "Remove (fp_join [d, n]) fs = Some fs1"
      using Cons.prems(1) by (simp add: Remove_def writable_def)
    note frame = Remove_frame [OF fs1]
    have "fs_files fs1 (fp_join [d, n']) = fs_files fs (fp_join [d, n'])" if "(n', is_dir') \<in> set es" for n' is_dir'
    proof -
      have "n' \<noteq> n" "plain_part n'" "plain_part n"
        using Cons.prems(2,3) that by (force simp: e)+
      then show ?thesis
        by (simp add: frame(3) fp_join_inj)
    qed
    then have "\<exists>fs'. prune_entries d keep es fs1 = (fs', True)"
      using Cons.prems by (intro Cons.IH) (auto simp: e writable_def frame(2) split_beta)
    with False fs1 show ?thesis by (simp add: e)
  qed
qed simp

lemma finish_run_writable:
  assumes "writable fs" and "readdir_lists readdir"
    and "marshal_index c (index_of c digest shards) = Some m"
  shows "\<exists>fs'. finish_run c readdir d digest (map (shard_entry_of c) shards) fs = (fs', None)"
proof -
  obtain fs1 ch1 where w1: "WriteIfChanged (fp_join [d, ''_index.json'']) (m @ [newline]) 420 fs = (fs1, ch1, True)" "writable fs1"
    using WriteIfChanged_writable [OF assms(1)] .
  obtain fs2 ch2 where w2: "WriteIfChanged (fp_join [d, ''_index.sha256'']) (digest @ [newline]) 420 fs1 = (fs2, ch2, True)" "writable fs2"
    using WriteIfChanged_writable [OF w1(2)] .
  obtain es where es: "readdir fs2 d = Entries es" "distinct (map fst es)"
    "\<forall>(n, is_dir) \<in> set es. plain_part n \<and> (\<not> is_dir \<longrightarrow> fs_files fs2 (fp_join [d, n]) \<noteq> None)"
    using assms(2) unfolding readdir_lists_def by blast
  obtain fs3 where "prune_entries d (map se_file (map (shard_entry_of c) shards) @ [''_index.json'', ''_index.sha256'']) es fs2 = (fs3, True)"
    using prune_writable [OF w2(2) es(2,3)] by blast
  with w1 w2 es(1) assms(3) show ?thesis
    by (simp add: finish_run_def index_of_def Let_def pruneStaleShards_def)
qed

lemma store_lattice_writable:
  assumes "writable fs" and "readdir_lists readdir" and "marshal c (JObj lattice) = Some r"
    and "\<forall>sh \<in> set (splitIntoShards (marshal_size c) lattice). \<exists>f b. shard_file c sh = Inr (f, b)"
    and "marshal_index c (index_of c (sha256 c (r @ [newline])) (splitIntoShards (marshal_size c) lattice)) = Some m"
  shows "\<exists>fs'. store_lattice c readdir workDir lattice fs = (fs', Inr
    (if ReadFile fs (fp_join [fp_join [workDir, shardDirRel], ''_index.sha256'']) \<in>
          {ReadData old |old. trim_space old = sha256 c (r @ [newline])}
     then Unchanged (Suc (length r)) else Generated (length (splitIntoShards (marshal_size c) lattice)) (Suc (length r))))"
proof -
  let ?d = "fp_join [workDir, shardDirRel]" and ?shards = "splitIntoShards (marshal_size c) lattice"
  obtain fs1 where w: "write_shards c ?d ?shards fs = (fs1, Inr (map (shard_entry_of c) ?shards))" "writable fs1"
    using write_shards_writable [OF assms(1,4)] by blast
  obtain fs2 where "finish_run c readdir ?d (sha256 c (r @ [newline])) (map (shard_entry_of c) ?shards) fs1 = (fs2, None)"
    using finish_run_writable [OF w(2) assms(2,5)] by blast
  with w(1) assms(3) show ?thesis
    by (auto simp: store_lattice_def Let_def split: read_result.splits)
qed

section \<open>Properties\<close>


definition sample_codec :: codec where
  "sample_codec =
     \<lparr>marshal = (\<lambda>v. Some (if v = JNull then ''null'' else if v = JObj [] then ''{}'' else ''{..}'')),
      unmarshal = (\<lambda>s. if s = ''null'' @ [newline] then Some JNull else if s = ''{}'' @ [newline] then Some (JObj []) else None),
      marshal_index = (\<lambda>ix. if map se_file (ix_shards ix) = [''bricks.json'', ''tree.json''] \<and> ix =
        \<lparr>ix_version = 1, ix_sha = ''ab'',
         ix_shards = [\<lparr>se_path = [''bricks''], se_file = ''bricks.json'', se_sha = ''ab''\<rparr>,
                      \<lparr>se_path = [''tree''], se_file = ''tree.json'', se_sha = ''ab''\<rparr>]\<rparr> then Some ''I'' else None),
      unmarshal_index = (\<lambda>s. if s = ''I'' @ [newline] then Some
        \<lparr>ix_version = 1, ix_sha = ''ab'',
         ix_shards = [\<lparr>se_path = [''bricks''], se_file = ''bricks.json'', se_sha = ''ab''\<rparr>,
                      \<lparr>se_path = [''tree''], se_file = ''tree.json'', se_sha = ''ab''\<rparr>]\<rparr> else None),
      gzip = Some, gunzip = Some, sha256 = (\<lambda>_. ''ab'')\<rparr>"

definition small_lattice :: jobj where
  "small_lattice = [(''bricks'', JNull), (''tree'', JObj [])]"

definition sample_run :: "gofs \<times> (lattice_error + lattice_status)" where
  "sample_run = Run sample_codec (\<lambda>_ _. Entries []) (Some ''/r'') ''/w'' small_lattice empty_fs"

lemma small_enriched: "enrichLatticeTree fs (Some ''/r'') small_lattice = Some small_lattice"
  by (simp add: enrichLatticeTree_def small_lattice_def enrichTree.simps [of _ "[]"] enrich_files_def shardSubtreeRel_def)

lemma small_shards: "splitIntoShards (marshal_size sample_codec) small_lattice = [([''bricks''], JNull), ([''tree''], JObj [])]"
  by (simp add: splitIntoShards_def small_lattice_def splitTreeNode.simps [of _ _ "[]"] shard_key_def)

lemma small_shard_files:
  "\<forall>sh \<in> set (splitIntoShards (marshal_size sample_codec) small_lattice). \<exists>f b. shard_file sample_codec sh = Inr (f, b)"
  unfolding small_shards by (simp add: shard_file_def sample_codec_def Let_def)

lemma small_index:
  "marshal_index sample_codec (index_of sample_codec (sha256 sample_codec s) (splitIntoShards (marshal_size sample_codec) small_lattice)) = Some ''I''"
  unfolding small_shards
  by (simp add: index_of_def shard_entry_of_def shard_file_def shardFilename_def shard_key_def sample_codec_def Let_def gzipThreshold_def)

lemma small_marshal: "marshal sample_codec (JObj small_lattice) = Some ''{..}''"
  by (simp add: sample_codec_def small_lattice_def)

lemma sample_run_eq:
  "Run sample_codec (\<lambda>_ _. Entries []) (Some ''/r'') ''/w'' small_lattice empty_fs = (fst sample_run, Inr (Generated 2 5))"
proof -
  have "writable empty_fs" "readdir_lists (\<lambda>_ _. Entries [])" "ReadFile empty_fs p = NotExist" for p
    by (simp_all add: writable_def readdir_lists_def empty_fs_def ReadFile_def)
  then have "snd sample_run = Inr (Generated 2 5)"
    using store_lattice_writable [OF _ _ small_marshal small_shard_files small_index, of empty_fs "\<lambda>_ _. Entries []" "''/w''"]
    by (auto simp: sample_run_def Run_def small_enriched small_shards)
  then show ?thesis
    by (metis prod.collapse sample_run_def)
qed


lemma small_names: "names_ok (splitIntoShards (marshal_size sample_codec) small_lattice)"
  unfolding small_shards by (simp add: names_ok_def plain_names_def shardFilename_def)



text \<open>
  C6 (\<open>Run\<close>, idempotence). A run right after one that wrote the shards, on the same lattice, takes
  the short cut and leaves the file system as it is, modification times included.
\<close>

theorem Run_idempotent:
  assumes "Run c readdir repoRoot workDir built fs = (fs', Inr (Generated n b))"
    and "enrichLatticeTree fs repoRoot built = Some lattice"
    and "enrichLatticeTree fs' repoRoot built = Some lattice"
    and "names_ok (splitIntoShards (marshal_size c) lattice)"
    and "readdir_plain readdir" and "\<forall>p. \<not> fs_noread fs p" and "\<forall>s. trim_space (sha256 c s @ [newline]) = sha256 c s"
  shows "Run c readdir repoRoot workDir built fs' = (fs', Inr (Unchanged b))"
proof -
  have "store_lattice c readdir workDir lattice fs = (fs', Inr (Generated n b))"
    using assms(1,2) by (simp add: Run_def)
  then obtain r where r: "marshal c (JObj lattice) = Some r" "b = length (r @ [newline])"
    "removeMonolith workDir fs' = fs'" "fs_noread fs' = fs_noread fs"
    "lattice_stored c (fp_join [workDir, shardDirRel]) (sha256 c (r @ [newline])) (splitIntoShards (marshal_size c) lattice) fs'"
    by (rule store_lattice_ok [OF _ assms(4,5)])
  have "ReadFile fs' (fp_join [fp_join [workDir, shardDirRel], ''_index.sha256'']) = ReadData (sha256 c (r @ [newline]) @ [newline])"
    using r(5) assms(6) by (simp add: ReadFile_data r(4) lattice_stored_def)
  then show ?thesis
    using assms(7) r(2) by (simp add: Run_def assms(3) store_lattice_def r(1,3) Let_def)
qed

lemma sample_digest: "trim_space (''ab'' @ [newline]) = ''ab''"
  by code_simp

theorem Run_idempotent_witness:
  "Run sample_codec (\<lambda>_ _. Entries []) (Some ''/r'') ''/w'' small_lattice (fst sample_run) = (fst sample_run, Inr (Unchanged 5))"
  using sample_digest
  by (intro Run_idempotent [OF sample_run_eq small_enriched small_enriched small_names])
    (auto simp: readdir_plain_def empty_fs_def sample_codec_def)



text \<open>
  C8 (\<open>MergeShards\<close>, integrity). \<open>MergeShards\<close> never returns text from a damaged store: when it
  returns, every shard the index lists is readable with the recorded digest, and the
  text has the digest recorded for the whole lattice; a shard that is missing or was
  changed to bytes with another digest makes it fail.
\<close>

theorem MergeShards_integrity:
  assumes "ReadFile fs (fp_join [shardDir, ''_index.json'']) = ReadData ib" and "unmarshal_index c ib = Some idx"
    and "e \<in> set (ix_shards idx)"
    and "\<forall>raw. ReadFile fs (fp_join [shardDir, se_file e]) = ReadData raw \<longrightarrow> sha256 c raw \<noteq> se_sha e"
  shows "\<exists>err. MergeShards c shardDir fs = Inl err"
proof -
  have "slot_error (load_shard c shardDir fs e) \<noteq> None"
    using assms(4) by (auto simp: slot_error_def load_shard_def split: read_result.splits)
  moreover have "first_error xs = None \<Longrightarrow> x \<in> set xs \<Longrightarrow> x = None" for x and xs :: "merge_error option list"
    by (induction xs rule: first_error.induct) auto
  ultimately have "first_error (map slot_error (map (load_shard c shardDir fs) (ix_shards idx))) \<noteq> None"
    using assms(3) by fastforce
  then show ?thesis
    using assms(1,2) by (auto simp: MergeShards_def Let_def)
qed

definition damaged :: gofs where
  "damaged = empty_fs\<lparr>fs_files := [fp_join [''/d'', ''_index.json''] \<mapsto> \<lparr>fl_data = ''I'' @ [newline], fl_mtime = 0, fl_mode = 420\<rparr>]\<rparr>"

theorem MergeShards_integrity_witness: "\<exists>err. MergeShards sample_codec ''/d'' damaged = Inl err"
proof (rule MergeShards_integrity)
  show "ReadFile damaged (fp_join [''/d'', ''_index.json'']) = ReadData (''I'' @ [newline])"
    by (simp add: ReadFile_def damaged_def empty_fs_def)
  show "unmarshal_index sample_codec (''I'' @ [newline]) = Some
    \<lparr>ix_version = 1, ix_sha = ''ab'',
     ix_shards = [\<lparr>se_path = [''bricks''], se_file = ''bricks.json'', se_sha = ''ab''\<rparr>,
                  \<lparr>se_path = [''tree''], se_file = ''tree.json'', se_sha = ''ab''\<rparr>]\<rparr>"
    by (simp add: sample_codec_def)
  show "\<lparr>se_path = [''tree''], se_file = ''tree.json'', se_sha = ''ab''\<rparr> \<in> set (ix_shards
    \<lparr>ix_version = 1, ix_sha = ''ab'',
     ix_shards = [\<lparr>se_path = [''bricks''], se_file = ''bricks.json'', se_sha = ''ab''\<rparr>,
                  \<lparr>se_path = [''tree''], se_file = ''tree.json'', se_sha = ''ab''\<rparr>]\<rparr>)"
    by simp
  have "ReadFile damaged (fp_join [''/d'', ''tree.json'']) = NotExist"
    by code_simp
  then show "\<forall>raw. ReadFile damaged (fp_join [''/d'', se_file \<lparr>se_path = [''tree''], se_file = ''tree.json'', se_sha = ''ab''\<rparr>]) = ReadData raw \<longrightarrow>
      sha256 sample_codec raw \<noteq> se_sha \<lparr>se_path = [''tree''], se_file = ''tree.json'', se_sha = ''ab''\<rparr>"
    by simp
qed

end
