(* ===== verification/SpecTree.thy ===== *)
theory SpecTree
  imports LatticeStore
begin

text \<open>
  The file tree of the lattice. \<open>lib/gen/speclattice\<close> builds it from \<open>git ls-files -s\<close> and emits it as
  CUE and as a JSON object; \<open>lib/spec/spec.go\<close> decodes the object and looks files up in it. Go
  maps are association lists sorted by key, as in \<open>Json\<close>; git is a parameter.
\<close>

section \<open>The tree (speclattice.go)\<close>

record file_info =
  FileType :: string
  Mode :: string
  Target :: string

datatype tree = Tree (Files: "(string \<times> file_info) list") (Dirs: "(string \<times> tree) list")

definition NewTree :: tree where
  "NewTree = Tree [] []"

text \<open>\<open>strings.Split\<close> never returns an empty list, so the first equation is not reached.\<close>

fun insertIntoTree :: "tree \<Rightarrow> string list \<Rightarrow> file_info \<Rightarrow> tree" where
  "insertIntoTree (Tree files dirs) [] fi = Tree files dirs"
| "insertIntoTree (Tree files dirs) [name] fi = Tree (obj_set name fi files) dirs"
| "insertIntoTree (Tree files dirs) (dir # p # ps) fi =
     (let sub = (case map_of dirs dir of None \<Rightarrow> NewTree | Some t \<Rightarrow> t)
      in Tree files (obj_set dir (insertIntoTree sub (p # ps) fi) dirs))"

definition buildTree :: "(string, file_info) gomap \<Rightarrow> tree" where
  "buildTree info = foldl (\<lambda>t (path, fi). insertIntoTree t (split_on slash path) fi) NewTree info"

definition file_entry :: "file_info \<Rightarrow> json" where
  "file_entry fi =
     (let entry = obj_set ''mode'' (JStr (Mode fi)) (obj_set ''type'' (JStr (FileType fi)) []) in
      JObj (if Target fi \<noteq> '''' then obj_set ''target'' (JStr (Target fi)) entry else entry))"

fun ToMap :: "tree \<Rightarrow> jobj" where
  "ToMap (Tree files dirs) =
     (let m = obj_set ''type'' (JStr ''dir'') [];
          m = (if files \<noteq> [] then obj_set ''files'' (JObj (map (\<lambda>(name, fi). (name, file_entry fi)) files)) m else m)
      in if dirs \<noteq> [] then obj_set ''dirs'' (JObj (map (\<lambda>(name, sub). (name, JObj (ToMap sub))) dirs)) m else m)"

text \<open>\<open>emitCUE\<close>: the names are written between quotes as they are.\<close>

definition tabs :: "nat \<Rightarrow> string" where
  "tabs n = replicate n (CHR 0x09)"

definition emit_file :: "string \<Rightarrow> string \<times> file_info \<Rightarrow> string" where
  "emit_file pfx = (\<lambda>(fname, fi).
     if FileType fi = ''symlink''
     then pfx @ tabs 1 @ quoted fname @ '': {type: '' @ quoted ''symlink'' @ '', mode: '' @ quoted (Mode fi)
       @ '', target: '' @ quoted (Target fi) @ ''}'' @ [newline]
     else pfx @ tabs 1 @ quoted fname @ '': {type: '' @ quoted ''file'' @ '', mode: '' @ quoted (Mode fi) @ ''}'' @ [newline])"

fun emitCUE :: "tree \<Rightarrow> nat \<Rightarrow> string" where
  "emitCUE (Tree files dirs) depth =
     (let pfx = tabs depth in
      (if files \<noteq> [] then pfx @ ''files: {'' @ [newline] @ concat (map (emit_file pfx) files) @ pfx @ ''}'' @ [newline] else '''')
      @ (if dirs \<noteq> [] then pfx @ ''dirs: {'' @ [newline]
           @ concat (map (\<lambda>(dname, sub).
               pfx @ tabs 1 @ quoted dname @ '': {'' @ [newline]
               @ pfx @ tabs 2 @ ''type: '' @ quoted ''dir'' @ [newline]
               @ emitCUE sub (depth + 2)
               @ pfx @ tabs 1 @ ''}'' @ [newline]) dirs)
           @ pfx @ ''}'' @ [newline] else ''''))"

definition lattice_header :: string where
  "lattice_header =
     ''// Generated by defn gen from git ls-files.'' @ [newline]
     @ ''// DO NOT EDIT -- run `mise run gen` to regenerate.'' @ [newline, newline]
     @ ''@experiment(aliasv2,explicitopen,shortcircuit,try)'' @ [newline, newline]
     @ ''package spec'' @ [newline, newline]
     @ ''lattice: {'' @ [newline]
     @ tabs 1 @ ''tree: {'' @ [newline]
     @ tabs 2 @ ''type: '' @ quoted ''dir'' @ [newline]"

definition lattice_cue :: "tree \<Rightarrow> string" where
  "lattice_cue t = lattice_header @ emitCUE t 2 @ tabs 1 @ ''}'' @ [newline] @ ''}'' @ [newline]"

text \<open>\<open>strings.SplitN(s, sep, 2)\<close> when the separator occurs.\<close>

fun cut_at :: "char \<Rightarrow> string \<Rightarrow> (string \<times> string) option" where
  "cut_at c [] = None"
| "cut_at c (x # s) = (if x = c then Some ([], s) else map_option (\<lambda>(a, b). (x # a, b)) (cut_at c s))"

definition space :: char where
  "space = CHR 0x20"

definition tab :: char where
  "tab = CHR 0x09"

text \<open>One line of \<open>git ls-files -s\<close>: mode, hash and path.\<close>

definition parse_ls_line :: "string \<Rightarrow> (string \<times> string \<times> string) option" where
  "parse_ls_line line =
     (if line = '''' then None
      else case cut_at space line of
        None \<Rightarrow> None
      | Some (mode, r) \<Rightarrow>
          (case cut_at space r of
             None \<Rightarrow> None
           | Some (hash, rest) \<Rightarrow>
               (case cut_at tab rest of
                  None \<Rightarrow> None
                | Some (stage, path) \<Rightarrow> Some (mode, hash, path))))"

text \<open>\<open>cat_file hash\<close> is the output of \<open>git cat-file -p\<close>, \<open>None\<close> when it fails.\<close>

definition file_info_of :: "(string \<Rightarrow> string option) \<Rightarrow> string \<Rightarrow> string \<Rightarrow> file_info" where
  "file_info_of cat_file mode hash =
     (if mode = ''120000''
      then \<lparr>FileType = ''symlink'', Mode = mode, Target = (case cat_file hash of None \<Rightarrow> '''' | Some t \<Rightarrow> t)\<rparr>
      else \<lparr>FileType = ''file'', Mode = mode, Target = ''''\<rparr>)"

definition gitFileInfo :: "string option \<Rightarrow> (string \<Rightarrow> string option) \<Rightarrow> (string \<Rightarrow> string option) \<Rightarrow> (string, file_info) gomap option" where
  "gitFileInfo root ls_files cat_file =
     (case root of
        None \<Rightarrow> None
      | Some r \<Rightarrow>
          (case ls_files r of
             None \<Rightarrow> None
           | Some out \<Rightarrow> Some (foldl (\<lambda>m line.
               case parse_ls_line line of
                 None \<Rightarrow> m
               | Some (mode, hash, path) \<Rightarrow> AList.update path (file_info_of cat_file mode hash) m)
               [] (split_on newline out))))"

text \<open>\<open>Run\<close>: the number of files, the tree, and the written \<open>var/gen-lattice.cue\<close>.\<close>

definition speclattice_Run :: "string option \<Rightarrow> (string \<Rightarrow> string option) \<Rightarrow> (string \<Rightarrow> string option) \<Rightarrow> string \<Rightarrow> gofs \<Rightarrow>
    gofs \<times> (nat \<times> tree) option" where
  "speclattice_Run root ls_files cat_file workDir fs =
     (case gitFileInfo root ls_files cat_file of
        None \<Rightarrow> (fs, None)
      | Some info \<Rightarrow>
          (let t = buildTree info in
           case WriteIfChanged (fp_join [workDir, ''var/gen-lattice.cue'']) (lattice_cue t) 420 fs of
             (fs', _, ok) \<Rightarrow> (fs', if ok then Some (length info, t) else None)))"

section \<open>The decoded lattice (spec.go)\<close>

record sfile =
  f_Type :: string
  f_Mode :: string
  f_Target :: string
  f_Content :: string

datatype sdir = Dir (d_Type: string) (d_Files: "(string \<times> sfile) list") (d_Dirs: "(string \<times> sdir) list")

text \<open>
  \<open>json.Unmarshal\<close> into \<open>Dir\<close> and \<open>File\<close>: absent fields are zero values. A field of another type, which
  the writer never emits, is read as a zero value too.
\<close>

definition str_field :: "jobj \<Rightarrow> string \<Rightarrow> string" where
  "str_field m k = (case map_of m k of Some (JStr s) \<Rightarrow> s | _ \<Rightarrow> '''')"

definition decode_file :: "json \<Rightarrow> sfile" where
  "decode_file v =
     (case v of
        JObj m \<Rightarrow> \<lparr>f_Type = str_field m ''type'', f_Mode = str_field m ''mode'',
                   f_Target = str_field m ''target'', f_Content = str_field m ''content''\<rparr>
      | _ \<Rightarrow> \<lparr>f_Type = '''', f_Mode = '''', f_Target = '''', f_Content = ''''\<rparr>)"

function decode_dir :: "json \<Rightarrow> sdir" where
  "decode_dir v =
     (case v of
        JObj m \<Rightarrow>
          Dir (str_field m ''type'')
            (case map_of m ''files'' of Some (JObj fs) \<Rightarrow> map (\<lambda>(n, f). (n, decode_file f)) fs | _ \<Rightarrow> [])
            (case map_of m ''dirs'' of Some (JObj ds) \<Rightarrow> map (\<lambda>(n, d). (n, decode_dir d)) ds | _ \<Rightarrow> [])
      | _ \<Rightarrow> Dir '''' [] [])"
  by pat_completeness auto
termination
proof (relation "measure size", goal_cases)
  case (2 v m x ds e n d)
  have "size d < size_list (size_prod (\<lambda>_. 0) size) ds"
    using 2 by (intro size_in_obj) auto
  moreover have "size x < size_list (size_prod (\<lambda>_. 0) size) m"
    using 2 by (intro size_map_of) auto
  ultimately show ?case
    using 2 by simp
qed simp

declare decode_dir.simps [simp del]

record sync_target =
  st_File :: string
  st_Pattern :: string

record tool_version =
  tv_Version :: string
  tv_Sync :: "sync_target list"

record lattice =
  l_Tree :: sdir
  l_Versions :: "(string, tool_version) gomap"

text \<open>
  \<open>LoadLattice\<close> merges the first of the candidate directories with an index that merges;
  \<open>decode\<close> is the decoding of the whole \<open>Lattice\<close>. The test ends with the last merge error, or with
  \<open>NoIndex\<close> when no candidate has an index.
\<close>

datatype load_error = MergeFailed merge_error | NoIndex | ParseFailed

fun try_candidates :: "codec \<Rightarrow> gofs \<Rightarrow> merge_error option \<Rightarrow> string list \<Rightarrow> load_error + string" where
  "try_candidates c fs lastErr [] = Inl (case lastErr of Some e \<Rightarrow> MergeFailed e | None \<Rightarrow> NoIndex)"
| "try_candidates c fs lastErr (d # ds) =
     (if fs_files fs (fp_join [d, ''_index.json'']) = None then try_candidates c fs lastErr ds
      else case MergeShards c d fs of
        Inl e \<Rightarrow> try_candidates c fs (Some e) ds
      | Inr merged \<Rightarrow> Inr merged)"

definition LoadLattice :: "codec \<Rightarrow> (string \<Rightarrow> lattice option) \<Rightarrow> string \<Rightarrow> gofs \<Rightarrow> load_error + lattice" where
  "LoadLattice c decode bazelBase fs =
     (case try_candidates c fs None [fp_join [bazelBase, ''var/lattice''], ''var/lattice'', ''../../../var/lattice''] of
        Inl e \<Rightarrow> Inl e
      | Inr merged \<Rightarrow> (case decode merged of None \<Rightarrow> Inl ParseFailed | Some l \<Rightarrow> Inr l))"

definition pathToRel :: "string \<Rightarrow> string" where
  "pathToRel p = trim_prefix p ''/home/ubuntu/''"

fun walk :: "sdir \<Rightarrow> string list \<Rightarrow> sdir option" where
  "walk d [] = Some d"
| "walk d (part # parts) = (case map_of (d_Dirs d) part of None \<Rightarrow> None | Some sub \<Rightarrow> walk sub parts)"

definition LookupDir :: "lattice \<Rightarrow> string \<Rightarrow> sdir option" where
  "LookupDir l dirPath =
     (let p = pathToRel dirPath in
      if p = '''' then Some (l_Tree l) else walk (l_Tree l) (split_on slash p))"

definition LookupFile :: "lattice \<Rightarrow> string \<Rightarrow> sfile option" where
  "LookupFile l path =
     (let parts = split_on slash (pathToRel path) in
      if length parts = 1 then map_of (d_Files (l_Tree l)) (hd parts)
      else case LookupDir l (join ''/'' (butlast parts)) of
        None \<Rightarrow> None
      | Some d \<Rightarrow> map_of (d_Files d) (last parts))"

definition ReadFileContent :: "lattice \<Rightarrow> string \<Rightarrow> string option" where
  "ReadFileContent l path = map_option f_Content (LookupFile l path)"

text \<open>
  The assertion helpers report through \<open>testing.T\<close>: nothing, an error (\<open>Errorf\<close>), or the end of
  the test (\<open>Fatalf\<close>).
\<close>

datatype failure =
    NotInLattice string | InLattice string | NotFound string | DoesNotContain string string
  | Contains string string | DoesNotMatch string string | NotSymlink string string
  | WrongTarget string string string | WrongFirstLine string string string | Failed

datatype verdict = Pass | Errorf failure | Fatalf string

definition FileExists :: "lattice \<Rightarrow> string \<Rightarrow> verdict" where
  "FileExists l p = (if LookupFile l p = None then Errorf (NotInLattice p) else Pass)"

definition FileNotExists :: "lattice \<Rightarrow> string \<Rightarrow> verdict" where
  "FileNotExists l p = (if LookupFile l p \<noteq> None then Errorf (InLattice p) else Pass)"

fun module_line :: "string \<Rightarrow> (string \<Rightarrow> string) \<Rightarrow> string list \<Rightarrow> string" where
  "module_line pfx f [] = ''''"
| "module_line pfx f (line # lines) =
     (let t = trim_space line in
      if has_prefix t pfx then f (trim_space (trim_prefix t pfx)) else module_line pfx f lines)"

definition CUEModule :: "lattice \<Rightarrow> string" where
  "CUEModule l =
     (case ReadFileContent l ''m/cue.mod/module.cue'' of
        None \<Rightarrow> ''''
      | Some c \<Rightarrow> module_line ''module:'' (\<lambda>s. trim_cutset s [CHR 0x22]) (split_on newline c))"

definition GoModule :: "lattice \<Rightarrow> string" where
  "GoModule l =
     (case ReadFileContent l ''m/go.mod'' of
        None \<Rightarrow> ''''
      | Some c \<Rightarrow> module_line ''module '' (\<lambda>s. s) (split_on newline c))"

definition str_contains :: "string \<Rightarrow> string \<Rightarrow> bool" where
  "str_contains s sub = list_ex (\<lambda>t. has_prefix t sub) (suffixes s)"

definition with_content :: "lattice \<Rightarrow> string \<Rightarrow> (string \<Rightarrow> verdict) \<Rightarrow> verdict" where
  "with_content l p check =
     (case ReadFileContent l p of None \<Rightarrow> Errorf (NotFound p) | Some c \<Rightarrow> check c)"

definition FileContains :: "lattice \<Rightarrow> string \<Rightarrow> string \<Rightarrow> verdict" where
  "FileContains l p pattern =
     with_content l p (\<lambda>c. if str_contains c pattern then Pass else Errorf (DoesNotContain p pattern))"

definition FileNotContains :: "lattice \<Rightarrow> string \<Rightarrow> string \<Rightarrow> verdict" where
  "FileNotContains l p pattern =
     with_content l p (\<lambda>c. if str_contains c pattern then Errorf (Contains p pattern) else Pass)"

text \<open>\<open>compile\<close> stands for \<open>regexp.Compile\<close>: the set of texts with a match, or an error.\<close>

definition FileMatches :: "(string \<Rightarrow> (string \<Rightarrow> bool) option) \<Rightarrow> lattice \<Rightarrow> string \<Rightarrow> string \<Rightarrow> verdict" where
  "FileMatches compile l p pattern =
     with_content l p (\<lambda>c. case compile pattern of
       None \<Rightarrow> Fatalf pattern
     | Some re \<Rightarrow> if re c then Pass else Errorf (DoesNotMatch p pattern))"

definition SymlinkTarget :: "lattice \<Rightarrow> string \<Rightarrow> string \<Rightarrow> verdict" where
  "SymlinkTarget l p expected =
     (case LookupFile l p of
        None \<Rightarrow> Errorf (NotFound p)
      | Some f \<Rightarrow>
          if f_Type f \<noteq> ''symlink'' then Errorf (NotSymlink p (f_Type f))
          else if f_Target f \<noteq> expected then Errorf (WrongTarget p (f_Target f) expected)
          else Pass)"

definition first_line :: "string \<Rightarrow> string" where
  "first_line c = (case cut_at newline c of None \<Rightarrow> c | Some (a, b) \<Rightarrow> a)"

definition FirstLineEquals :: "lattice \<Rightarrow> string \<Rightarrow> string \<Rightarrow> verdict" where
  "FirstLineEquals l p expected =
     with_content l p (\<lambda>c. if first_line c = expected then Pass else Errorf (WrongFirstLine p (first_line c) expected))"

definition FileExecutable :: "lattice \<Rightarrow> string \<Rightarrow> bool" where
  "FileExecutable l p = (case LookupFile l p of None \<Rightarrow> False | Some f \<Rightarrow> f_Mode f = ''100755'')"

definition VersionSynced :: "lattice \<Rightarrow> string \<Rightarrow> verdict list" where
  "VersionSynced l toolName =
     (case map_of (l_Versions l) toolName of
        None \<Rightarrow> [Fatalf toolName]
      | Some tool \<Rightarrow> map (\<lambda>target. FileContains l (''m/'' @ st_File target) (st_Pattern target)) (tv_Sync tool))"

definition Version :: "lattice \<Rightarrow> string \<Rightarrow> string" where
  "Version l toolName = (case map_of (l_Versions l) toolName of None \<Rightarrow> '''' | Some v \<Rightarrow> tv_Version v)"

text \<open>
  \<open>globToRegex\<close> quotes the pattern and turns each quoted star into \<open>[^/]*\<close>, anchored at both ends:
  the star matches any text without a slash, everything else itself.
\<close>

fun globToRegex :: "string \<Rightarrow> string \<Rightarrow> bool" where
  "globToRegex [] s = (s = [])"
| "globToRegex (c # pat) [] = (c = CHR ''*'' \<and> globToRegex pat [])"
| "globToRegex (c # pat) (x # s) =
     (if c = CHR ''*'' then globToRegex pat (x # s) \<or> (x \<noteq> slash \<and> globToRegex (c # pat) s)
      else x = c \<and> globToRegex pat s)"

fun collectFiles :: "sdir \<Rightarrow> string \<Rightarrow> (string \<Rightarrow> bool) \<Rightarrow> string list" where
  "collectFiles (Dir ty files dirs) pfx re =
     map (\<lambda>(name, f). pfx @ name) (filter (\<lambda>(name, f). re name) files)
     @ concat (map (\<lambda>(name, sub). collectFiles sub (pfx @ name @ ''/'') re) dirs)"

text \<open>\<open>strings.Replace(pattern, "**/", "", 1)\<close>.\<close>

fun drop_first_stars :: "string \<Rightarrow> string" where
  "drop_first_stars [] = []"
| "drop_first_stars (c # s) = (if has_prefix (c # s) ''**/'' then drop 3 (c # s) else c # drop_first_stars s)"

definition LatticeGlob :: "lattice \<Rightarrow> string \<Rightarrow> string \<Rightarrow> string list" where
  "LatticeGlob l dirPath pattern =
     (case LookupDir l dirPath of
        None \<Rightarrow> []
      | Some d \<Rightarrow>
          if str_contains pattern ''**''
          then sort (collectFiles d '''' (globToRegex (drop_first_stars pattern)))
          else sort (filter (globToRegex pattern) (map fst (d_Files d))))"

definition LatticeLs :: "lattice \<Rightarrow> string \<Rightarrow> string list" where
  "LatticeLs l dirPath =
     (case LookupDir l dirPath of
        None \<Rightarrow> []
      | Some d \<Rightarrow> sort (map fst (d_Files d) @ map fst (d_Dirs d)))"

definition check :: "bool \<Rightarrow> verdict" where
  "check condition = (if condition then Pass else Errorf Failed)"

section \<open>Insertion and lookup\<close>

fun tree_get :: "tree \<Rightarrow> string list \<Rightarrow> file_info option" where
  "tree_get t [] = None"
| "tree_get t [name] = map_of (Files t) name"
| "tree_get t (dir # p # ps) = (case map_of (Dirs t) dir of None \<Rightarrow> None | Some s \<Rightarrow> tree_get s (p # ps))"

text \<open>The type invariant: every object of the tree is sorted by key.\<close>

fun wf_tree :: "tree \<Rightarrow> bool" where
  "wf_tree (Tree files dirs) \<longleftrightarrow> wf_obj files \<and> wf_obj dirs \<and> (\<forall>s \<in> snd ` set dirs. wf_tree s)"

lemma wf_NewTree [simp]: "wf_tree NewTree"
  by (simp add: NewTree_def)

lemma tree_get_NewTree [simp]: "tree_get NewTree p = None"
  by (cases p rule: remdups_adj.cases) (simp_all add: NewTree_def)

lemma wf_tree_sub: "wf_tree t \<Longrightarrow> map_of (Dirs t) k = Some s \<Longrightarrow> wf_tree s"
  by (cases t) (force dest: map_of_SomeD)

definition sub_or_new :: "tree option \<Rightarrow> tree" where
  "sub_or_new s = (case s of None \<Rightarrow> NewTree | Some t \<Rightarrow> t)"

lemma wf_sub_or_new: "wf_tree t \<Longrightarrow> wf_tree (sub_or_new (map_of (Dirs t) k))"
  by (cases "map_of (Dirs t) k") (simp_all add: sub_or_new_def wf_tree_sub)

lemma insert_below:
  "ps \<noteq> [] \<Longrightarrow> insertIntoTree t (dir # ps) fi =
     Tree (Files t) (obj_set dir (insertIntoTree (sub_or_new (map_of (Dirs t) dir)) ps fi) (Dirs t))"
  by (cases t; cases ps) (simp_all add: sub_or_new_def)

lemma insert_here: "insertIntoTree t [name] fi = Tree (obj_set name fi (Files t)) (Dirs t)"
  by (cases t) simp

lemma wf_Tree: "wf_tree t \<longleftrightarrow> wf_obj (Files t) \<and> wf_obj (Dirs t) \<and> (\<forall>s \<in> snd ` set (Dirs t). wf_tree s)"
  by (cases t) simp

lemma wf_treeD: "wf_tree t \<Longrightarrow> wf_obj (Files t) \<and> wf_obj (Dirs t)"
  by (cases t) simp

lemma wf_tree_set:
  assumes "wf_tree t" and "wf_tree s"
  shows "wf_tree (Tree (Files t) (obj_set k s (Dirs t)))"
proof -
  have "wf_tree x" if "x \<in> snd ` set (obj_set k s (Dirs t))" for x
    using subsetD [OF obj_set_values that] assms by (auto simp: wf_Tree [of t])
  then show ?thesis
    using assms(1) by (simp add: wf_Tree [of t] wf_obj_set)
qed

lemma insert_wf: "wf_tree t \<Longrightarrow> wf_tree (insertIntoTree t p fi)"
proof (induction p arbitrary: t)
  case Nil
  then show ?case by (cases t) simp
next
  case (Cons k p)
  show ?case
  proof (cases "p = []")
    case True
    with Cons.prems show ?thesis
      by (cases t) (simp add: wf_obj_set)
  next
    case False
    then show ?thesis
      using wf_tree_set [OF Cons.prems Cons.IH [OF wf_sub_or_new [OF Cons.prems]]] by (simp add: insert_below)
  qed
qed

lemma tree_get_below: "ps \<noteq> [] \<Longrightarrow> tree_get t (k # ps) = tree_get (sub_or_new (map_of (Dirs t) k)) ps"
  by (cases ps) (simp_all add: sub_or_new_def split: option.splits)

lemma insert_get:
  "wf_tree t \<Longrightarrow> p \<noteq> [] \<Longrightarrow> tree_get (insertIntoTree t p fi) q = (if q = p then Some fi else tree_get t q)"
proof (induction p arbitrary: t q)
  case (Cons k p)
  have wf: "wf_obj (Files t)" "wf_obj (Dirs t)"
    using wf_treeD [OF Cons.prems(1)] by simp_all
  show ?case
  proof (cases "p = []")
    case True
    then show ?thesis
      using wf by (cases q rule: remdups_adj.cases) (simp_all add: insert_here map_of_obj_set)
  next
    case False
    note IH = Cons.IH [OF wf_sub_or_new [OF Cons.prems(1)] False]
    show ?thesis
    proof (cases q rule: remdups_adj.cases)
      case (3 a b qs)
      show ?thesis
      proof (cases "a = k")
        case True
        then show ?thesis
          using wf IH [of k "b # qs"] False 3 tree_get_below [of "b # qs" t k]
          by (simp add: insert_below map_of_obj_set)
      qed (use wf False 3 in \<open>simp add: insert_below map_of_obj_set\<close>)
    qed (use wf False in \<open>simp_all add: insert_below\<close>)
  qed
qed simp

lemma insert_commute:
  "wf_tree t \<Longrightarrow> p \<noteq> [] \<Longrightarrow> q \<noteq> [] \<Longrightarrow> p \<noteq> q \<Longrightarrow>
    insertIntoTree (insertIntoTree t p a) q b = insertIntoTree (insertIntoTree t q b) p a"
proof (induction p arbitrary: t q)
  case (Cons k p)
  have wf: "wf_obj (Files t)" "wf_obj (Dirs t)"
    using wf_treeD [OF Cons.prems(1)] by simp_all
  obtain l q' where q: "q = l # q'"
    using Cons.prems(3) by (cases q) auto
  show ?case
  proof (cases "p = [] \<or> q' = []")
    case True
    then show ?thesis
      using wf Cons.prems(4) q by (cases "p = []"; cases "q' = []") (auto simp: insert_here insert_below obj_set_commute)
  next
    case False
    show ?thesis
    proof (cases "k = l")
      case True
      have "insertIntoTree (insertIntoTree (sub_or_new (map_of (Dirs t) k)) p a) q' b =
          insertIntoTree (insertIntoTree (sub_or_new (map_of (Dirs t) k)) q' b) p a"
        using Cons.prems(4) False True q by (intro Cons.IH wf_sub_or_new [OF Cons.prems(1)]) auto
      with True False wf show ?thesis
        by (simp add: q insert_below map_of_obj_set obj_set_twice sub_or_new_def [of "Some _"])
    next
      case distinct: False
      with False wf show ?thesis
        by (simp add: q insert_below map_of_obj_set obj_set_commute)
    qed
  qed
qed simp

interpretation tree: commuting_fold "\<lambda>t (path, fi). insertIntoTree t (split_on slash path) fi" wf_tree "\<lambda>_. True" "\<lambda>(p, a) (q, b). p \<noteq> q"
proof
  fix t and x y :: "string \<times> file_info"
  show "wf_tree (case x of (path, fi) \<Rightarrow> insertIntoTree t (split_on slash path) fi)" if "wf_tree t"
    using that insert_wf by (simp add: split_def)
  show "(case y of (path, fi) \<Rightarrow> insertIntoTree (case x of (path, fi) \<Rightarrow> insertIntoTree t (split_on slash path) fi) (split_on slash path) fi) =
      (case x of (path, fi) \<Rightarrow> insertIntoTree (case y of (path, fi) \<Rightarrow> insertIntoTree t (split_on slash path) fi) (split_on slash path) fi)"
    if "wf_tree t" and "(case x of (p, a) \<Rightarrow> \<lambda>(q, b). p \<noteq> q) y"
    using that insert_commute [OF that(1), of "split_on slash (fst x)" "split_on slash (fst y)"]
      split_on_inj [of slash "fst x" "fst y"]
    by (auto simp: split_def)
qed

lemma buildTree_wf: "wf_tree (buildTree info)"
  unfolding buildTree_def by (rule tree.fold_good) simp_all

lemma foldl_insert_get:
  "wf_tree t \<Longrightarrow> wf_map info \<Longrightarrow>
    tree_get (foldl (\<lambda>t (path, fi). insertIntoTree t (split_on slash path) fi) t info) (split_on slash p) =
    (case map_of info p of Some fi \<Rightarrow> Some fi | None \<Rightarrow> tree_get t (split_on slash p))"
proof (induction info arbitrary: t)
  case (Cons e info)
  obtain k a where e: "e = (k, a)" by force
  have wf: "wf_map info" "map_of info k = None"
    using Cons.prems(2) by (auto simp: wf_map_def e map_of_eq_None_iff)
  have "tree_get (insertIntoTree t (split_on slash k) a) (split_on slash p) =
      (if p = k then Some a else tree_get t (split_on slash p))"
    using insert_get [OF Cons.prems(1)] split_on_inj by auto
  with Cons.IH [OF insert_wf [OF Cons.prems(1)] wf(1)] wf(2) show ?case
    by (auto simp: e split: option.splits)
qed simp

lemma buildTree_get: "wf_map info \<Longrightarrow> tree_get (buildTree info) (split_on slash p) = map_of info p"
  by (simp add: buildTree_def foldl_insert_get split: option.splits)

section \<open>Decoding the emitted object\<close>

definition decoded :: "file_info \<Rightarrow> sfile" where
  "decoded fi = \<lparr>f_Type = FileType fi, f_Mode = Mode fi, f_Target = Target fi, f_Content = ''''\<rparr>"

lemma decode_file_entry: "decode_file (file_entry fi) = decoded fi"
  by (simp add: decode_file_def file_entry_def decoded_def str_field_def Let_def)

definition decode_tree :: "tree \<Rightarrow> sdir" where
  "decode_tree t = decode_dir (JObj (ToMap t))"

lemma ToMap_fields:
  "map_of (ToMap t) ''type'' = Some (JStr ''dir'')"
  "map_of (ToMap t) ''files'' = (if Files t = [] then None else Some (JObj (map (\<lambda>(n, fi). (n, file_entry fi)) (Files t))))"
  "map_of (ToMap t) ''dirs'' = (if Dirs t = [] then None else Some (JObj (map (\<lambda>(n, s). (n, JObj (ToMap s))) (Dirs t))))"
  by (cases t, simp add: Let_def)+

lemma decode_tree_Files: "d_Files (decode_tree t) = map (\<lambda>(n, fi). (n, decoded fi)) (Files t)"
  by (simp add: decode_tree_def decode_dir.simps [of "JObj (ToMap t)"] ToMap_fields decode_file_entry split_def)

lemma decode_tree_Dirs: "d_Dirs (decode_tree t) = map (\<lambda>(n, s). (n, decode_tree s)) (Dirs t)"
  by (simp add: decode_tree_def decode_dir.simps [of "JObj (ToMap t)"] ToMap_fields split_def)

lemma map_of_map_snd: "map_of (map (\<lambda>(k, v). (k, f v)) m) k = map_option f (map_of m k)"
  by (induction m) auto

fun dir_get :: "sdir \<Rightarrow> string list \<Rightarrow> sfile option" where
  "dir_get d [] = None"
| "dir_get d [name] = map_of (d_Files d) name"
| "dir_get d (dir # p # ps) = (case map_of (d_Dirs d) dir of None \<Rightarrow> None | Some s \<Rightarrow> dir_get s (p # ps))"

lemma dir_get_decode: "dir_get (decode_tree t) p = map_option decoded (tree_get t p)"
  by (induction t p rule: tree_get.induct)
    (auto simp: decode_tree_Files decode_tree_Dirs map_of_map_snd split: option.splits)

lemma walk_dir_get: "p \<noteq> [] \<Longrightarrow> dir_get d (ds @ p) = (case walk d ds of None \<Rightarrow> None | Some e \<Rightarrow> dir_get e p)"
proof (induction ds arbitrary: d)
  case (Cons a ds)
  then show ?case
    by (cases "ds @ p") (auto split: option.splits)
qed simp

lemma pathToRel_plain: "plain_path p \<Longrightarrow> pathToRel p = p"
  using plain_path_not_rooted [of p]
  by (auto simp: pathToRel_def trim_prefix_def has_prefix_iff)

lemma plain_path_butlast:
  assumes "plain_path p" and "length (split_on slash p) \<noteq> 1"
  shows "plain_path (join ''/'' (butlast (split_on slash p)))"
    and "split_on slash (join ''/'' (butlast (split_on slash p))) = butlast (split_on slash p)"
proof -
  have ne: "butlast (split_on slash p) \<noteq> []"
    using assms(2) by (cases "split_on slash p" rule: remdups_adj.cases) auto
  have "\<forall>x \<in> set (butlast (split_on slash p)). slash \<notin> set x"
    by (intro ballI split_on_sep_free) (erule in_set_butlastD)
  then show split: "split_on slash (join ''/'' (butlast (split_on slash p))) = butlast (split_on slash p)"
    by (rule split_join [OF ne])
  have "\<forall>x \<in> set (butlast (split_on slash p)). plain_part x"
    using assms(1) unfolding plain_path_def list_all_iff by (blast dest: in_set_butlastD)
  then show "plain_path (join ''/'' (butlast (split_on slash p)))"
    unfolding plain_path_def split list_all_iff .
qed

lemma LookupFile_get:
  assumes "plain_path p"
  shows "LookupFile l p = dir_get (l_Tree l) (split_on slash p)"
proof (cases "length (split_on slash p) = 1")
  case True
  then obtain n where "split_on slash p = [n]"
    by (cases "split_on slash p") auto
  then show ?thesis
    by (simp add: LookupFile_def pathToRel_plain [OF assms] Let_def)
next
  case False
  note up = plain_path_butlast [OF assms False]
  have "dir_get (l_Tree l) (split_on slash p) =
      dir_get (l_Tree l) (butlast (split_on slash p) @ [last (split_on slash p)])"
    by simp
  also have "\<dots> = (case LookupDir l (join ''/'' (butlast (split_on slash p))) of
      None \<Rightarrow> None | Some d \<Rightarrow> map_of (d_Files d) (last (split_on slash p)))"
    using plain_path_ne [OF up(1)]
    by (simp only: walk_dir_get list.simps LookupDir_def pathToRel_plain [OF up(1)] Let_def up(2) if_False dir_get.simps not_False_eq_True)
  finally show ?thesis
    using False by (simp add: LookupFile_def pathToRel_plain [OF assms] Let_def)
qed

text \<open>
  C14 (\<open>buildTree\<close>, \<open>ToMap\<close> and \<open>LookupFile\<close>, round trip). In the lattice whose tree is built from the file
  table of git, emitted and decoded, looking up a path gives exactly the entry of the
  table: its type, mode and link target, and nothing for a path git does not list.
\<close>

theorem LookupFile_buildTree:
  assumes "wf_map info" and "plain_path p" and "l_Tree l = decode_dir (JObj (ToMap (buildTree info)))"
  shows "LookupFile l p = map_option decoded (map_of info p)"
proof -
  have "l_Tree l = decode_tree (buildTree info)"
    using assms(3) by (simp add: decode_tree_def)
  then show ?thesis
    by (simp add: LookupFile_get [OF assms(2)] dir_get_decode buildTree_get [OF assms(1)])
qed

definition sample_info :: "(string, file_info) gomap" where
  "sample_info =
     [(''m/a'', \<lparr>FileType = ''file'', Mode = ''100755'', Target = ''''\<rparr>),
      (''b'', \<lparr>FileType = ''symlink'', Mode = ''120000'', Target = ''m/a''\<rparr>)]"

theorem LookupFile_buildTree_witness:
  "LookupFile \<lparr>l_Tree = decode_dir (JObj (ToMap (buildTree sample_info))), l_Versions = []\<rparr> ''m/a'' =
    Some \<lparr>f_Type = ''file'', f_Mode = ''100755'', f_Target = '''', f_Content = ''''\<rparr>"
proof -
  have "wf_map sample_info" "plain_path ''m/a''"
    by (simp_all add: sample_info_def wf_map_def plain_path_def plain_part_def)
  from LookupFile_buildTree [OF this] show ?thesis
    by (simp add: sample_info_def decoded_def)
qed

text \<open>
  \<open>buildTree\<close>, determinism and invariant: The tree does not depend on the order in which Go
  iterates over the file table, and its objects are sorted by key.
\<close>

theorem buildTree_deterministic:
  assumes "wf_map info" and "same_map info info'"
  shows "buildTree info = buildTree info' \<and> wf_tree (buildTree info)"
proof -
  have "sorted_wrt (\<lambda>(p, a) (q, b). p \<noteq> q) info"
    using assms(1) unfolding wf_map_def by (induction info) force+
  moreover have "mset info = mset info'"
    using assms(2) by (simp add: same_map_def)
  ultimately show ?thesis
    unfolding buildTree_def using tree.fold_perm [of info info' NewTree] tree.fold_good [of NewTree info] by simp
qed

theorem buildTree_deterministic_witness: "buildTree sample_info = buildTree (rev sample_info)"
  using buildTree_deterministic [of sample_info "rev sample_info"]
  by (simp add: sample_info_def wf_map_def same_map_def)

section \<open>Reading git's file list\<close>

lemma cut_at_append: "c \<notin> set a \<Longrightarrow> cut_at c (a @ c # b) = Some (a, b)"
  by (induction a) auto

text \<open>A line as \<open>git ls-files -s\<close> prints it.\<close>

definition ls_line :: "string \<times> string \<times> string \<times> string \<Rightarrow> string" where
  "ls_line = (\<lambda>(mode, hash, stage, path). mode @ [space] @ hash @ [space] @ stage @ [tab] @ path)"

definition ls_ok :: "string \<times> string \<times> string \<times> string \<Rightarrow> bool" where
  "ls_ok = (\<lambda>(mode, hash, stage, path).
     space \<notin> set mode \<and> space \<notin> set hash \<and> tab \<notin> set stage \<and> newline \<notin> set (mode @ hash @ stage @ path))"

lemma parse_ls_line_line:
  "ls_ok (mode, hash, stage, path) \<Longrightarrow> parse_ls_line (ls_line (mode, hash, stage, path)) = Some (mode, hash, path)"
  by (simp add: ls_ok_def ls_line_def parse_ls_line_def cut_at_append)

lemma split_lines:
  assumes "\<forall>l \<in> set ls. newline \<notin> set l"
  shows "split_on newline (concat (map (\<lambda>l. l @ [newline]) ls)) = ls @ ['''']"
  using assms by (induction ls) (simp_all add: split_on_append_sep split_on_no_sep)

lemma ls_line_newline: "ls_ok e \<Longrightarrow> newline \<notin> set (ls_line e)"
  by (auto simp: ls_ok_def ls_line_def space_def tab_def split: prod.splits)

text \<open>
  \<open>gitFileInfo\<close>, round trip: Reading the lines git prints for a list of index entries with
  different paths gives the table with exactly these paths, each with its mode, its type
  and, for a link, the target git shows; spaces in paths are kept.
\<close>

theorem gitFileInfo_lines:
  assumes "\<forall>e \<in> set es. ls_ok e" and "distinct (map (\<lambda>(mode, hash, stage, path). path) es)"
  shows "gitFileInfo (Some root) (\<lambda>r. Some (concat (map (\<lambda>e. ls_line e @ [newline]) es))) cat_file =
    Some (map (\<lambda>(mode, hash, stage, path). (path, file_info_of cat_file mode hash)) es)"
proof -
  let ?step = "\<lambda>m line. case parse_ls_line line of None \<Rightarrow> m
    | Some (mode, hash, path) \<Rightarrow> AList.update path (file_info_of cat_file mode hash) m"
  let ?entry = "\<lambda>(mode, hash, stage, path). (path, file_info_of cat_file mode hash)"
  have split: "split_on newline (concat (map (\<lambda>e. ls_line e @ [newline]) es)) = map ls_line es @ ['''']"
    using split_lines [of "map ls_line es"] assms(1) ls_line_newline by (simp add: comp_def)
  have "foldl ?step m (map ls_line es) = m @ map ?entry es"
    if "set (keys m) \<inter> (\<lambda>(mode, hash, stage, path). path) ` set es = {}" for m
    using that assms
  proof (induction es arbitrary: m)
    case (Cons e es)
    obtain mode hash stage path where e: "e = (mode, hash, stage, path)"
      using prod_cases4 by blast
    have line: "parse_ls_line (ls_line e) = Some (mode, hash, path)"
      using Cons.prems(2) by (simp add: e parse_ls_line_line)
    have fresh: "AList.update path (file_info_of cat_file mode hash) m = m @ [(path, file_info_of cat_file mode hash)]"
      using Cons.prems(1) by (intro update_fresh) (auto simp: e)
    have "foldl ?step (m @ [(path, file_info_of cat_file mode hash)]) (map ls_line es) =
        (m @ [(path, file_info_of cat_file mode hash)]) @ map ?entry es"
      using Cons.prems by (intro Cons.IH) (auto simp: e)
    then show ?case
      by (simp add: line fresh) (simp add: e)
  qed simp
  from this [of "[]"] show ?thesis
    by (simp add: gitFileInfo_def split parse_ls_line_def)
qed

theorem gitFileInfo_lines_witness:
  "gitFileInfo (Some ''/r'') (\<lambda>r. Some (ls_line (''100644'', ''ab'', ''0'', ''a b'') @ [newline])) (\<lambda>h. None) =
    Some [(''a b'', \<lparr>FileType = ''file'', Mode = ''100644'', Target = ''''\<rparr>)]"
  using gitFileInfo_lines [of "[(''100644'', ''ab'', ''0'', ''a b'')]" "''/r''" "\<lambda>h. None"]
  by (simp add: ls_ok_def space_def tab_def file_info_of_def)

section \<open>Globs\<close>

lemma globToRegex_literal: "CHR ''*'' \<notin> set pat \<Longrightarrow> globToRegex pat s \<longleftrightarrow> s = pat"
  by (induction pat s rule: globToRegex.induct) auto

lemma globToRegex_prefix:
  "CHR ''*'' \<notin> set pre \<Longrightarrow> globToRegex (pre @ pat) s \<longleftrightarrow> (\<exists>t. s = pre @ t \<and> globToRegex pat t)"
proof (induction pre arbitrary: s)
  case (Cons c pre)
  then show ?case by (cases s) auto
qed simp

lemma globToRegex_star:
  "globToRegex (CHR ''*'' # pat) s \<longleftrightarrow> (\<exists>mid t. s = mid @ t \<and> slash \<notin> set mid \<and> globToRegex pat t)"
proof (induction s)
  case IH: (Cons x s)
  show ?case
  proof
    assume "globToRegex (CHR ''*'' # pat) (x # s)"
    then have "globToRegex pat (x # s) \<or> x \<noteq> slash \<and> globToRegex (CHR ''*'' # pat) s"
      by simp
    then consider "globToRegex pat (x # s)" | "x \<noteq> slash" "globToRegex (CHR ''*'' # pat) s"
      by blast
    then show "\<exists>mid t. x # s = mid @ t \<and> slash \<notin> set mid \<and> globToRegex pat t"
    proof cases
      case 1
      then have "x # s = [] @ (x # s) \<and> slash \<notin> set [] \<and> globToRegex pat (x # s)" by simp
      then show ?thesis by blast
    next
      case 2
      then obtain mid t where "s = mid @ t" "slash \<notin> set mid" "globToRegex pat t"
        using IH by blast
      with 2(1) have "x # s = (x # mid) @ t \<and> slash \<notin> set (x # mid) \<and> globToRegex pat t" by simp
      then show ?thesis by blast
    qed
  next
    assume "\<exists>mid t. x # s = mid @ t \<and> slash \<notin> set mid \<and> globToRegex pat t"
    then obtain mid t where split: "x # s = mid @ t" "slash \<notin> set mid" "globToRegex pat t" by blast
    show "globToRegex (CHR ''*'' # pat) (x # s)"
    proof (cases mid)
      case Nil
      with split(1,3) have "globToRegex pat (x # s)" by simp
      then show ?thesis by simp
    next
      case (Cons y mid')
      with split have "s = mid' @ t" "slash \<notin> set mid'" "x \<noteq> slash" by auto
      with split(3) IH show ?thesis by auto
    qed
  qed
qed auto

text \<open>The type invariant of the decoded tree: the keys of every map are different.\<close>

fun wf_sdir :: "sdir \<Rightarrow> bool" where
  "wf_sdir (Dir ty files dirs) \<longleftrightarrow> distinct (map fst dirs) \<and> (\<forall>d \<in> snd ` set dirs. wf_sdir d)"

definition dir_prefix :: "string list \<Rightarrow> string" where
  "dir_prefix ds = concat (map (\<lambda>d. d @ ''/'') ds)"

lemma dir_prefix_simps [simp]: "dir_prefix [] = ''''" "dir_prefix (d # ds) = d @ ''/'' @ dir_prefix ds"
  by (simp_all add: dir_prefix_def)

lemma ex_list: "(\<exists>ds. P ds) \<longleftrightarrow> P [] \<or> (\<exists>n ds. P (n # ds))"
  by (metis list.exhaust)

lemma collectFiles_set:
  "wf_sdir d \<Longrightarrow> x \<in> set (collectFiles d pfx re) \<longleftrightarrow>
    (\<exists>ds e name. walk d ds = Some e \<and> name \<in> fst ` set (d_Files e) \<and> re name \<and> x = pfx @ dir_prefix ds @ name)"
  (is "_ \<Longrightarrow> _ \<longleftrightarrow> ?found d pfx")
proof (induction d arbitrary: pfx)
  case (Dir ty files dirs)
  have sub: "map_of dirs n = Some s \<longleftrightarrow> (n, s) \<in> set dirs" for n s
    using Dir.prems by simp
  have IH: "x \<in> set (collectFiles s (pfx @ n @ ''/'') re) \<longleftrightarrow> ?found s (pfx @ n @ ''/'')" if "(n, s) \<in> set dirs" for n s
    using Dir.prems by (intro Dir.IH [OF that]) (auto intro: bspec [OF _ imageI [OF that], of snd, simplified])
  have "x \<in> set (collectFiles (Dir ty files dirs) pfx re) \<longleftrightarrow>
      (\<exists>name. name \<in> fst ` set files \<and> re name \<and> x = pfx @ name) \<or>
      (\<exists>n s. (n, s) \<in> set dirs \<and> x \<in> set (collectFiles s (pfx @ n @ ''/'') re))"
    by (simp add: image_def Bex_def) blast
  also have "\<dots> \<longleftrightarrow> (\<exists>name. name \<in> fst ` set files \<and> re name \<and> x = pfx @ name) \<or>
      (\<exists>n s. map_of dirs n = Some s \<and> ?found s (pfx @ n @ ''/''))"
    by (intro arg_cong2 [where f = "(\<or>)"] refl ex_cong1 conj_cong) (simp_all only: sub IH)
  also have "\<dots> \<longleftrightarrow> ?found (Dir ty files dirs) pfx"
  proof -
    have "?found (Dir ty files dirs) pfx \<longleftrightarrow>
        (\<exists>e name. walk (Dir ty files dirs) [] = Some e \<and> name \<in> fst ` set (d_Files e) \<and> re name \<and> x = pfx @ dir_prefix [] @ name) \<or>
        (\<exists>n ds e name. walk (Dir ty files dirs) (n # ds) = Some e \<and> name \<in> fst ` set (d_Files e) \<and> re name \<and> x = pfx @ dir_prefix (n # ds) @ name)"
      by (rule ex_list)
    moreover have "(\<exists>ds e name. walk (Dir ty files dirs) (n # ds) = Some e \<and> name \<in> fst ` set (d_Files e) \<and> re name \<and>
          x = pfx @ dir_prefix (n # ds) @ name) \<longleftrightarrow> (\<exists>s. map_of dirs n = Some s \<and> ?found s (pfx @ n @ ''/''))" for n
      by (cases "map_of dirs n") simp_all
    ultimately show ?thesis by simp
  qed
  finally show ?case .
qed

text \<open>
  \<open>LatticeGlob\<close>: A recursive glob lists, sorted, exactly the files below the directory
  whose name matches: the path of a result is the chain of directories that leads to
  the file. For a pattern \<open>**/pre*suf\<close> the names that match are those that begin with \<open>pre\<close> and
  end with \<open>suf\<close> with no slash between.
\<close>

theorem LatticeGlob_recursive:
  assumes "LookupDir l dirPath = Some d" and "wf_sdir d"
    and "CHR ''*'' \<notin> set pre" and "CHR ''*'' \<notin> set suf"
  shows "sorted (LatticeGlob l dirPath (''**/'' @ pre @ ''*'' @ suf)) \<and>
    (x \<in> set (LatticeGlob l dirPath (''**/'' @ pre @ ''*'' @ suf)) \<longleftrightarrow>
      (\<exists>ds e mid. walk d ds = Some e \<and> slash \<notin> set mid \<and> pre @ mid @ suf \<in> fst ` set (d_Files e) \<and>
         x = dir_prefix ds @ pre @ mid @ suf))"
proof -
  let ?pat = "''**/'' @ pre @ ''*'' @ suf" and ?re = "globToRegex (pre @ ''*'' @ suf)"
  have "str_contains ?pat ''**''"
    by (simp add: str_contains_def list_ex_iff has_prefix_iff)
  moreover have "drop_first_stars ?pat = pre @ ''*'' @ suf"
    by (simp add: has_prefix_iff)
  ultimately have glob: "LatticeGlob l dirPath ?pat = sort (collectFiles d '''' ?re)"
    by (simp only: LatticeGlob_def assms(1) option.case if_True)
  have re: "?re name \<longleftrightarrow> (\<exists>mid. name = pre @ mid @ suf \<and> slash \<notin> set mid)" for name
    using globToRegex_literal [OF assms(4)] by (auto simp: globToRegex_prefix [OF assms(3)] globToRegex_star)
  have "x \<in> set (LatticeGlob l dirPath ?pat) \<longleftrightarrow>
      (\<exists>ds e name. walk d ds = Some e \<and> name \<in> fst ` set (d_Files e) \<and>
        (\<exists>mid. name = pre @ mid @ suf \<and> slash \<notin> set mid) \<and> x = dir_prefix ds @ name)"
    unfolding glob set_sort collectFiles_set [OF assms(2)] re by simp
  also have "\<dots> \<longleftrightarrow> (\<exists>ds e mid. walk d ds = Some e \<and> slash \<notin> set mid \<and> pre @ mid @ suf \<in> fst ` set (d_Files e) \<and>
      x = dir_prefix ds @ pre @ mid @ suf)"
    by (rule ex_cong1, rule ex_cong1) force
  finally show ?thesis
    by (simp only: glob sorted_sort simp_thms)
qed

definition sample_dir :: sdir where
  "sample_dir = Dir ''dir'' [] [(''m'', Dir ''dir'' [(''a.md'', \<lparr>f_Type = ''file'', f_Mode = '''', f_Target = '''', f_Content = ''''\<rparr>)] [])]"

theorem LatticeGlob_recursive_witness:
  "''m/a.md'' \<in> set (LatticeGlob \<lparr>l_Tree = sample_dir, l_Versions = []\<rparr> '''' (''**/'' @ '''' @ ''*'' @ ''.md''))"
proof -
  have "LookupDir \<lparr>l_Tree = sample_dir, l_Versions = []\<rparr> '''' = Some sample_dir" "wf_sdir sample_dir"
    by (simp_all add: LookupDir_def pathToRel_def trim_prefix_def has_prefix_iff sample_dir_def)
  note glob = LatticeGlob_recursive [OF this, of "''''" "''.md''" "''m/a.md''"]
  have "\<exists>ds e mid. walk sample_dir ds = Some e \<and> slash \<notin> set mid \<and> '''' @ mid @ ''.md'' \<in> fst ` set (d_Files e) \<and>
      ''m/a.md'' = dir_prefix ds @ '''' @ mid @ ''.md''"
    by (rule exI [of _ "[''m'']"], rule exI [of _ "snd (hd (d_Dirs sample_dir))"], rule exI [of _ "''a''"])
      (simp add: sample_dir_def)
  with glob show ?thesis by simp
qed

end
