(* ===== verification/BrickPkg.thy ===== *)
theory BrickPkg
  imports GoFS GoFmt HatchCycle
begin

text \<open>
  \<open>lib/brickpkg/brickpkg.go\<close>: the CUE package name of a brick and the two lists of its worker
  file. The regular expressions of the package are anchored at the start of a line, so their
  leftmost match is the first line start at which the rest of the expression fits. What
  \<open>filepath.Glob\<close> finds is a parameter.
\<close>

section \<open>Package names\<close>

definition DispatchFile :: string where
  "DispatchFile = ''dispatch.cue''"

text \<open>The identifiers of the expression, \<open>[A-Za-z_][A-Za-z_0-9]*\<close>.\<close>

definition ident_start :: "char \<Rightarrow> bool" where
  "ident_start c \<longleftrightarrow>
     byte (CHR ''a'') \<le> byte c \<and> byte c \<le> byte (CHR ''z'') \<or>
     byte (CHR ''A'') \<le> byte c \<and> byte c \<le> byte (CHR ''Z'') \<or> c = CHR ''_''"

definition ident_char :: "char \<Rightarrow> bool" where
  "ident_char c \<longleftrightarrow> ident_start c \<or> is_digit c"

definition is_ident :: "string \<Rightarrow> bool" where
  "is_ident s \<longleftrightarrow> s \<noteq> [] \<and> ident_start (hd s) \<and> list_all ident_char s"

text \<open>The suffixes of a text at which a line begins.\<close>

fun after_newlines :: "string \<Rightarrow> string list" where
  "after_newlines [] = []"
| "after_newlines (c # s) = (if c = newline then s # after_newlines s else after_newlines s)"

definition line_starts :: "string \<Rightarrow> string list" where
  "line_starts s = s # after_newlines s"

fun first_some :: "('a \<Rightarrow> 'b option) \<Rightarrow> 'a list \<Rightarrow> 'b option" where
  "first_some f [] = None"
| "first_some f (x # xs) = (case f x of Some y \<Rightarrow> Some y | None \<Rightarrow> first_some f xs)"

text \<open>\<open>pkgRe\<close>: white space, the word, at least one white space, an identifier (the first group).\<close>

definition pkg_at :: "string \<Rightarrow> string option" where
  "pkg_at s =
     (let t = dropWhile re_space s in
      if \<not> has_prefix t ''package'' then None
      else let u = drop 7 t; v = dropWhile re_space u in
           if length v < length u \<and> v \<noteq> [] \<and> ident_start (hd v) then Some (takeWhile ident_char v)
           else None)"

definition pkgRe :: "string \<Rightarrow> string option" where
  "pkgRe data = first_some pkg_at (line_starts data)"

definition stub_rune :: "string \<Rightarrow> char" where
  "stub_rune r = (case r of [c] \<Rightarrow> if ident_char c then c else CHR ''_'' | _ \<Rightarrow> CHR ''_'')"

definition StubPackageName :: "string \<Rightarrow> string" where
  "StubPackageName brickPath =
     (let base = trim_left (fp_base brickPath) ''.'';
          base' = (if base = '''' then ''stub'' else base);
          s = map stub_rune (runes base')
      in if s = '''' then ''stub'' else if is_digit (hd s) then CHR ''_'' # s else s)"

datatype pkg_error = BadGlob | PkgReadErr string

fun detect_in :: "gofs \<Rightarrow> string \<Rightarrow> string list \<Rightarrow> pkg_error + string" where
  "detect_in fs brickPath [] = Inr (StubPackageName brickPath)"
| "detect_in fs brickPath (c # cues) =
     (if fp_base c = DispatchFile then detect_in fs brickPath cues
      else case ReadFile fs c of
             ReadData data \<Rightarrow>
               (case pkgRe data of Some pkg \<Rightarrow> Inr pkg | None \<Rightarrow> detect_in fs brickPath cues)
           | _ \<Rightarrow> Inl (PkgReadErr c))"

definition DetectPackage :: "(gofs \<Rightarrow> string \<Rightarrow> string list option) \<Rightarrow> gofs \<Rightarrow> string \<Rightarrow> string \<Rightarrow> pkg_error + string" where
  "DetectPackage glob fs brickDir brickPath =
     (case glob fs (fp_join [brickDir, ''*.cue'']) of
        None \<Rightarrow> Inl BadGlob
      | Some cues \<Rightarrow> detect_in fs brickPath cues)"

definition IsCueModPath :: "string \<Rightarrow> bool" where
  "IsCueModPath p \<longleftrightarrow> p = ''cue.mod'' \<or> has_prefix p ''cue.mod/''"

section \<open>The lists of a worker file\<close>

abbreviation dquote :: char where
  "dquote \<equiv> CHR 0x22"

abbreviation backslash :: char where
  "backslash \<equiv> CHR 0x5C"

text \<open>\<open>readsRe\<close> and \<open>writesRe\<close>: the text after the opening bracket of the first match.\<close>

definition field_at :: "string \<Rightarrow> string \<Rightarrow> string option" where
  "field_at name s =
     (let t = dropWhile re_space s in
      if \<not> has_prefix t (name @ '':'') then None
      else case dropWhile re_space (drop (length name + 1) t) of
             c # rest \<Rightarrow> if c = CHR ''['' then Some rest else None
           | [] \<Rightarrow> None)"

definition fieldRe :: "string \<Rightarrow> string \<Rightarrow> string option" where
  "fieldRe name data = first_some (field_at name) (line_starts data)"

text \<open>The loop of \<open>captureUntilClose\<close> with its two variables; an escaped character is skipped.\<close>

fun capture_from :: "nat \<Rightarrow> bool \<Rightarrow> string \<Rightarrow> string option" where
  "capture_from depth inStr [] = None"
| "capture_from depth inStr (c # s) =
     (if inStr then
        if c = backslash then
          (case s of [] \<Rightarrow> None | d # s' \<Rightarrow> map_option (\<lambda>b. c # d # b) (capture_from depth True s'))
        else map_option ((#) c) (capture_from depth (c \<noteq> dquote) s)
      else if c = dquote then map_option ((#) c) (capture_from depth True s)
      else if c = CHR ''['' then map_option ((#) c) (capture_from (depth + 1) False s)
      else if c = CHR '']'' then
        if depth = 1 then Some [] else map_option ((#) c) (capture_from (depth - 1) False s)
      else map_option ((#) c) (capture_from depth False s))"

definition captureUntilClose :: "string \<Rightarrow> string option" where
  "captureUntilClose src = capture_from 1 False src"

datatype list_error = UnexpectedChar char nat | UnterminatedString

text \<open>The element after an opening quote: its raw text and what follows the closing quote.\<close>

fun scan_string :: "string \<Rightarrow> (string \<times> string) option" where
  "scan_string [] = None"
| "scan_string (c # s) =
     (if c = dquote then Some ([], s)
      else if c = backslash then
        (case s of [] \<Rightarrow> None | d # s' \<Rightarrow> map_option (\<lambda>(b, r). (c # d # b, r)) (scan_string s'))
      else map_option (\<lambda>(b, r). (c # b, r)) (scan_string s))"

lemma scan_string_shorter: "scan_string s = Some (b, r) \<Longrightarrow> length r < length s"
  by (induction s arbitrary: b r rule: scan_string.induct)
    (fastforce split: if_splits list.splits simp: less_Suc_eq)+

lemma length_dropWhile_lt: "s \<noteq> [] \<Longrightarrow> P (hd s) \<Longrightarrow> length (dropWhile P s) < length s"
  by (cases s) (auto simp: less_Suc_eq_le length_dropWhile_le)

definition list_sep :: "char \<Rightarrow> bool" where
  "list_sep c \<longleftrightarrow> c \<in> {CHR '' '', CHR 0x09, newline, CHR 0x0D, CHR '',''}"

text \<open>The loop of \<open>parseStringList\<close>; \<open>i\<close> is the offset of the remaining text.\<close>

function parse_list_from :: "nat \<Rightarrow> string \<Rightarrow> list_error + string list" where
  "parse_list_from i s =
     (let t = dropWhile list_sep s; j = i + (length s - length t) in
      if has_prefix t ''//'' then
        let u = dropWhile (\<lambda>c. c \<noteq> newline) t in parse_list_from (j + (length t - length u)) u
      else case t of
             [] \<Rightarrow> Inr []
           | c # r \<Rightarrow>
               if c \<noteq> dquote then Inl (UnexpectedChar c j)
               else case scan_string r of
                      None \<Rightarrow> Inl UnterminatedString
                    | Some (b, rest) \<Rightarrow>
                        (case parse_list_from (j + (length t - length rest)) rest of
                           Inl e \<Rightarrow> Inl e
                         | Inr bs \<Rightarrow> Inr (b # bs)))"
  by pat_completeness auto

termination
proof (relation "measure (length \<circ> snd)")
  show "wf (measure (length \<circ> snd))" by simp
next
  fix i :: nat and s t :: string and j u
  assume t: "t = dropWhile list_sep s" and p: "has_prefix t ''//''" and u: "u = dropWhile (\<lambda>c. c \<noteq> newline) t"
  have "length u < length t"
    using p u by (auto simp: has_prefix_iff intro!: length_dropWhile_lt)
  also have "length t \<le> length s"
    by (simp add: t length_dropWhile_le)
  finally show "((j + (length t - length u), u), (i, s)) \<in> measure (length \<circ> snd)" by simp
next
  fix i :: nat and s t :: string and j c r v b rest
  assume t: "t = dropWhile list_sep s" and cr: "t = c # r" and sc: "scan_string r = Some v" "(b, rest) = v"
  have "length rest < length r"
    using sc scan_string_shorter by metis
  also have "length r < length t"
    by (simp add: cr)
  also have "length t \<le> length s"
    by (simp add: t length_dropWhile_le)
  finally show "((j + (length t - length rest), rest), (i, s)) \<in> measure (length \<circ> snd)" by simp
qed

declare parse_list_from.simps [simp del]

definition parseStringList :: "string \<Rightarrow> list_error + string list" where
  "parseStringList src = parse_list_from 0 src"

datatype worker_error =
  WorkerReadErr string | FieldNotFound string | UnterminatedList string | BadElement list_error

definition extractList :: "string \<Rightarrow> string \<Rightarrow> worker_error + string list" where
  "extractList data name =
     (case fieldRe name data of
        None \<Rightarrow> Inl (FieldNotFound name)
      | Some rest \<Rightarrow>
          (case captureUntilClose rest of
             None \<Rightarrow> Inl (UnterminatedList name)
           | Some body \<Rightarrow>
               (case parseStringList body of Inl e \<Rightarrow> Inl (BadElement e) | Inr xs \<Rightarrow> Inr xs)))"

text \<open>\<open>Inr None\<close> is the answer \<open>ok = false\<close>: the brick has no worker file.\<close>

definition ReadWorkerIO :: "gofs \<Rightarrow> string \<Rightarrow> worker_error + (string list \<times> string list) option" where
  "ReadWorkerIO fs brickDir =
     (let p = fp_join [brickDir, DispatchFile] in
      case ReadFile fs p of
        NotExist \<Rightarrow> Inr None
      | ReadErr \<Rightarrow> Inl (WorkerReadErr p)
      | ReadData data \<Rightarrow>
          (case extractList data ''reads'' of
             Inl e \<Rightarrow> Inl e
           | Inr reads \<Rightarrow>
               (case extractList data ''writes'' of
                  Inl e \<Rightarrow> Inl e
                | Inr writes \<Rightarrow> Inr (Some (reads, writes)))))"

section \<open>Names are identifiers\<close>

lemma first_some_Some: "first_some f xs = Some y \<Longrightarrow> \<exists>x \<in> set xs. f x = Some y"
  by (induction xs) (auto split: option.splits)

lemma ident_underscore [simp]: "ident_start (CHR ''_'')" "ident_char (CHR ''_'')"
  by (simp_all add: ident_start_def ident_char_def)

lemma ident_stub_rune: "ident_char (stub_rune r)"
  by (simp add: stub_rune_def split: list.split)

lemma StubPackageName_is_ident: "is_ident (StubPackageName p)"
proof -
  have lit: "is_ident ''stub''"
    by (simp add: is_ident_def ident_char_def ident_start_def byte_def)
  have "is_ident (if is_digit (hd s) then CHR ''_'' # s else s)" if "s \<noteq> []" and "list_all ident_char s" for s
    using that by (cases s) (auto simp: is_ident_def ident_char_def)
  then show ?thesis
    using lit by (simp add: StubPackageName_def Let_def ident_stub_rune list_all_iff)
qed

lemma pkg_at_is_ident: "pkg_at s = Some pkg \<Longrightarrow> is_ident pkg"
proof -
  assume "pkg_at s = Some pkg"
  then obtain v where "v \<noteq> []" "ident_start (hd v)" "pkg = takeWhile ident_char v"
    by (simp add: pkg_at_def Let_def del: dropWhile_eq_Nil_conv split: if_splits)
  then show "is_ident pkg"
    by (cases v) (auto simp: is_ident_def ident_char_def list_all_iff dest: set_takeWhileD)
qed

lemma pkgRe_is_ident: "pkgRe data = Some pkg \<Longrightarrow> is_ident pkg"
  using first_some_Some pkg_at_is_ident by (fastforce simp: pkgRe_def)

lemma detect_in_is_ident: "detect_in fs p cues = Inr pkg \<Longrightarrow> is_ident pkg"
  by (induction cues)
    (auto simp: StubPackageName_is_ident pkgRe_is_ident split: if_splits read_result.splits option.splits)

lemma DetectPackage_is_ident: "DetectPackage glob fs d p = Inr pkg \<Longrightarrow> is_ident pkg"
  by (auto simp: DetectPackage_def detect_in_is_ident split: option.splits)

lemma detect_in_cong:
  assumes "\<forall>c. fp_base c \<noteq> DispatchFile \<longrightarrow> ReadFile gs c = ReadFile fs c"
    and "filter (\<lambda>c. fp_base c \<noteq> DispatchFile) cs = filter (\<lambda>c. fp_base c \<noteq> DispatchFile) ds"
  shows "detect_in gs p cs = detect_in fs p ds"
proof -
  have skip: "detect_in hs p es = detect_in hs p (filter (\<lambda>c. fp_base c \<noteq> DispatchFile) es)" for hs es
    by (induction es) (auto split: read_result.split option.split)
  have "detect_in gs p es = detect_in fs p es" for es
    using assms(1) by (induction es) (auto split: read_result.split option.split)
  then show ?thesis
    using skip [of gs cs] skip [of fs ds] assms(2) by simp
qed

lemma DetectPackage_cong:
  assumes "\<forall>c. fp_base c \<noteq> DispatchFile \<longrightarrow> ReadFile gs c = ReadFile fs c"
    and "map_option (filter (\<lambda>c. fp_base c \<noteq> DispatchFile)) (glob gs (fp_join [d, ''*.cue''])) =
         map_option (filter (\<lambda>c. fp_base c \<noteq> DispatchFile)) (glob fs (fp_join [d, ''*.cue'']))"
  shows "DetectPackage glob gs d p = DetectPackage glob fs d p"
  using assms(2)
  by (auto simp: DetectPackage_def split: option.splits intro!: detect_in_cong [OF assms(1)])

section \<open>Escapes\<close>

text \<open>
  A text that can stand between two quotes: no quote of it is bare and its last backslash
  escapes something.
\<close>

fun esc_ok :: "string \<Rightarrow> bool" where
  "esc_ok [] \<longleftrightarrow> True"
| "esc_ok (c # s) \<longleftrightarrow>
     c \<noteq> dquote \<and> (if c = backslash then (case s of [] \<Rightarrow> False | _ # s' \<Rightarrow> esc_ok s') else esc_ok s)"

lemma esc_ok_append: "esc_ok a \<Longrightarrow> esc_ok b \<Longrightarrow> esc_ok (a @ b)"
  by (induction a rule: esc_ok.induct) (auto split: list.splits if_splits)

lemma esc_ok_concat: "list_all esc_ok xs \<Longrightarrow> esc_ok (concat xs)"
  by (induction xs) (auto intro: esc_ok_append)

lemma scan_string_esc: "esc_ok b \<Longrightarrow> scan_string (b @ dquote # r) = Some (b, r)"
  by (induction b rule: esc_ok.induct) (auto split: list.splits if_splits)

lemma scan_string_Some:
  "scan_string s = Some (b, r) \<longleftrightarrow> esc_ok b \<and> s = b @ dquote # r"
proof
  show "scan_string s = Some (b, r) \<Longrightarrow> esc_ok b \<and> s = b @ dquote # r"
    by (induction s arbitrary: b r rule: scan_string.induct)
      (fastforce split: if_splits list.splits)+
qed (auto simp: scan_string_esc)

lemma capture_string:
  "esc_ok b \<Longrightarrow>
     capture_from d True (b @ dquote # r) = map_option (\<lambda>x. b @ dquote # x) (capture_from d False r)"
  by (induction b rule: esc_ok.induct) (auto split: list.splits if_splits simp: option.map_comp comp_def)

lemma capture_quoted:
  "esc_ok b \<Longrightarrow> capture_from d False (quoted b @ r) = map_option (\<lambda>x. quoted b @ x) (capture_from d False r)"
  by (simp add: quoted_def capture_string option.map_comp comp_def)

lemma capture_list:
  "list_all esc_ok bs \<Longrightarrow>
     capture_from 1 False (join '', '' (map quoted bs) @ CHR '']'' # r) = Some (join '', '' (map quoted bs))"
proof (induction bs)
  case (Cons b bs)
  then show ?case
    by (cases bs) (simp_all add: capture_quoted)
qed simp

lemma dropWhile_quoted [simp]: "dropWhile list_sep (quoted b @ r) = quoted b @ r"
  by (simp add: quoted_def list_sep_def)

lemma parse_quoted:
  assumes "esc_ok b"
  shows "\<exists>j. parse_list_from i (quoted b @ r) =
           (case parse_list_from j r of Inl e \<Rightarrow> Inl e | Inr bs \<Rightarrow> Inr (b # bs))"
  using assms
  by (intro exI [of _ "i + (length (quoted b @ r) - length r)"])
    (simp add: parse_list_from.simps [of i "quoted b @ r"] Let_def,
      simp add: quoted_def has_prefix_iff scan_string_esc)

lemma parse_sep:
  assumes "list_sep c"
  shows "parse_list_from i (c # s) = parse_list_from (i + 1) s"
proof -
  have drop: "dropWhile list_sep (c # s) = dropWhile list_sep s"
    using assms by simp
  have pos: "i + (length (c # s) - length (dropWhile list_sep s)) = i + 1 + (length s - length (dropWhile list_sep s))"
    using length_dropWhile_le [of list_sep s] by simp
  show ?thesis
    unfolding parse_list_from.simps [of i "c # s"] parse_list_from.simps [of "i + 1" s] drop Let_def pos ..
qed

lemma parse_Nil: "parse_list_from i [] = Inr []"
  by (simp add: parse_list_from.simps [of i "[]"] has_prefix_iff)

lemma parse_list_literal:
  "list_all esc_ok bs \<Longrightarrow> parse_list_from i (join '', '' (map quoted bs)) = Inr bs"
proof (induction bs arbitrary: i)
  case (Cons b bs)
  show ?case
  proof (cases bs)
    case Nil
    then show ?thesis
      using Cons.prems parse_quoted [of b i "[]"] by (auto simp: parse_Nil)
  next
    case (Cons c cs)
    obtain j where "parse_list_from i (quoted b @ '', '' @ join '', '' (map quoted bs)) =
        (case parse_list_from j ('', '' @ join '', '' (map quoted bs)) of Inl e \<Rightarrow> Inl e | Inr bs \<Rightarrow> Inr (b # bs))"
      using parse_quoted [of b i] Cons.prems by auto
    then show ?thesis
      using Cons.IH [of "j + 1 + 1"] Cons.prems Cons by (simp add: parse_sep list_sep_def)
  qed
qed (simp add: parse_Nil)

section \<open>Properties\<close>

text \<open>
  \<open>DetectPackage\<close>, \<open>StubPackageName\<close>: Whatever the directory holds, a package name that is
  found or derived is an identifier; and the answer does not depend on worker files: when two
  states of the disk, and the listings of the directory in them, agree but for files named
  \<open>dispatch.cue\<close>, it is the same.
\<close>

theorem DetectPackage_stable:
  assumes "\<forall>c. fp_base c \<noteq> DispatchFile \<longrightarrow> ReadFile gs c = ReadFile fs c"
    and "map_option (filter (\<lambda>c. fp_base c \<noteq> DispatchFile)) (glob gs (fp_join [d, ''*.cue''])) =
         map_option (filter (\<lambda>c. fp_base c \<noteq> DispatchFile)) (glob fs (fp_join [d, ''*.cue'']))"
  shows "DetectPackage glob gs d p = DetectPackage glob fs d p \<and>
         (\<forall>pkg. DetectPackage glob fs d p = Inr pkg \<longrightarrow> is_ident pkg)"
  using DetectPackage_cong [of gs fs glob d p] assms DetectPackage_is_ident by blast

definition witness_fs :: gofs where
  "witness_fs = \<lparr>fs_files = [''d/a.cue'' \<mapsto> \<lparr>fl_data = ''package  a_1'', fl_mtime = 0, fl_mode = 420\<rparr>], fs_clock = 0,
     fs_noread = (\<lambda>_. False), fs_nowrite = (\<lambda>_. False)\<rparr>"

theorem DetectPackage_stable_witness:
  "let gs = witness_fs\<lparr>fs_files := (fs_files witness_fs)(''d/dispatch.cue'' \<mapsto> \<lparr>fl_data = ''package b'', fl_mtime = 1, fl_mode = 420\<rparr>)\<rparr>;
       glob = (\<lambda>fs _. Some (if fs_files fs ''d/dispatch.cue'' = None then [''d/a.cue''] else [''d/a.cue'', ''d/dispatch.cue'']))
   in DetectPackage glob gs ''d'' ''x/d'' = DetectPackage glob witness_fs ''d'' ''x/d'' \<and>
      DetectPackage glob witness_fs ''d'' ''x/d'' = Inr ''a_1''"
proof -
  let ?gs = "witness_fs\<lparr>fs_files := (fs_files witness_fs)(''d/dispatch.cue'' \<mapsto> \<lparr>fl_data = ''package b'', fl_mtime = 1, fl_mode = 420\<rparr>)\<rparr>"
  let ?glob = "\<lambda>fs _. Some (if fs_files fs ''d/dispatch.cue'' = None then [''d/a.cue''] else [''d/a.cue'', ''d/dispatch.cue''])"
  have base: "fp_base ''d/dispatch.cue'' = DispatchFile" "fp_base ''d/a.cue'' = ''a.cue''"
    by code_simp+
  have "\<forall>c. fp_base c \<noteq> DispatchFile \<longrightarrow> ReadFile ?gs c = ReadFile witness_fs c"
    using base by (auto simp: ReadFile_def witness_fs_def)
  moreover have "map_option (filter (\<lambda>c. fp_base c \<noteq> DispatchFile)) (?glob ?gs (fp_join [''d'', ''*.cue''])) =
      map_option (filter (\<lambda>c. fp_base c \<noteq> DispatchFile)) (?glob witness_fs (fp_join [''d'', ''*.cue'']))"
    using base by (simp add: witness_fs_def)
  ultimately have "DetectPackage ?glob ?gs ''d'' ''x/d'' = DetectPackage ?glob witness_fs ''d'' ''x/d''"
    by (rule DetectPackage_stable [THEN conjunct1])
  moreover have "DetectPackage ?glob witness_fs ''d'' ''x/d'' = Inr ''a_1''"
    by (simp add: DetectPackage_def base DispatchFile_def ReadFile_def witness_fs_def pkgRe_def line_starts_def pkg_at_def
        re_space_def has_prefix_iff ident_char_def ident_start_def is_digit_def byte_def)
  ultimately show ?thesis by (simp add: Let_def)
qed

text \<open>
  The scan for the closing bracket does not know comments: a bracket or a quote in a comment of
  the list ends it or hides its end, although \<open>parseStringList\<close> tolerates comments.
\<close>

lemma comment_bracket_truncates:
  "captureUntilClose ('' // see ]'' @ [newline] @ quoted ''a'' @ '']'') = Some '' // see ''"
  by (simp add: captureUntilClose_def quoted_def)

lemma comment_quote_unterminated:
  "captureUntilClose (quoted ''a'' @ '', // the '' @ [dquote] @ ''a'' @ [newline] @ '']'') = None"
  by (simp add: captureUntilClose_def quoted_def)

end
