(* ===== verification/Stamp.thy ===== *)
theory Stamp
  imports Gen GoMatch BrickPkg
begin

text \<open>
  \<open>lib/stamp/stamp.go\<close>, bricks: \<open>StampBrick\<close> registers a brick in the catalog of its tenant. A
  disk has files and directories; \<open>dk_nodir\<close> are the paths at which \<open>os.MkdirAll\<close> fails. The
  table of printable characters beyond ASCII that \<open>%q\<close> consults is the parameter \<open>is_print\<close>.
\<close>

section \<open>The disk\<close>

record disk =
  dk_fs :: gofs
  dk_dirs :: "string \<Rightarrow> bool"
  dk_nodir :: "string \<Rightarrow> bool"

definition MkdirAll :: "string \<Rightarrow> disk \<Rightarrow> disk option" where
  "MkdirAll p dk =
     (if dk_nodir dk p then None
      else Some (dk\<lparr>dk_dirs := (\<lambda>q. dk_dirs dk q \<or> q = p \<or> ancestor q p)\<rparr>))"

text \<open>\<open>os.Stat\<close> succeeds on a file and on a directory.\<close>

definition stat_ok :: "string \<Rightarrow> disk \<Rightarrow> bool" where
  "stat_ok p dk \<longleftrightarrow> fs_files (dk_fs dk) p \<noteq> None \<or> dk_dirs dk p"

text \<open>The lines of a text, each with its newline.\<close>

definition lines_of :: "string list \<Rightarrow> string" where
  "lines_of ls = concat (map (\<lambda>l. l @ [newline]) ls)"

abbreviation tab :: char where
  "tab \<equiv> CHR 0x09"

section \<open>Quoting\<close>

definition hex_digit :: "nat \<Rightarrow> char" where
  "hex_digit d = ''0123456789abcdef'' ! (d mod 16)"

fun hex :: "nat \<Rightarrow> nat \<Rightarrow> string" where
  "hex 0 n = []"
| "hex (Suc k) n = hex k (n div 16) @ [hex_digit n]"

text \<open>The escape letters of \<open>\a\<close>, \<open>\b\<close>, \<open>\t\<close>, \<open>\n\<close>, \<open>\v\<close>, \<open>\f\<close> and \<open>\r\<close>.\<close>

definition escape_letters :: "(nat \<times> char) list" where
  "escape_letters = zip [7, 8, 9, 10, 11, 12, 13] ''abtnvfr''"

text \<open>One rune of \<open>%q\<close>, given by its bytes: a byte that is no rune is written in hexadecimal.\<close>

definition quote_rune :: "(nat \<Rightarrow> bool) \<Rightarrow> string \<Rightarrow> string" where
  "quote_rune is_print w =
     (let r = rune_value w in
      if length w = 1 \<and> 0x80 \<le> byte (hd w) then backslash # ''x'' @ hex 2 (byte (hd w))
      else if w = [dquote] \<or> w = [backslash] then backslash # w
      else if (if r < 0x80 then 0x20 \<le> r \<and> r < 0x7F else is_print r) then w
      else case map_of escape_letters r of
             Some c \<Rightarrow> [backslash, c]
           | None \<Rightarrow>
               if r < 0x20 \<or> r = 0x7F then backslash # ''x'' @ hex 2 r
               else if r < 0x10000 then backslash # ''u'' @ hex 4 r
               else backslash # ''U'' @ hex 8 r)"

definition quote_body :: "(nat \<Rightarrow> bool) \<Rightarrow> string \<Rightarrow> string" where
  "quote_body is_print s = concat (map (quote_rune is_print) (runes s))"

definition Quote :: "(nat \<Rightarrow> bool) \<Rightarrow> string \<Rightarrow> string" where
  "Quote is_print s = quoted (quote_body is_print s)"

section \<open>The stamp of a brick\<close>

definition InterfaceMap :: "(string, string) gomap" where
  "InterfaceMap = [
     (''go-lib'', ''kernel/interface/go-lib''),
     (''go-cmd'', ''kernel/interface/go-cmd''),
     (''go-cmd-cue'', ''kernel/interface/go-cmd-cue''),
     (''go-cmd-parent'', ''kernel/interface/go-cmd-parent''),
     (''helm-app'', ''kernel/interface/app''),
     (''skill'', ''kernel/interface/skill''),
     (''slack-bot'', ''kernel/interface/slack-bot''),
     (''discord-bot'', ''kernel/interface/discord-bot''),
     (''gmail-bot'', ''kernel/interface/gmail-bot''),
     (''matrix-bot'', ''kernel/interface/matrix-bot''),
     (''telegram-bot'', ''kernel/interface/telegram-bot'')]"

definition goStampTypes :: "(string, bool) gomap" where
  "goStampTypes = [(''go-cmd'', True), (''go-cmd-cue'', True), (''go-cmd-parent'', True)]"

text \<open>One rune of the canonical name: \<open>None\<close> when it is refused.\<close>

definition canonical_rune :: "string \<Rightarrow> string option" where
  "canonical_rune w =
     (case w of
        [c] \<Rightarrow>
          if byte (CHR ''a'') \<le> byte c \<and> byte c \<le> byte (CHR ''z'') then Some [c]
          else if byte (CHR ''A'') \<le> byte c \<and> byte c \<le> byte (CHR ''Z'') then Some [char_of (byte c + 32)]
          else if is_digit c then Some [c]
          else if c = CHR ''_'' then Some [c]
          else if c = CHR ''-'' \<or> c = CHR ''.'' then Some []
          else None
      | _ \<Rightarrow> None)"

fun canonical_runes :: "string list \<Rightarrow> string option" where
  "canonical_runes [] = Some []"
| "canonical_runes (w # ws) =
     (case canonical_rune w of
        None \<Rightarrow> None
      | Some c \<Rightarrow> map_option ((@) c) (canonical_runes ws))"

definition canonicalGoSegment :: "string \<Rightarrow> string \<times> bool \<times> bool" where
  "canonicalGoSegment s =
     (if s = '''' then (s, False, False)
      else case canonical_runes (runes s) of
             None \<Rightarrow> (s, False, False)
           | Some out \<Rightarrow>
               if out = '''' then (s, False, False)
               else if is_digit (hd out) then (s, False, False)
               else (out, out \<noteq> s, True))"

text \<open>The inner loop of \<open>sortedKeys\<close> moves an element left past the greater ones.\<close>

fun sink :: "string \<Rightarrow> string list \<Rightarrow> string list" where
  "sink x [] = [x]"
| "sink x (y # ys) = (if x < y then y # sink x ys else x # y # ys)"

definition sortedKeys :: "(string, bool) gomap \<Rightarrow> string list" where
  "sortedKeys m = foldl (\<lambda>out x. rev (sink x (rev out))) [] (keys m)"

definition renderStringList :: "(nat \<Rightarrow> bool) \<Rightarrow> string list \<Rightarrow> string" where
  "renderStringList is_print xs =
     (if xs = [] then ''[]'' else ''['' @ join '', '' (map (Quote is_print) xs) @ '']'')"

definition brickCatalogDir :: "string \<Rightarrow> string" where
  "brickCatalogDir p =
     (let parts = split_on slash p in
      if length parts \<ge> 2 \<and> hd parts = ''tenant'' then fp_join [''tenant'', parts ! 1, ''catalog'']
      else fp_join [''kernel'', ''catalog''])"

record brickConfig =
  cf_parent :: string
  cf_readsSet :: bool
  cf_reads :: "string list"
  cf_writesSet :: bool
  cf_writes :: "string list"

definition empty_config :: brickConfig where
  "empty_config = \<lparr>cf_parent = '''', cf_readsSet = False, cf_reads = [], cf_writesSet = False, cf_writes = []\<rparr>"

type_synonym BrickOption = "brickConfig \<Rightarrow> brickConfig"

definition WithParent :: "string \<Rightarrow> BrickOption" where
  "WithParent parent c = c\<lparr>cf_parent := parent\<rparr>"

definition WithIO :: "string list \<Rightarrow> string list \<Rightarrow> BrickOption" where
  "WithIO reads writes c =
     c\<lparr>cf_readsSet := True, cf_writesSet := True, cf_reads := reads, cf_writes := writes\<rparr>"

datatype stamp_error =
    PathRequired string | PathNotRelative string | UnknownType string
  | NotCanonical string "string list" | MkdirCatalogErr | StampWriteErr string | MkdirBrickErr string

datatype stamp_action = NoChanges | Created | Updated

definition canonical_path :: "string \<Rightarrow> string \<Rightarrow> stamp_error + string" where
  "canonical_path typeName p =
     (if \<not> get_or False goStampTypes typeName then Inr p
      else let parts = split_on slash p in
           case canonicalGoSegment (last parts) of
             (canonical, changed, ok) \<Rightarrow>
               if \<not> ok then Inl (NotCanonical (last parts) (sortedKeys goStampTypes))
               else if changed then Inr (join ''/'' (butlast parts @ [canonical])) else Inr p)"

definition auto_parent :: "string \<Rightarrow> BrickOption" where
  "auto_parent p c =
     (let parts = split_on slash p in
      if cf_parent c \<noteq> '''' then c
      else if length parts \<ge> 4 \<and> parts ! 0 = ''go'' \<and> parts ! 1 = ''cmd''
           then c\<lparr>cf_parent := join ''/'' (butlast parts)\<rparr>
      else if length parts \<ge> 6 \<and> parts ! 0 = ''tenant'' \<and> parts ! 2 = ''go'' \<and> parts ! 3 = ''cmd''
           then c\<lparr>cf_parent := join ''/'' (butlast parts)\<rparr>
      else c)"

definition brick_file :: "string \<Rightarrow> string \<Rightarrow> string" where
  "brick_file rootDir p = fp_join [rootDir, brickCatalogDir p, ''brick-'' @ DefaultBrickSlug p @ ''.cue'']"

definition brick_entry :: "(nat \<Rightarrow> bool) \<Rightarrow> string \<Rightarrow> string \<Rightarrow> string \<Rightarrow> string \<Rightarrow> brickConfig \<Rightarrow> string" where
  \<open>brick_entry is_print typeName iface p desc cfg =
     (let tabs2 = [tab, tab];
          slug = DefaultBrickSlug p;
          readsLit = (if cf_readsSet cfg then renderStringList is_print (cf_reads cfg) else ''[]'');
          writesLit = (if cf_writesSet cfg then renderStringList is_print (cf_writes cfg) else ''[]'');
          parentLines = (if cf_parent cfg \<noteq> '''' then [tabs2 @ ''parent:     '' @ Quote is_print (cf_parent cfg)] else [])
      in lines_of ([
           ''@experiment(aliasv2,explicitopen,shortcircuit,try)'',
           '''',
           ''package catalog'',
           '''',
           ''import "github.com/defn/other/kernel/schema"'',
           '''',
           ''bricks: [string]: schema.#Brick'',
           '''',
           ''bricks: {'',
           [tab] @ ''"'' @ p @ ''": {'',
           tabs2 @ ''path:       "'' @ p @ ''"'',
           tabs2 @ ''slug:       "'' @ slug @ ''"'',
           tabs2 @ ''kind:       "component"'',
           tabs2 @ ''desc:       "'' @ desc @ ''"'',
           tabs2 @ ''implements: "'' @ iface @ ''"'',
           tabs2 @ ''reads: '' @ readsLit,
           tabs2 @ ''writes: '' @ writesLit]
         @ parentLines @ [
           tabs2 @ ''stamp_type: '' @ Quote is_print typeName,
           [tab] @ ''}'',
           ''}'']))\<close>

definition stamp_put :: "string \<Rightarrow> string \<Rightarrow> string \<Rightarrow> string \<Rightarrow> stamp_action \<Rightarrow> disk \<Rightarrow>
    disk \<times> (stamp_error + stamp_action)" where
  "stamp_put rootDir p brickFile entry action dk =
     (case MkdirAll (fp_dir brickFile) dk of
        None \<Rightarrow> (dk, Inl MkdirCatalogErr)
      | Some dk1 \<Rightarrow>
          (case WriteFile brickFile entry 420 (dk_fs dk1) of
             None \<Rightarrow> (dk1, Inl (StampWriteErr brickFile))
           | Some fs \<Rightarrow>
               (case MkdirAll (fp_join [rootDir, p]) (dk1\<lparr>dk_fs := fs\<rparr>) of
                  None \<Rightarrow> (dk1\<lparr>dk_fs := fs\<rparr>, Inl (MkdirBrickErr p))
                | Some dk2 \<Rightarrow> (dk2, Inr action))))"

definition stamp_entry :: "string \<Rightarrow> string \<Rightarrow> string \<Rightarrow> string \<Rightarrow> disk \<Rightarrow> disk \<times> (stamp_error + stamp_action)" where
  "stamp_entry rootDir p brickFile entry dk =
     (case ReadFile (dk_fs dk) brickFile of
        ReadData existing \<Rightarrow>
          if existing = entry then (dk, Inr NoChanges) else stamp_put rootDir p brickFile entry Updated dk
      | _ \<Rightarrow> stamp_put rootDir p brickFile entry Created dk)"

definition StampBrick :: "(nat \<Rightarrow> bool) \<Rightarrow> string \<Rightarrow> string \<Rightarrow> string \<Rightarrow> string \<Rightarrow> BrickOption list \<Rightarrow> disk \<Rightarrow>
    disk \<times> (stamp_error + stamp_action)" where
  "StampBrick is_print rootDir typeName p0 desc0 opts dk =
     (if p0 = '''' then (dk, Inl (PathRequired typeName))
      else if has_prefix p0 ''/'' \<or> has_prefix p0 ''.'' then (dk, Inl (PathNotRelative p0))
      else case map_of InterfaceMap typeName of
             None \<Rightarrow> (dk, Inl (UnknownType typeName))
           | Some iface \<Rightarrow>
               (case canonical_path typeName p0 of
                  Inl e \<Rightarrow> (dk, Inl e)
                | Inr p \<Rightarrow>
                    (let desc = (if desc0 = '''' then last (split_on slash p) else desc0);
                         cfg = auto_parent p (foldl (\<lambda>c opt. opt c) empty_config opts);
                         brickFile = brick_file rootDir p;
                         entry = brick_entry is_print typeName iface p desc cfg
                     in stamp_entry rootDir p brickFile entry dk)))"

section \<open>Runes and their quotation\<close>

lemma rune_width_cases:
  "rune_width (b0 # s) = 1 \<or>
   (\<exists>b1 s'. s = b1 # s' \<and> rune_width (b0 # s) = 2 \<and> 0xC2 \<le> byte b0 \<and> byte b0 \<le> 0xDF \<and> cont_byte b1) \<or>
   (\<exists>b1 b2 s'. s = b1 # b2 # s' \<and> rune_width (b0 # s) = 3 \<and> 0xE0 \<le> byte b0 \<and> byte b0 \<le> 0xEF \<and>
      cont_byte b1 \<and> cont_byte b2 \<and> (byte b0 = 0xE0 \<longrightarrow> 0xA0 \<le> byte b1) \<and> (byte b0 = 0xED \<longrightarrow> byte b1 \<le> 0x9F)) \<or>
   (\<exists>b1 b2 b3 s'. s = b1 # b2 # b3 # s' \<and> rune_width (b0 # s) = 4 \<and> 0xF0 \<le> byte b0 \<and> byte b0 \<le> 0xF4 \<and>
      cont_byte b1 \<and> cont_byte b2 \<and> cont_byte b3 \<and> (byte b0 = 0xF0 \<longrightarrow> 0x90 \<le> byte b1) \<and>
      (byte b0 = 0xF4 \<longrightarrow> byte b1 \<le> 0x8F))"
proof (cases "byte b0 < 0xC2 \<or> 0xF4 < byte b0")
  case False
  show ?thesis
  proof (cases s)
    case (Cons b1 s1)
    show ?thesis
    proof (cases s1)
      case Nil
      with Cons False show ?thesis by (simp add: Let_def)
    next
      case c2: (Cons b2 s2)
      show ?thesis
        using False by (cases s2) (simp_all add: Cons c2 Let_def)
    qed
  qed (use False in simp)
qed simp

lemma rune_shape:
  assumes "s \<noteq> []"
  defines "w \<equiv> take (rune_width s) s"
  shows "(\<exists>c. w = [c]) \<or> 2 \<le> length w \<and> length w \<le> 4 \<and> (\<forall>c \<in> set w. 0x80 \<le> byte c) \<and> 0x80 \<le> rune_value w"
proof -
  obtain b0 s1 where s: "s = b0 # s1" using assms(1) by (cases s) auto
  show ?thesis
    using rune_width_cases [of b0 s1]
  proof (elim disjE exE conjE)
    fix b1 s'
    assume h: "s1 = b1 # s'" "rune_width (b0 # s1) = 2" "0xC2 \<le> byte b0" "byte b0 \<le> 0xDF" "cont_byte b1"
    then have w: "w = [b0, b1]" unfolding w_def s h(2) by simp
    have "rune_width w = 2" using h by (simp add: w)
    moreover have "2 \<le> byte b0 - 0xC0" using h(3) by simp
    then have "0x80 \<le> (byte b0 - 0xC0) * 0x40 + (byte b1 - 0x80)" by linarith
    ultimately show ?thesis
      using h by (simp add: w rune_value_def cont_byte_def)
  next
    fix b1 b2 s'
    assume h: "s1 = b1 # b2 # s'" "rune_width (b0 # s1) = 3" "0xE0 \<le> byte b0" "byte b0 \<le> 0xEF"
      "cont_byte b1" "cont_byte b2" "byte b0 = 0xE0 \<longrightarrow> 0xA0 \<le> byte b1" "byte b0 = 0xED \<longrightarrow> byte b1 \<le> 0x9F"
    then have w: "w = [b0, b1, b2]" unfolding w_def s h(2) by simp
    have "rune_width w = 3" using h by (simp add: w)
    moreover have "0x20 \<le> (byte b0 - 0xE0) * 0x40 + (byte b1 - 0x80)"
      using h(3,7) by (cases "byte b0 = 0xE0") auto
    ultimately show ?thesis
      using h by (simp add: w rune_value_def cont_byte_def)
  next
    fix b1 b2 b3 s'
    assume h: "s1 = b1 # b2 # b3 # s'" "rune_width (b0 # s1) = 4" "0xF0 \<le> byte b0" "byte b0 \<le> 0xF4"
      "cont_byte b1" "cont_byte b2" "cont_byte b3" "byte b0 = 0xF0 \<longrightarrow> 0x90 \<le> byte b1" "byte b0 = 0xF4 \<longrightarrow> byte b1 \<le> 0x8F"
    then have w: "w = [b0, b1, b2, b3]" unfolding w_def s h(2) by simp
    have "rune_width w = 4" using h by (simp add: w)
    moreover have "0x10 \<le> (byte b0 - 0xF0) * 0x40 + (byte b1 - 0x80)"
      using h(3,8) by (cases "byte b0 = 0xF0") auto
    ultimately show ?thesis
      using h by (simp add: w rune_value_def cont_byte_def)
  qed (simp add: w_def s)
qed

lemma rune_cases:
  "w \<in> set (runes s) \<Longrightarrow>
     (\<exists>c. w = [c]) \<or> 2 \<le> length w \<and> length w \<le> 4 \<and> (\<forall>c \<in> set w. 0x80 \<le> byte c) \<and> 0x80 \<le> rune_value w"
proof (induction s rule: runes.induct)
  case (1 s)
  then show ?case
    using rune_shape [of s] by (auto simp: runes.simps [of s] split: if_splits)
qed

lemma rune_value_single: "byte c < 0x80 \<Longrightarrow> rune_value [c] = byte c"
  by (simp add: rune_value_def)

lemma length_hex [simp]: "length (hex k n) = k"
  by (induction k arbitrary: n) auto

lemma hex_digit_in: "hex_digit d \<in> set ''0123456789abcdef''"
proof -
  have "d mod 16 < length ''0123456789abcdef''" by simp
  then show ?thesis
    unfolding hex_digit_def by (rule nth_mem)
qed

lemma hex_chars: "set (hex k n) \<subseteq> set ''0123456789abcdef''"
  by (induction k arbitrary: n) (use hex_digit_in in \<open>fastforce+\<close>)

lemma escape_letter_chars: "map_of escape_letters r = Some c \<Longrightarrow> c \<in> set ''abtnvfr''"
  using map_of_SomeD by (fastforce simp: escape_letters_def)

lemma esc_ok_safe: "dquote \<notin> set s \<Longrightarrow> backslash \<notin> set s \<Longrightarrow> esc_ok s"
  by (induction s) auto

text \<open>A string that \<open>%q\<close> leaves as it is.\<close>

definition no_escape :: "(nat \<Rightarrow> bool) \<Rightarrow> string \<Rightarrow> bool" where
  "no_escape is_print x \<longleftrightarrow>
     list_all (\<lambda>w. w \<noteq> [dquote] \<and> w \<noteq> [backslash] \<and>
                   (if length w = 1 then 0x20 \<le> byte (hd w) \<and> byte (hd w) < 0x7F else is_print (rune_value w)))
       (runes x)"

lemma byte_inj: "byte c = byte d \<longleftrightarrow> c = d"
  by (simp add: byte_def)

lemma escape_letter: "map_of escape_letters r = Some c \<Longrightarrow> r < 14 \<and> c \<noteq> newline"
  using map_of_SomeD by (fastforce simp: escape_letters_def)

lemma quote_rune_byte: "0x80 \<le> byte c \<Longrightarrow> quote_rune is_print [c] = backslash # CHR ''x'' # hex 2 (byte c)"
  by (simp add: quote_rune_def)

lemma quote_rune_ascii:
  "byte c < 0x80 \<Longrightarrow> quote_rune is_print [c] =
     (if c = dquote \<or> c = backslash then [backslash, c]
      else if 0x20 \<le> byte c \<and> byte c < 0x7F then [c]
      else case map_of escape_letters (byte c) of
             Some d \<Rightarrow> [backslash, d]
           | None \<Rightarrow> backslash # CHR ''x'' # hex 2 (byte c))"
  by (auto simp: quote_rune_def Let_def rune_value_single split: option.split)

lemma quote_rune_multi:
  assumes "2 \<le> length w" and "0x80 \<le> rune_value w"
  shows "quote_rune is_print w =
     (if is_print (rune_value w) then w
      else if rune_value w < 0x10000 then backslash # CHR ''u'' # hex 4 (rune_value w)
      else backslash # CHR ''U'' # hex 8 (rune_value w))"
proof -
  have "map_of escape_letters (rune_value w) = None"
    using escape_letter [of "rune_value w"] assms(2) by (cases "map_of escape_letters (rune_value w)") auto
  moreover have "w \<noteq> [dquote]" "w \<noteq> [backslash]" "length w \<noteq> 1"
    using assms(1) by auto
  ultimately show ?thesis
    using assms(2) by (simp add: quote_rune_def Let_def)
qed

lemma esc_ok_hex: "esc_ok (backslash # c # hex k n)" and newline_hex: "newline \<notin> set (hex k n)"
  using hex_chars [of k n] by (auto intro!: esc_ok_safe)

lemma byte_low:
  "byte c = 10 \<longleftrightarrow> c = newline" "byte c = 0x22 \<longleftrightarrow> c = dquote" "byte c = 0x5C \<longleftrightarrow> c = backslash"
  using byte_inj [of c newline] byte_inj [of c dquote] byte_inj [of c backslash]
  by (simp_all add: byte_def del: of_char_eq_iff)

lemma quote_rune_facts:
  assumes "w \<in> set (runes s)"
  shows "esc_ok (quote_rune is_print w)" and "newline \<notin> set (quote_rune is_print w)"
    and "quote_rune is_print w \<noteq> w \<Longrightarrow> length w < length (quote_rune is_print w)"
    and "quote_rune is_print w = w \<longleftrightarrow>
           w \<noteq> [dquote] \<and> w \<noteq> [backslash] \<and>
           (if length w = 1 then 0x20 \<le> byte (hd w) \<and> byte (hd w) < 0x7F else is_print (rune_value w))"
proof -
  let ?q = "quote_rune is_print w"
  let ?plain = "w \<noteq> [dquote] \<and> w \<noteq> [backslash] \<and>
           (if length w = 1 then 0x20 \<le> byte (hd w) \<and> byte (hd w) < 0x7F else is_print (rune_value w))"
  consider (byte) c where "w = [c]" "0x80 \<le> byte c" | (ascii) c where "w = [c]" "byte c < 0x80"
    | (multi) "2 \<le> length w" "length w \<le> 4" "\<forall>c \<in> set w. 0x80 \<le> byte c" "0x80 \<le> rune_value w"
    using rune_cases [OF assms] by (metis linorder_not_le)
  then have "esc_ok ?q \<and> newline \<notin> set ?q \<and> (?q = w \<longleftrightarrow> ?plain) \<and> (?q \<noteq> w \<longrightarrow> length w < length ?q)"
  proof cases
    case byte
    then show ?thesis
      using esc_ok_hex newline_hex by (simp add: quote_rune_byte)
  next
    case ascii
    then show ?thesis
      using esc_ok_hex newline_hex [of 2 "byte c"] byte_low(1) [of c] escape_letter [of "byte c"]
      by (auto simp: quote_rune_ascii split: option.split)
  next
    case multi
    then have w: "newline \<notin> set w" "dquote \<notin> set w" "backslash \<notin> set w"
      by (auto simp: byte_def)
    moreover have "hd w \<noteq> backslash" "w \<noteq> []"
      using w multi(1) by (cases w; auto)+
    ultimately show ?thesis
      using multi esc_ok_hex newline_hex esc_ok_safe [of w]
      by (cases w) (auto simp: quote_rune_multi simp del: esc_ok.simps)
  qed
  then show "esc_ok ?q" and "newline \<notin> set ?q" and "?q \<noteq> w \<Longrightarrow> length w < length ?q" and "?q = w \<longleftrightarrow> ?plain"
    by blast+
qed

lemma concat_map_same:
  assumes "\<forall>w \<in> set ws. f w \<noteq> w \<longrightarrow> length w < length (f w)"
  shows "concat (map f ws) = concat ws \<longleftrightarrow> (\<forall>w \<in> set ws. f w = w)"
proof
  have le: "length (concat ws) \<le> length (concat (map f ws))"
    if "\<forall>w \<in> set ws. f w \<noteq> w \<longrightarrow> length w < length (f w)" for ws
    using that by (induction ws) (auto simp: le_less intro: add_le_mono)
  assume "concat (map f ws) = concat ws"
  then show "\<forall>w \<in> set ws. f w = w"
    using assms
  proof (induction ws)
    case (Cons w ws)
    have "f w = w"
    proof (rule ccontr)
      assume "f w \<noteq> w"
      then have "length w < length (f w)" using Cons.prems(2) by simp
      moreover have "length (concat ws) \<le> length (concat (map f ws))"
        using le [of ws] Cons.prems(2) by simp
      moreover have "length (f w) + length (concat (map f ws)) = length w + length (concat ws)"
        using arg_cong [OF Cons.prems(1), of length] by simp
      ultimately show False by linarith
    qed
    with Cons show ?case by simp
  qed simp
qed (simp add: map_idI)

lemma quote_body_esc: "esc_ok (quote_body is_print x)"
  unfolding quote_body_def by (rule esc_ok_concat) (auto simp: list_all_iff quote_rune_facts)

lemma quote_body_newline: "newline \<notin> set (quote_body is_print x)"
  by (auto simp: quote_body_def dest: quote_rune_facts(2))

lemma quote_body_same_iff: "quote_body is_print x = x \<longleftrightarrow> no_escape is_print x"
proof -
  have "quote_body is_print x = x \<longleftrightarrow> concat (map (quote_rune is_print) (runes x)) = concat (runes x)"
    by (simp add: quote_body_def)
  also have "\<dots> \<longleftrightarrow> (\<forall>w \<in> set (runes x). quote_rune is_print w = w)"
    by (rule concat_map_same) (use quote_rune_facts(3) in blast)
  also have "\<dots> \<longleftrightarrow> no_escape is_print x"
    unfolding no_escape_def list_all_iff by (rule ball_cong [OF refl]) (rule quote_rune_facts(4))
  finally show ?thesis .
qed

lemma no_escape_quote:
  assumes "no_escape is_print x"
  shows "Quote is_print x = quoted x" and "dquote \<notin> set x"
proof -
  show "Quote is_print x = quoted x"
    using assms by (simp only: Quote_def quote_body_same_iff [THEN iffD2])
  have "dquote \<notin> set w" if w: "w \<in> set (runes x)" for w
  proof (cases "\<exists>c. w = [c]")
    case True
    then show ?thesis using assms w by (auto simp: no_escape_def list_all_iff)
  next
    case False
    then have "\<forall>c \<in> set w. 0x80 \<le> byte c" using rune_cases [OF w] by blast
    then show ?thesis by (auto simp: byte_def)
  qed
  moreover have "set x = (\<Union>w \<in> set (runes x). set w)"
    by (subst concat_runes [symmetric]) (simp del: concat_runes)
  ultimately show "dquote \<notin> set x" by auto
qed

lemma plain_no_escape:
  assumes "list_all (\<lambda>c. 0x20 \<le> byte c \<and> byte c < 0x7F \<and> c \<noteq> dquote \<and> c \<noteq> backslash) x"
  shows "no_escape is_print x"
proof -
  have "byte c < 0x80" if "c \<in> set x" for c
    using assms [unfolded list_all_iff, rule_format, OF that] by simp
  then have "\<forall>c \<in> set x. byte c < 0x80" by blast
  then have runes: "runes x = map (\<lambda>c. [c]) x" by (rule runes_ascii)
  show ?thesis
    unfolding no_escape_def runes list_all_iff
  proof
    fix w
    assume "w \<in> set (map (\<lambda>c. [c]) x)"
    then obtain c where "c \<in> set x" and w: "w = [c]" by auto
    from assms [unfolded list_all_iff, rule_format, OF this(1)]
    show "w \<noteq> [dquote] \<and> w \<noteq> [backslash] \<and>
        (if length w = 1 then 0x20 \<le> byte (hd w) \<and> byte (hd w) < 0x7F else is_print (rune_value w))"
      unfolding w by simp
  qed
qed

section \<open>Reading a list back from a text of lines\<close>

lemma has_prefix_Cons [simp]:
  "has_prefix (c # s) (d # p) \<longleftrightarrow> c = d \<and> has_prefix s p" "has_prefix s []" "\<not> has_prefix [] (d # p)"
  by (auto simp: has_prefix_iff)

lemma after_newlines_line: "newline \<notin> set l \<Longrightarrow> after_newlines (l @ newline # s) = s # after_newlines s"
  by (induction l) auto

lemma after_newlines_last: "newline \<notin> set l \<Longrightarrow> after_newlines l = []"
  by (induction l) auto

text \<open>A line at which the field does not begin.\<close>

definition no_field :: "string \<Rightarrow> string \<Rightarrow> bool" where
  "no_field name l \<longleftrightarrow> newline \<notin> set l \<and>
     (l = [] \<or> dropWhile re_space l \<noteq> [] \<and> \<not> has_prefix (dropWhile re_space l) (name @ '':''))"

lemma field_at_blank: "field_at name (newline # s) = field_at name s"
  by (simp add: field_at_def re_space_def)

lemma field_at_other:
  assumes "no_field name l" and "l \<noteq> []" and "newline \<notin> set name"
  shows "field_at name (l @ newline # s) = None"
proof -
  let ?l = "dropWhile re_space l"
  have l: "?l \<noteq> []" "\<not> has_prefix ?l (name @ '':'')" "newline \<notin> set ?l"
    using assms(1,2) by (auto simp: no_field_def dest: set_dropWhileD)
  have "dropWhile re_space (l @ newline # s) = ?l @ newline # s"
    using l(1) by (induction l) auto
  moreover have "\<not> has_prefix (?l @ newline # s) (name @ '':'')"
  proof
    assume "has_prefix (?l @ newline # s) (name @ '':'')"
    then have "prefix (name @ '':'') (?l @ newline # s)"
      by (auto simp: has_prefix_iff prefix_def)
    then consider "prefix (name @ '':'') ?l" | us where "name @ '':'' = ?l @ us" "prefix us (newline # s)" "us \<noteq> []"
      unfolding prefix_append by (metis append_Nil2 prefix_order.refl)
    then have "prefix (name @ '':'') ?l \<or> newline \<in> set (name @ '':'')"
    proof cases
      case 2
      then have "newline \<in> set us" by (cases us) auto
      with 2(1) show ?thesis by simp
    qed simp
    then show False
      using l(2) assms(3) by (auto simp: has_prefix_iff prefix_def)
  qed
  ultimately show ?thesis
    by (simp add: field_at_def)
qed

lemma fieldRe_skip:
  assumes "no_field name l" and "newline \<notin> set name"
  shows "fieldRe name (l @ newline # s) = fieldRe name s"
proof (cases "l = []")
  case True
  then show ?thesis
    by (auto simp: fieldRe_def line_starts_def field_at_blank split: option.split)
next
  case False
  then show ?thesis
    using assms by (simp add: fieldRe_def line_starts_def field_at_other after_newlines_line no_field_def)
qed

lemma fieldRe_hit:
  assumes "list_all re_space ws" and "name \<noteq> []" and "\<not> re_space (hd name)"
  shows "fieldRe name (ws @ name @ '': ['' @ s) = Some s"
proof -
  have "dropWhile re_space (ws @ name @ '': ['' @ s) = name @ '': ['' @ s"
    using assms by (cases name) (auto simp: list_all_iff dropWhile_append2)
  moreover have "has_prefix (name @ '': ['' @ s) (name @ '':'')"
    by (simp add: has_prefix_iff)
  ultimately show ?thesis
    by (simp add: fieldRe_def line_starts_def field_at_def re_space_def)
qed

lemma fieldRe_lines:
  assumes "list_all (no_field name) hs" and "newline \<notin> set name" and "name \<noteq> []" and "\<not> re_space (hd name)"
    and "list_all re_space ws"
  shows "fieldRe name (lines_of (hs @ (ws @ name @ '': ['' @ body) # rest)) = Some (body @ newline # lines_of rest)"
  using assms(1)
proof (induction hs)
  case Nil
  have "fieldRe name (ws @ name @ '': ['' @ (body @ newline # lines_of rest)) = Some (body @ newline # lines_of rest)"
    by (rule fieldRe_hit) (use assms in auto)
  then show ?case
    by (simp add: lines_of_def)
next
  case (Cons h hs)
  then show ?case
    using assms(2) by (simp add: lines_of_def fieldRe_skip)
qed

lemma renderStringList_eq:
  "renderStringList is_print xs = ''['' @ join '', '' (map quoted (map (quote_body is_print) xs)) @ '']''"
  by (auto simp: renderStringList_def Quote_def [abs_def] comp_def)

lemma extractList_lines:
  assumes "list_all (no_field name) hs" and "newline \<notin> set name" and "name \<noteq> []" and "\<not> re_space (hd name)"
    and "list_all re_space ws"
  shows "extractList (lines_of (hs @ (ws @ name @ '': '' @ renderStringList is_print xs) # rest)) name =
           Inr (map (quote_body is_print) xs)"
proof -
  let ?bs = "map (quote_body is_print) xs"
  have esc: "list_all esc_ok ?bs"
    by (simp add: list_all_iff quote_body_esc)
  have "fieldRe name (lines_of (hs @ (ws @ name @ '': '' @ renderStringList is_print xs) # rest)) =
      Some (join '', '' (map quoted ?bs) @ CHR '']'' # newline # lines_of rest)"
    using fieldRe_lines [OF assms, of "join '', '' (map quoted ?bs) @ '']''" rest]
    by (simp add: renderStringList_eq del: map_map)
  then show ?thesis
    using capture_list [OF esc] parse_list_literal [OF esc, of 0]
    by (simp add: extractList_def captureUntilClose_def parseStringList_def del: map_map)
qed

section \<open>The catalog entry\<close>

lemma set_join: "set (join sep xs) \<subseteq> set sep \<union> (\<Union>x \<in> set xs. set x)"
  by (induction sep xs rule: join.induct) auto

lemma part_of_join: "x \<in> set xs \<Longrightarrow> set x \<subseteq> set (join sep xs)"
  by (induction sep xs rule: join.induct) auto

lemma set_split_on: "x \<in> set (split_on c s) \<Longrightarrow> set x \<subseteq> set s"
  using part_of_join [of x "split_on c s" "[c]"] by simp

lemma plain_brick_name: "plain_part (''brick-'' @ DefaultBrickSlug p @ ''.cue'')"
proof -
  have part: "slash \<notin> set (join ''--'' xs)" if "set xs \<subseteq> set (split_on slash p)" for xs
    using that set_join [of "''--''" xs] split_on_sep_free [of _ slash p] by fastforce
  have "slash \<notin> set (DefaultBrickSlug p)"
    unfolding DefaultBrickSlug_def Let_def by (rule part) (auto dest: in_set_dropD)
  then show ?thesis
    by (simp add: plain_part_def)
qed

lemma clean_ne: "fp_clean p \<noteq> ''''"
  by (auto simp: fp_clean_def Let_def)

lemma brick_file_base: "fp_base (brick_file rootDir p) = ''brick-'' @ DefaultBrickSlug p @ ''.cue''"
proof -
  have "brickCatalogDir p \<noteq> ''''"
    by (simp add: brickCatalogDir_def fp_join_def Let_def clean_ne)
  then show ?thesis
    by (simp only: brick_file_def fp_join3 fp_base_join [OF plain_brick_name] not_False_eq_True)
qed

lemma DefaultBrickSlug_chars: "set (DefaultBrickSlug p) \<subseteq> insert (CHR ''-'') (set p)"
proof -
  have part: "set (join ''--'' xs) \<subseteq> insert (CHR ''-'') (set p)" if "set xs \<subseteq> set (split_on slash p)" for xs
    using that set_join [of "''--''" xs] set_split_on by fastforce
  show ?thesis
    unfolding DefaultBrickSlug_def Let_def by (rule part) (auto dest: in_set_dropD)
qed

lemma quoted_newline: "newline \<notin> set (quoted s) \<longleftrightarrow> newline \<notin> set s"
  by (simp add: quoted_def)

lemma renderStringList_newline: "newline \<notin> set (renderStringList is_print xs)"
proof -
  have "set (join '', '' (map (Quote is_print) xs)) \<subseteq> set '', '' \<union> (\<Union>x \<in> set xs. set (Quote is_print x))"
    using set_join [of "'', ''" "map (Quote is_print) xs"] by simp
  then have "newline \<notin> set (join '', '' (map (Quote is_print) xs))"
    using quote_body_newline by (force simp: Quote_def quoted_def split: if_splits)
  then show ?thesis
    by (simp add: renderStringList_def)
qed

text \<open>The lists that a configuration puts into the entry.\<close>

definition eff_reads :: "brickConfig \<Rightarrow> string list" where
  "eff_reads c = (if cf_readsSet c then cf_reads c else [])"

definition eff_writes :: "brickConfig \<Rightarrow> string list" where
  "eff_writes c = (if cf_writesSet c then cf_writes c else [])"

lemma brick_entry_lists:
  assumes "newline \<notin> set p" and "newline \<notin> set desc" and "newline \<notin> set iface"
  shows "extractList (brick_entry is_print typeName iface p desc cfg) ''reads'' =
           Inr (map (quote_body is_print) (eff_reads cfg))" (is ?reads)
    and "extractList (brick_entry is_print typeName iface p desc cfg) ''writes'' =
           Inr (map (quote_body is_print) (eff_writes cfg))" (is ?writes)
proof -
  let ?entry = "brick_entry is_print typeName iface p desc cfg"
  let ?r = "[tab, tab] @ ''reads'' @ '': '' @ renderStringList is_print (eff_reads cfg)"
  let ?w = "[tab, tab] @ ''writes'' @ '': '' @ renderStringList is_print (eff_writes cfg)"
  obtain hs rest where entry: "?entry = lines_of (hs @ ?r # ?w # rest)"
    and hs: "list_all (\<lambda>l. no_field ''reads'' l \<and> no_field ''writes'' l) hs"
  proof
    have slug: "newline \<notin> set (DefaultBrickSlug p)"
      using DefaultBrickSlug_chars [of p] assms(1) by auto
    show "?entry = lines_of ([
           ''@experiment(aliasv2,explicitopen,shortcircuit,try)'', '''', ''package catalog'', '''',
           ''import '' @ quoted ''github.com/defn/other/kernel/schema'', '''', ''bricks: [string]: schema.#Brick'', '''',
           ''bricks: {'', [tab] @ quoted p @ '': {'', [tab, tab] @ ''path:       '' @ quoted p,
           [tab, tab] @ ''slug:       '' @ quoted (DefaultBrickSlug p), [tab, tab] @ ''kind:       '' @ quoted ''component'',
           [tab, tab] @ ''desc:       '' @ quoted desc, [tab, tab] @ ''implements: '' @ quoted iface] @ ?r # ?w #
         ((if cf_parent cfg \<noteq> '''' then [[tab, tab] @ ''parent:     '' @ Quote is_print (cf_parent cfg)] else []) @
           [[tab, tab] @ ''stamp_type: '' @ Quote is_print typeName, [tab] @ ''}'', ''}'']))"
      by (simp add: brick_entry_def Let_def quoted_def eff_reads_def eff_writes_def renderStringList_def lines_of_def)
    show "list_all (\<lambda>l. no_field ''reads'' l \<and> no_field ''writes'' l) [
           ''@experiment(aliasv2,explicitopen,shortcircuit,try)'', '''', ''package catalog'', '''',
           ''import '' @ quoted ''github.com/defn/other/kernel/schema'', '''', ''bricks: [string]: schema.#Brick'', '''',
           ''bricks: {'', [tab] @ quoted p @ '': {'', [tab, tab] @ ''path:       '' @ quoted p,
           [tab, tab] @ ''slug:       '' @ quoted (DefaultBrickSlug p), [tab, tab] @ ''kind:       '' @ quoted ''component'',
           [tab, tab] @ ''desc:       '' @ quoted desc, [tab, tab] @ ''implements: '' @ quoted iface]"
      using assms slug by (simp add: no_field_def re_space_def quoted_def)
  qed
  have wsp: "list_all re_space [tab, tab]"
    by (simp add: re_space_def)
  have "list_all (no_field ''reads'') hs"
    using hs by (simp add: list_all_iff)
  from extractList_lines [OF this _ _ _ wsp] show ?reads
    unfolding entry by (simp add: re_space_def)
  have "no_field ''writes'' ?r"
    using renderStringList_newline by (simp add: no_field_def re_space_def)
  then have "list_all (no_field ''writes'') (hs @ [?r])"
    using hs by (simp add: list_all_iff)
  from extractList_lines [OF this _ _ _ wsp, of is_print "eff_writes cfg" rest] show ?writes
    unfolding entry by (simp add: re_space_def)
qed

section \<open>Canonical names\<close>

lemma canonical_rune_Some:
  "canonical_rune w = Some out \<Longrightarrow>
     list_all (\<lambda>c. ident_char c \<and> canonical_rune [c] = Some [c] \<and> byte c < 0x80) out"
proof (cases w)
  case (Cons c w')
  assume out: "canonical_rune w = Some out"
  then have w: "w = [c]" using Cons by (auto simp: canonical_rune_def split: list.splits)
  show ?thesis
  proof (cases "byte (CHR ''A'') \<le> byte c \<and> byte c \<le> byte (CHR ''Z'')")
    case True
    let ?d = "char_of (byte c + 32) :: char"
    have "out = [?d]"
      using out True by (auto simp: w canonical_rune_def byte_def)
    moreover have "byte ?d = byte c + 32"
      using True by (simp add: byte_def)
    ultimately show ?thesis
      using True by (simp add: canonical_rune_def ident_char_def ident_start_def byte_def)
  next
    case False
    with out have "out = [] \<or> out = [c] \<and> ident_char c \<and> byte c < 0x80 \<and> canonical_rune [c] = Some [c]"
      by (auto simp: w canonical_rune_def ident_char_def ident_start_def is_digit_def byte_def less_eq_char_def split: if_splits)
    then show ?thesis by auto
  qed
qed (simp add: canonical_rune_def)

lemma canonical_runes_Some:
  "canonical_runes ws = Some out \<Longrightarrow>
     list_all (\<lambda>c. ident_char c \<and> canonical_rune [c] = Some [c] \<and> byte c < 0x80) out"
  by (induction ws arbitrary: out) (auto dest: canonical_rune_Some split: option.splits)

lemma canonical_runes_fixed:
  "list_all (\<lambda>c. canonical_rune [c] = Some [c]) s \<Longrightarrow> canonical_runes (map (\<lambda>c. [c]) s) = Some s"
  by (induction s) auto

text \<open>
  \<open>canonicalGoSegment\<close>: A name that is accepted is turned into an identifier, and the
  result is its own canonical form, so stamping again does not move the brick; the notice flag
  says exactly whether the name was changed; a refused name is returned as it is.
\<close>

theorem canonicalGoSegment_canonical:
  assumes "canonicalGoSegment s = (c, changed, ok)"
  shows "(ok \<longrightarrow> is_ident c \<and> canonicalGoSegment c = (c, False, True)) \<and> (\<not> ok \<longrightarrow> c = s) \<and> (changed \<longleftrightarrow> c \<noteq> s)"
proof (cases ok)
  case True
  with assms have out: "canonical_runes (runes s) = Some c" "c \<noteq> []" "\<not> is_digit (hd c)" "changed \<longleftrightarrow> c \<noteq> s"
    by (auto simp: canonicalGoSegment_def split: if_splits option.splits)
  have ok: "list_all (\<lambda>c. ident_char c \<and> canonical_rune [c] = Some [c] \<and> byte c < 0x80) c"
    using canonical_runes_Some [OF out(1)] .
  then have runes: "runes c = map (\<lambda>c. [c]) c"
    by (intro runes_ascii) (simp add: list_all_iff)
  have "canonical_runes (runes c) = Some c"
    unfolding runes by (rule canonical_runes_fixed) (use ok in \<open>simp add: list_all_iff\<close>)
  then have "canonicalGoSegment c = (c, False, True)"
    using out by (simp add: canonicalGoSegment_def)
  moreover have "is_ident c"
    using ok out(2,3) by (cases c) (auto simp: is_ident_def ident_char_def list_all_iff)
  ultimately show ?thesis
    using True out(4) by simp
next
  case False
  with assms show ?thesis
    by (auto simp: canonicalGoSegment_def split: if_splits option.splits)
qed

theorem canonicalGoSegment_canonical_witness:
  "canonicalGoSegment ''Sync-crds'' = (''synccrds'', True, True) \<and> is_ident ''synccrds'' \<and>
   canonicalGoSegment ''synccrds'' = (''synccrds'', False, True)"
proof -
  have "canonicalGoSegment ''Sync-crds'' = (''synccrds'', True, True)" by code_simp
  with canonicalGoSegment_canonical [OF this] show ?thesis by simp
qed

lemma mset_sink [simp]: "mset (sink x ys) = add_mset x (mset ys)"
  by (induction ys) auto

lemma sorted_sink: "sorted (rev ys) \<Longrightarrow> sorted (rev (sink x ys))"
proof (induction ys)
  case (Cons y ys)
  have "set (sink x ys) = insert x (set ys)"
    by (induction ys) auto
  with Cons show ?case
    by (auto simp: sorted_append)
qed simp

lemma sortedKeys_sorted: "sortedKeys m = sort (keys m)"
proof -
  have "sorted out \<Longrightarrow> sorted (foldl (\<lambda>out x. rev (sink x (rev out))) out xs) \<and>
      mset (foldl (\<lambda>out x. rev (sink x (rev out))) out xs) = mset out + mset xs" for out xs :: "string list"
    by (induction xs arbitrary: out) (auto simp: sorted_sink)
  from this [of "[]" "keys m"] show ?thesis
    unfolding sortedKeys_def by (intro properties_for_sort [symmetric]) auto
qed

section \<open>What a stamp does to the disk\<close>

lemma MkdirAll_fs: "MkdirAll p dk = Some dk' \<Longrightarrow> dk_fs dk' = dk_fs dk"
  by (auto simp: MkdirAll_def split: if_splits)

lemma stamp_put_fs:
  "stamp_put rootDir p f entry a dk = (dk', r) \<Longrightarrow>
     dk_fs dk' = dk_fs dk \<and> isl r \<or> WriteFile f entry 420 (dk_fs dk) = Some (dk_fs dk') \<and> (isl r \<or> r = Inr a)"
  by (auto simp: stamp_put_def MkdirAll_def split: option.splits if_splits)

lemma stamp_entry_fs:
  assumes "stamp_entry rootDir p f entry dk = (dk', r)"
  shows "agree_on (- {f}) (dk_fs dk') (dk_fs dk)"
    and "r = Inr a \<Longrightarrow> file_data (dk_fs dk') f = Some entry"
    and "fs_noread (dk_fs dk') = fs_noread (dk_fs dk)"
proof -
  have put: "dk_fs dk' = dk_fs dk \<and> (r = Inr a \<longrightarrow> file_data (dk_fs dk) f = Some entry) \<or>
      WriteFile f entry 420 (dk_fs dk) = Some (dk_fs dk')"
    using assms
    by (auto simp: stamp_entry_def ReadFile_data split: read_result.splits if_splits dest!: stamp_put_fs)
  then show "agree_on (- {f}) (dk_fs dk') (dk_fs dk)"
    using WriteFile_agree by fastforce
  show "r = Inr a \<Longrightarrow> file_data (dk_fs dk') f = Some entry"
    using put WriteFile_data by fastforce
  show "fs_noread (dk_fs dk') = fs_noread (dk_fs dk)"
    using put by (auto dest: WriteFile_frame(1))
qed

lemma stamp_entry_again:
  "\<not> fs_noread (dk_fs dk) f \<Longrightarrow> file_data (dk_fs dk) f = Some entry \<Longrightarrow>
     stamp_entry rootDir p f entry dk = (dk, Inr NoChanges)"
  by (simp add: stamp_entry_def ReadFile_data [THEN iffD2])

text \<open>What \<open>StampBrick\<close> does once its arguments are accepted, with the path it settles on.\<close>

definition stamp_args :: "string \<Rightarrow> string \<Rightarrow> stamp_error + string \<times> string" where
  "stamp_args typeName p0 =
     (if p0 = '''' then Inl (PathRequired typeName)
      else if has_prefix p0 ''/'' \<or> has_prefix p0 ''.'' then Inl (PathNotRelative p0)
      else case map_of InterfaceMap typeName of
             None \<Rightarrow> Inl (UnknownType typeName)
           | Some iface \<Rightarrow> map_sum id (\<lambda>p. (iface, p)) (canonical_path typeName p0))"

definition stamp_desc :: "string \<Rightarrow> string \<Rightarrow> string" where
  "stamp_desc p desc0 = (if desc0 = '''' then last (split_on slash p) else desc0)"

definition stamp_cfg :: "string \<Rightarrow> BrickOption list \<Rightarrow> brickConfig" where
  "stamp_cfg p opts = auto_parent p (foldl (\<lambda>c opt. opt c) empty_config opts)"

lemma StampBrick_eq:
  "StampBrick is_print rootDir typeName p0 desc0 opts dk =
     (case stamp_args typeName p0 of
        Inl e \<Rightarrow> (dk, Inl e)
      | Inr (iface, p) \<Rightarrow>
          stamp_entry rootDir p (brick_file rootDir p)
            (brick_entry is_print typeName iface p (stamp_desc p desc0) (stamp_cfg p opts)) dk)"
  by (simp add: StampBrick_def stamp_args_def stamp_desc_def stamp_cfg_def Let_def split: option.split sum.split)

text \<open>
  C37 (\<open>StampBrick\<close>). Refused arguments leave the disk as it is. Otherwise at most the catalog
  file of the brick is written; on success it holds the entry, and the same stamp run again
  finds nothing to do, so a hatch that changes nothing touches no modification time.
\<close>

theorem StampBrick_idempotent:
  assumes "StampBrick is_print rootDir typeName p0 desc0 opts dk = (dk', r)"
    and "\<And>q. \<not> fs_noread (dk_fs dk) q"
  shows "case stamp_args typeName p0 of
           Inl e \<Rightarrow> dk' = dk \<and> r = Inl e
         | Inr (iface, p) \<Rightarrow>
             agree_on (- {brick_file rootDir p}) (dk_fs dk') (dk_fs dk) \<and>
             (\<not> isl r \<longrightarrow>
                file_data (dk_fs dk') (brick_file rootDir p) =
                  Some (brick_entry is_print typeName iface p (stamp_desc p desc0) (stamp_cfg p opts)) \<and>
                StampBrick is_print rootDir typeName p0 desc0 opts dk' = (dk', Inr NoChanges))"
proof (cases "stamp_args typeName p0")
  case (Inr ip)
  obtain iface p where ip: "ip = (iface, p)" by force
  let ?f = "brick_file rootDir p"
  let ?entry = "brick_entry is_print typeName iface p (stamp_desc p desc0) (stamp_cfg p opts)"
  have run: "stamp_entry rootDir p ?f ?entry dk = (dk', r)"
    using assms(1) by (simp add: StampBrick_eq Inr ip)
  note facts = stamp_entry_fs [OF run]
  have "file_data (dk_fs dk') ?f = Some ?entry \<and>
      StampBrick is_print rootDir typeName p0 desc0 opts dk' = (dk', Inr NoChanges)" if "\<not> isl r"
  proof -
    obtain a where "r = Inr a" using \<open>\<not> isl r\<close> by (cases r) auto
    then have data: "file_data (dk_fs dk') ?f = Some ?entry" by (rule facts(2))
    moreover have "\<not> fs_noread (dk_fs dk') ?f" using facts(3) assms(2) by simp
    ultimately show ?thesis
      by (simp add: StampBrick_eq Inr ip stamp_entry_again)
  qed
  then show ?thesis
    using facts(1) by (simp add: Inr ip)
qed (use assms(1) in \<open>simp add: StampBrick_eq\<close>)

definition empty_disk :: disk where
  "empty_disk = \<lparr>dk_fs = empty_fs, dk_dirs = (\<lambda>_. False), dk_nodir = (\<lambda>_. False)\<rparr>"

theorem StampBrick_idempotent_witness:
  "\<exists>dk'. StampBrick (\<lambda>_. False) ''/w'' ''skill'' ''a/b'' ''d'' [] empty_disk = (dk', Inr Created) \<and>
     StampBrick (\<lambda>_. False) ''/w'' ''skill'' ''a/b'' ''d'' [] dk' = (dk', Inr NoChanges)"
proof -
  let ?run = "StampBrick (\<lambda>_. False) ''/w'' ''skill'' ''a/b'' ''d'' []"
  have args: "stamp_args ''skill'' ''a/b'' = Inr (''kernel/interface/skill'', ''a/b'')"
    by (simp add: stamp_args_def InterfaceMap_def canonical_path_def goStampTypes_def get_or_def)
  obtain dk' where run: "?run empty_disk = (dk', Inr Created)"
    by (simp add: StampBrick_eq args stamp_entry_def stamp_put_def MkdirAll_def WriteFile_def ReadFile_def
        empty_disk_def empty_fs_def Let_def)
  have "\<And>q. \<not> fs_noread (dk_fs empty_disk) q"
    by (simp add: empty_disk_def empty_fs_def)
  from StampBrick_idempotent [OF run this] have "?run dk' = (dk', Inr NoChanges)"
    by (simp add: args)
  with run show ?thesis by blast
qed

text \<open>
  C36 (\<open>StampBrick\<close>, \<open>renderStringList\<close>, \<open>extractList\<close>). The lists of the entry, read back by the reader
  of worker files, are the lists given to the stamp exactly when no string of them needs an
  escape; the reader does not undo escapes, so a string that has one comes back changed.
\<close>

theorem brick_entry_round_trip:
  assumes "newline \<notin> set p" and "newline \<notin> set desc" and "newline \<notin> set iface"
    and "cf_readsSet cfg" and "cf_writesSet cfg"
  shows "(extractList (brick_entry is_print typeName iface p desc cfg) ''reads'' = Inr (cf_reads cfg) \<longleftrightarrow> list_all (no_escape is_print) (cf_reads cfg)) \<and>
         (extractList (brick_entry is_print typeName iface p desc cfg) ''writes'' = Inr (cf_writes cfg) \<longleftrightarrow> list_all (no_escape is_print) (cf_writes cfg))"
proof -
  have "map (quote_body is_print) xs = xs \<longleftrightarrow> list_all (no_escape is_print) xs" for xs
    by (induction xs) (simp_all add: quote_body_same_iff)
  then show ?thesis
    using brick_entry_lists [OF assms(1-3), of is_print typeName cfg] assms(4,5)
    by (simp add: eff_reads_def eff_writes_def)
qed

theorem brick_entry_round_trip_witness:
  "let cfg = WithIO [''go.mod'', [backslash]] [''a/b''] empty_config;
       entry = brick_entry (\<lambda>_. False) ''skill'' ''i'' ''a/b'' ''d'' cfg
   in extractList entry ''writes'' = Inr [''a/b''] \<and> extractList entry ''reads'' \<noteq> Inr [''go.mod'', [backslash]]"
proof -
  let ?cfg = "WithIO [''go.mod'', [backslash]] [''a/b''] empty_config"
  have writes: "list_all (no_escape (\<lambda>_. False)) [''a/b'']"
    by (simp add: no_escape_def runes_ascii byte_def)
  have reads: "\<not> list_all (no_escape (\<lambda>_. False)) [''go.mod'', [backslash]]"
    by (simp add: no_escape_def runes_ascii byte_def)
  show ?thesis
    using brick_entry_round_trip [of "''a/b''" "''d''" "''i''" ?cfg "\<lambda>_. False" "''skill''"] writes reads
    by (simp add: WithIO_def Let_def)
qed

text \<open>A top-level brick and the kernel brick of the same name share one catalog file.\<close>

lemma brick_file_collision:
  "brick_file rootDir ''kernel/x'' = brick_file rootDir ''x''"
proof -
  have "split_on slash ''kernel/x'' = [''kernel'', ''x'']" "split_on slash ''x'' = [''x'']"
    by code_simp+
  then show ?thesis
    by (simp add: brick_file_def brickCatalogDir_def DefaultBrickSlug_def)
qed

text \<open>
  The path check looks at the first byte only: a path that leaves the workspace later is
  accepted, and its directory is made outside.
\<close>

lemma stamp_path_escapes:
  "stamp_args ''skill'' ''a/../../b'' = Inr (''kernel/interface/skill'', ''a/../../b'') \<and>
   fp_join [''/w/m'', ''a/../../b''] = ''/w/b''"
proof
  show "stamp_args ''skill'' ''a/../../b'' = Inr (''kernel/interface/skill'', ''a/../../b'')"
    by (simp add: stamp_args_def InterfaceMap_def canonical_path_def goStampTypes_def get_or_def)
  show "fp_join [''/w/m'', ''a/../../b''] = ''/w/b''" by code_simp
qed

end
