(* ===== verification/TenantStamp.thy ===== *)
theory TenantStamp
  imports Stamp
begin

text \<open>
  \<open>lib/stamp/stamp.go\<close>, tenants: \<open>StampTenant\<close> makes the fixed set of hand-written files of a
  tenant, each only if it is missing. The texts are those of the source, line by line.
\<close>

section \<open>The files\<close>

definition stdBuildBazel :: "string \<Rightarrow> string" where
  \<open>stdBuildBazel docstring = docstring @ lines_of [
      '''',
      '''',
      ''load("//kernel:fmt.bzl", "fmt_test")'',
      ''load("//kernel:tagged.bzl", "tagged_file")'',
      '''',
      ''fmt_test('',
      ''    name = "build_bazel_fmt",'',
      ''    src = "BUILD.bazel",'',
      ''    tool = "buildifier",'',
      '')'',
      '''',
      ''tagged_file('',
      ''    name = "build_bazel_tag",'',
      ''    src = "BUILD.bazel",'',
      ''    tags = ['',
      ''        "bazel",'',
      ''        "bazel-build",'',
      ''    ],'',
      '')'']\<close>

definition tenant_build_bazel :: "string \<Rightarrow> string" where
  \<open>tenant_build_bazel name = stdBuildBazel (join [newline] [
      ''"""tenant/'' @ name @ ''/ -- top-level container for the '' @ name @ '' tenant's instance data.'',
      '''',
      ''Stamped by defn stamp tenant. Hand-edit this docstring to describe'',
      ''what the tenant represents; the stamp won't overwrite it.'',
      ''"""''])\<close>

definition tenant_app_build_bazel :: "string \<Rightarrow> string" where
  \<open>tenant_app_build_bazel name = stdBuildBazel (join [newline] [
      ''"""tenant/'' @ name @ ''/app/ -- application bricks owned by this tenant.'',
      '''',
      ''Per-app subdirs are stamped via defn stamp helm-app (or hand-'',
      ''authored for raw apps). Empty here is legal -- a tenant with no'',
      ''apps just has this BUILD.bazel.'',
      ''"""''])\<close>

definition tenant_aws_build_bazel :: "string \<Rightarrow> string" where
  \<open>tenant_aws_build_bazel name = stdBuildBazel (join [newline] [
      ''"""tenant/'' @ name @ ''/aws/ -- AWS configuration owned by this tenant.'',
      '''',
      ''The awsconfig generator writes root/.aws/config from'',
      ''catalog.aws_orgs + aws_accounts; tenant/<x>/aws/ is the manifest'',
      ''surface for tenant-owned hand-written AWS files (none today).'',
      ''"""''])\<close>

definition tenant_bot_build_bazel :: "string" where
  \<open>tenant_bot_build_bazel = lines_of [
      ''"""Bot parent directory -- shared config inherited by bot instances."""'',
      '''',
      ''load("//kernel:fmt.bzl", "fmt_test")'',
      ''load("//kernel:tagged.bzl", "tagged_file")'',
      '''',
      ''exports_files(['',
      ''    ".gitignore",'',
      ''    "mise.toml",'',
      ''])'',
      '''',
      ''fmt_test('',
      ''    name = "build_bazel_fmt",'',
      ''    src = "BUILD.bazel",'',
      ''    tool = "buildifier",'',
      '')'',
      '''',
      ''fmt_test('',
      ''    name = "gitignore_fmt",'',
      ''    src = ".gitignore",'',
      ''    tool = "textfmt",'',
      '')'',
      '''',
      ''fmt_test('',
      ''    name = "mise_toml_fmt",'',
      ''    src = "mise.toml",'',
      ''    tool = "taplo",'',
      '')'',
      '''',
      ''tagged_file('',
      ''    name = "build_bazel_tag",'',
      ''    src = "BUILD.bazel",'',
      ''    tags = ['',
      ''        "bazel",'',
      ''        "bazel-build",'',
      ''    ],'',
      '')'',
      '''',
      ''tagged_file('',
      ''    name = "gitignore_tag",'',
      ''    src = ".gitignore",'',
      ''    tags = ['',
      ''        "config",'',
      ''        "git",'',
      ''    ],'',
      '')'',
      '''',
      ''tagged_file('',
      ''    name = "mise_toml_tag",'',
      ''    src = "mise.toml",'',
      ''    tags = ['',
      ''        "config",'',
      ''        "mise",'',
      ''        "toml",'',
      ''    ],'',
      '')'']\<close>

definition tenant_bot_gitignore :: "string" where
  \<open>tenant_bot_gitignore = lines_of [''.env'']\<close>

definition tenant_bot_mise_toml :: "string" where
  \<open>tenant_bot_mise_toml = lines_of [
      ''# Bot parent config -- credentials inherited by all bot subdirectories.'',
      ''# Secrets loaded from .env (not checked in).'',
      ''[env]'',
      ''_.file = ".env"'']\<close>

definition tenant_catalog_build_bazel :: "string" where
  \<open>tenant_catalog_build_bazel = lines_of [
      ''"""Per-tenant catalog instance data; merged into kernel catalog at load time."""'',
      '''',
      ''load("//kernel:fmt.bzl", "fmt_test")'',
      ''load("//kernel:tagged.bzl", "tagged_file", "tagged_package")'',
      '''',
      ''exports_files(glob(["*.cue"]))'',
      '''',
      ''# Used by //kernel/spec/test:fork_smoke (AIDR-00071).'',
      ''filegroup('',
      ''    name = "catalog_files",'',
      ''    srcs = glob(["*.cue"]),'',
      ''    visibility = ["//kernel/spec:__pkg__"],'',
      '')'',
      '''',
      ''fmt_test('',
      ''    name = "build_bazel_fmt",'',
      ''    src = "BUILD.bazel",'',
      ''    tool = "buildifier",'',
      '')'',
      '''',
      ''tagged_file('',
      ''    name = "build_bazel_tag",'',
      ''    src = "BUILD.bazel",'',
      ''    tags = ["bazel-build"],'',
      '')'',
      '''',
      ''tagged_package(exclude = ["BUILD.bazel"])'']\<close>

definition tenant_env_build_bazel :: "string \<Rightarrow> string" where
  \<open>tenant_env_build_bazel name = stdBuildBazel (join [newline] [
      ''"""tenant/'' @ name @ ''/env/ -- environment definitions owned by this tenant.'',
      '''',
      ''Empty here is legal; per-env subdirs (e.g. env/versions/) are'',
      ''hand-authored when the tenant adopts environment tracking.'',
      ''"""''])\<close>

definition tenant_infra_build_bazel :: "string" where
  \<open>tenant_infra_build_bazel = lines_of [
      ''load("//kernel:fmt.bzl", "fmt_test")'',
      ''load("//kernel:tagged.bzl", "tagged_file")'',
      '''',
      ''fmt_test('',
      ''    name = "build_bazel_fmt",'',
      ''    src = "BUILD.bazel",'',
      ''    tool = "buildifier",'',
      '')'',
      '''',
      ''tagged_file('',
      ''    name = "build_bazel_tag",'',
      ''    src = "BUILD.bazel",'',
      ''    tags = ['',
      ''        "bazel",'',
      ''        "bazel-build",'',
      ''    ],'',
      '')'',
      '''',
      ''fmt_test('',
      ''    name = "mise_toml_fmt",'',
      ''    src = "mise.toml",'',
      ''    tool = "taplo",'',
      '')'',
      '''',
      ''tagged_file('',
      ''    name = "mise_toml_tag",'',
      ''    src = "mise.toml",'',
      ''    tags = ['',
      ''        "config",'',
      ''        "toml",'',
      ''    ],'',
      '')'']\<close>

definition tenant_infra_mise_toml :: "string" where
  \<open>tenant_infra_mise_toml = lines_of [
      ''[env]'',
      ''TF_PLUGIN_CACHE_DIR = "{{env.HOME}}/.terraform.d/plugin-cache"'']\<close>

definition tenant_infra_mise_tasks_build_bazel :: "string" where
  \<open>tenant_infra_mise_tasks_build_bazel = stdBuildBazel (join [newline] [
      ''"""Infrastructure mise tasks."""''])\<close>

definition tenant_k3d_build_bazel :: "string \<Rightarrow> string" where
  \<open>tenant_k3d_build_bazel name = stdBuildBazel (join [newline] [
      ''"""tenant/'' @ name @ ''/k3d/ -- k3d cluster instances owned by this tenant.'',
      '''',
      ''Per-cluster subdirs are generated by the k3d generator from'',
      ''catalog.k3d_clusters entries. Empty here is legal; a tenant with'',
      ''no clusters just has this BUILD.bazel.'',
      ''"""''])\<close>

definition tenant_k8s_build_bazel :: "string \<Rightarrow> string" where
  \<open>tenant_k8s_build_bazel name = stdBuildBazel (join [newline] [
      ''"""tenant/'' @ name @ ''/k8s/ -- k8s platform definitions owned by this tenant.'',
      '''',
      ''Per-platform subdirs are stamped via the k8s generator from'',
      ''catalog.k8s_platforms entries. Empty here is legal.'',
      ''"""''])\<close>

definition tenant_files :: "string \<Rightarrow> (string \<times> string) list" where
  \<open>tenant_files name = [
      (''BUILD.bazel'', tenant_build_bazel name),
      (''app/BUILD.bazel'', tenant_app_build_bazel name),
      (''aws/BUILD.bazel'', tenant_aws_build_bazel name),
      (''bot/BUILD.bazel'', tenant_bot_build_bazel),
      (''bot/.gitignore'', tenant_bot_gitignore),
      (''bot/mise.toml'', tenant_bot_mise_toml),
      (''catalog/BUILD.bazel'', tenant_catalog_build_bazel),
      (''env/BUILD.bazel'', tenant_env_build_bazel name),
      (''infra/BUILD.bazel'', tenant_infra_build_bazel),
      (''infra/mise.toml'', tenant_infra_mise_toml),
      (''infra/.mise/tasks/BUILD.bazel'', tenant_infra_mise_tasks_build_bazel),
      (''k3d/BUILD.bazel'', tenant_k3d_build_bazel name),
      (''k8s/BUILD.bazel'', tenant_k8s_build_bazel name)]\<close>

section \<open>The loop\<close>

datatype tenant_error =
  NameRequired | NameNotSegment string | MkdirTenantErr string | TenantWriteErr string

definition Stat_ok :: "disk \<Rightarrow> string \<Rightarrow> bool" where
  "Stat_ok dk p \<longleftrightarrow> fs_files (dk_fs dk) p \<noteq> None \<or> dk_dirs dk p"

text \<open>The answer lists, in order, which files were preserved (\<open>False\<close>) and which created.\<close>

fun stamp_files :: "string \<Rightarrow> (string \<times> string) list \<Rightarrow> disk \<Rightarrow> disk \<times> (tenant_error + (string \<times> bool) list)" where
  "stamp_files tenantRoot [] dk = (dk, Inr [])"
| "stamp_files tenantRoot ((rel, body) # rest) dk =
     (let p = fp_join [tenantRoot, rel] in
      case MkdirAll (fp_dir p) dk of
        None \<Rightarrow> (dk, Inl (MkdirTenantErr (fp_dir rel)))
      | Some dk1 \<Rightarrow>
          if Stat_ok dk1 p then apsnd (map_sum id ((#) (rel, False))) (stamp_files tenantRoot rest dk1)
          else case WriteFile p body 420 (dk_fs dk1) of
                 None \<Rightarrow> (dk1, Inl (TenantWriteErr rel))
               | Some fs \<Rightarrow>
                   apsnd (map_sum id ((#) (rel, True))) (stamp_files tenantRoot rest (dk1\<lparr>dk_fs := fs\<rparr>)))"

definition bad_name_char :: "char \<Rightarrow> bool" where
  "bad_name_char c \<longleftrightarrow> c \<in> {slash, CHR ''.'', backslash, CHR '' '', tab}"

definition StampTenant :: "string \<Rightarrow> string \<Rightarrow> disk \<Rightarrow> disk \<times> (tenant_error + (string \<times> bool) list)" where
  "StampTenant rootDir name dk =
     (if name = '''' then (dk, Inl NameRequired)
      else if list_ex bad_name_char name then (dk, Inl (NameNotSegment name))
      else stamp_files (fp_join [rootDir, ''tenant'', name]) (tenant_files name) dk)"

section \<open>Create if missing\<close>

text \<open>What a run leaves: the files and directories it had, and more of them.\<close>

definition grown :: "disk \<Rightarrow> disk \<Rightarrow> bool" where
  "grown dk dk' \<longleftrightarrow> dk_nodir dk' = dk_nodir dk \<and> (\<forall>q. dk_dirs dk q \<longrightarrow> dk_dirs dk' q) \<and>
     (\<forall>q f. fs_files (dk_fs dk) q = Some f \<longrightarrow> fs_files (dk_fs dk') q = Some f)"

definition dir_made :: "string \<Rightarrow> disk \<Rightarrow> bool" where
  "dir_made p dk \<longleftrightarrow> \<not> dk_nodir dk p \<and> (\<forall>q. q = p \<or> ancestor q p \<longrightarrow> dk_dirs dk q)"

lemma grown_refl [simp]: "grown dk dk"
  by (simp add: grown_def)

lemma grown_trans: "grown a b \<Longrightarrow> grown b c \<Longrightarrow> grown a c"
  by (auto simp: grown_def)

lemma grown_MkdirAll: "MkdirAll p dk = Some dk' \<Longrightarrow> grown dk dk' \<and> dir_made p dk'"
  by (auto simp: MkdirAll_def grown_def dir_made_def split: if_splits)

lemma MkdirAll_made: "dir_made p dk \<Longrightarrow> MkdirAll p dk = Some dk"
proof -
  assume made: "dir_made p dk"
  then have "(\<lambda>q. dk_dirs dk q \<or> q = p \<or> ancestor q p) = dk_dirs dk"
    by (auto simp: dir_made_def)
  with made show ?thesis by (simp add: MkdirAll_def dir_made_def)
qed

lemma dir_made_grown: "dir_made p dk \<Longrightarrow> grown dk dk' \<Longrightarrow> dir_made p dk'"
  by (auto simp: dir_made_def grown_def)

lemma Stat_ok_grown: "Stat_ok dk p \<Longrightarrow> grown dk dk' \<Longrightarrow> Stat_ok dk' p"
  by (auto simp: Stat_ok_def grown_def)

lemma grown_write:
  assumes "WriteFile p body m (dk_fs dk) = Some gs" and "\<not> Stat_ok dk p"
  shows "grown dk (dk\<lparr>dk_fs := gs\<rparr>)"
proof -
  have "fs_files gs q = Some f" if "fs_files (dk_fs dk) q = Some f" for q f
  proof -
    have "q \<noteq> p" using assms(2) that by (auto simp: Stat_ok_def)
    with WriteFile_frame(3) [OF assms(1)] that show ?thesis by simp
  qed
  then show ?thesis by (simp add: grown_def)
qed

text \<open>The outcome of one file, compared with the disk before and after.\<close>

definition placed :: "string \<Rightarrow> disk \<Rightarrow> disk \<Rightarrow> string \<times> string \<Rightarrow> string \<times> bool \<Rightarrow> bool" where
  "placed root dk dk' = (\<lambda>(rel, body) (rel', new).
     let p = fp_join [root, rel] in
     rel' = rel \<and> dir_made (fp_dir p) dk' \<and> Stat_ok dk' p \<and>
     (new \<longrightarrow> fs_files (dk_fs dk) p = None \<and> file_data (dk_fs dk') p = Some body))"

lemma grown_None: "grown dk dk1 \<Longrightarrow> fs_files (dk_fs dk1) p = None \<Longrightarrow> fs_files (dk_fs dk) p = None"
  by (cases "fs_files (dk_fs dk) p") (auto simp: grown_def)

lemma placed_earlier: "placed root dk1 dk' x y \<Longrightarrow> grown dk dk1 \<Longrightarrow> placed root dk dk' x y"
  by (auto simp: placed_def Let_def dest: grown_None split: prod.splits)

lemma list_all2_left: "list_all2 P xs ys \<Longrightarrow> (\<And>x y. P x y \<Longrightarrow> Q x) \<Longrightarrow> list_all Q xs"
  by (induction xs ys rule: list_all2_induct) auto

lemma stamp_files_outcome:
  "stamp_files root fs dk = (dk', r) \<Longrightarrow>
     grown dk dk' \<and> (\<forall>l. r = Inr l \<longrightarrow> list_all2 (placed root dk dk') fs l)"
proof (induction root fs dk arbitrary: dk' r rule: stamp_files.induct)
  case (2 root rel body rest dk)
  let ?p = "fp_join [root, rel]"
  show ?case
  proof (cases "MkdirAll (fp_dir ?p) dk")
    case None
    with 2(3) show ?thesis by (auto simp: Let_def)
  next
    case (Some dk1)
    note mk = grown_MkdirAll [OF Some]
    show ?thesis
    proof (cases "Stat_ok dk1 ?p")
      case True
      obtain r' where run: "stamp_files root rest dk1 = (dk', r')" and r: "r = map_sum id ((#) (rel, False)) r'"
        using 2(3) Some True by (cases "stamp_files root rest dk1") (auto simp: Let_def)
      note ih = 2(1) [OF refl Some True run]
      have "placed root dk dk' (rel, body) (rel, False)"
        using mk True ih dir_made_grown Stat_ok_grown by (simp add: placed_def Let_def) blast
      then show ?thesis
        using ih mk r by (cases r') (auto intro: grown_trans placed_earlier list_all2_mono)
    next
      case False
      show ?thesis
      proof (cases "WriteFile ?p body 420 (dk_fs dk1)")
        case None
        with 2(3) Some False mk show ?thesis by (auto simp: Let_def)
      next
        case w: (Some gs)
        let ?dk2 = "dk1\<lparr>dk_fs := gs\<rparr>"
        obtain r' where run: "stamp_files root rest ?dk2 = (dk', r')" and r: "r = map_sum id ((#) (rel, True)) r'"
          using 2(3) Some False w by (cases "stamp_files root rest ?dk2") (auto simp: Let_def)
        note ih = 2(2) [OF refl Some False w run]
        have g: "grown dk1 ?dk2" using grown_write [OF w False] .
        have "file_data (dk_fs ?dk2) ?p = Some body"
          using WriteFile_data [OF w] by simp
        then have data: "file_data (dk_fs dk') ?p = Some body"
          using ih by (auto simp: grown_def file_data_def)
        moreover have "fs_files (dk_fs dk) ?p = None"
          using False MkdirAll_fs [OF Some] by (simp add: Stat_ok_def)
        moreover have "dir_made (fp_dir ?p) dk'"
          using mk g ih dir_made_grown by blast
        ultimately have "placed root dk dk' (rel, body) (rel, True)"
          by (auto simp: placed_def Stat_ok_def Let_def file_data_def)
        moreover have "grown dk ?dk2" using mk g grown_trans by blast
        ultimately show ?thesis
          using ih r by (cases r') (auto intro: grown_trans placed_earlier list_all2_mono)
      qed
    qed
  qed
qed simp

lemma stamp_files_settled:
  "list_all (\<lambda>(rel, body). dir_made (fp_dir (fp_join [root, rel])) dk \<and> Stat_ok dk (fp_join [root, rel])) fs \<Longrightarrow>
     stamp_files root fs dk = (dk, Inr (map (\<lambda>(rel, body). (rel, False)) fs))"
  by (induction fs) (auto simp: MkdirAll_made)

text \<open>
  C38 (\<open>StampTenant\<close>). A file that exists is never changed, whatever the answer; on success every
  file of the set is there, a file reported as created was missing and holds the text of the
  source, and running the stamp again changes nothing and preserves every file.
\<close>

theorem StampTenant_create_if_missing:
  assumes "StampTenant rootDir name dk = (dk', r)"
  defines "root \<equiv> fp_join [rootDir, ''tenant'', name]"
  shows "(\<forall>q f. fs_files (dk_fs dk) q = Some f \<longrightarrow> fs_files (dk_fs dk') q = Some f) \<and>
         (\<forall>l. r = Inr l \<longrightarrow>
            list_all2 (placed root dk dk') (tenant_files name) l \<and>
            StampTenant rootDir name dk' = (dk', Inr (map (\<lambda>(rel, body). (rel, False)) (tenant_files name))))"
proof (cases "name = '''' \<or> list_ex bad_name_char name")
  case True
  with assms(1) show ?thesis by (auto simp: StampTenant_def split: if_splits)
next
  case False
  then have run: "stamp_files root (tenant_files name) dk = (dk', r)"
    using assms by (simp add: StampTenant_def)
  note out = stamp_files_outcome [OF run]
  have again: "stamp_files root (tenant_files name) dk' = (dk', Inr (map (\<lambda>(rel, body). (rel, False)) (tenant_files name)))"
    if "list_all2 (placed root dk dk') (tenant_files name) l" for l
    by (rule stamp_files_settled, rule list_all2_left [OF that]) (auto simp: placed_def Let_def split: prod.splits)
  show ?thesis
    using out again False by (auto simp: grown_def StampTenant_def root_def)
qed

theorem StampTenant_create_if_missing_witness:
  "let dk = empty_disk\<lparr>dk_fs := empty_fs\<lparr>fs_files := [''/w/tenant/t/bot/.gitignore'' \<mapsto> \<lparr>fl_data = ''mine'', fl_mtime = 0, fl_mode = 420\<rparr>]\<rparr>\<rparr>;
       (dk', r) = StampTenant ''/w'' ''t'' dk
   in \<not> isl r \<and> file_data (dk_fs dk') ''/w/tenant/t/bot/.gitignore'' = Some ''mine'' \<and>
      fst (StampTenant ''/w'' ''t'' dk') = dk'"
proof -
  let ?dk = "empty_disk\<lparr>dk_fs := empty_fs\<lparr>fs_files := [''/w/tenant/t/bot/.gitignore'' \<mapsto> \<lparr>fl_data = ''mine'', fl_mtime = 0, fl_mode = 420\<rparr>]\<rparr>\<rparr>"
  have ok: "\<not> isl (snd (stamp_files root fs dk))" if "\<forall>q. \<not> dk_nodir dk q" and "\<forall>q. \<not> fs_nowrite (dk_fs dk) q" for root fs dk
    using that
  proof (induction root fs dk rule: stamp_files.induct)
    case (2 root rel body rest dk)
    have "\<exists>dk1. MkdirAll (fp_dir (fp_join [root, rel])) dk = Some dk1 \<and> (\<forall>q. \<not> dk_nodir dk1 q) \<and> dk_fs dk1 = dk_fs dk"
      using 2(3) by (simp add: MkdirAll_def)
    then obtain dk1 where dk1: "MkdirAll (fp_dir (fp_join [root, rel])) dk = Some dk1" "\<forall>q. \<not> dk_nodir dk1 q" "dk_fs dk1 = dk_fs dk"
      by blast
    obtain gs where gs: "WriteFile (fp_join [root, rel]) body 420 (dk_fs dk1) = Some gs" "fs_nowrite gs = fs_nowrite (dk_fs dk)"
      using 2(4) dk1(3) by (auto simp: WriteFile_def Let_def)
    show ?case
      using 2(1) [OF refl dk1(1)] 2(2) [OF refl dk1(1) _ gs(1)] 2(3,4) dk1 gs
      by (auto simp: Let_def isl_map_sum)
  qed simp
  obtain dk' r where run: "StampTenant ''/w'' ''t'' ?dk = (dk', r)" by force
  have "\<not> isl r"
    using run ok [of ?dk "fp_join [''/w'', ''tenant'', ''t'']" "tenant_files ''t''"]
    by (auto simp: StampTenant_def bad_name_char_def empty_disk_def empty_fs_def)
  then obtain l where l: "r = Inr l" by (cases r) auto
  have "fs_files (dk_fs ?dk) ''/w/tenant/t/bot/.gitignore'' = Some \<lparr>fl_data = ''mine'', fl_mtime = 0, fl_mode = 420\<rparr>"
    by simp
  then have "file_data (dk_fs dk') ''/w/tenant/t/bot/.gitignore'' = Some ''mine''"
    using StampTenant_create_if_missing [OF run] by (simp add: file_data_def)
  moreover have "fst (StampTenant ''/w'' ''t'' dk') = dk'"
    using StampTenant_create_if_missing [OF run] l by simp
  ultimately show ?thesis
    using run l by (simp add: Let_def)
qed

end
