(* ===== verification/Workers.thy ===== *)
theory Workers
  imports Stamp
begin

text \<open>
  The two generators that keep a brick's worker file and its catalog entry:
  \<open>lib/gen/dispatchworker/dispatchworker.go\<close> writes a \<open>dispatch.cue\<close> into the directory of every
  brick, \<open>lib/gen/restamp/restamp.go\<close> copies the lists it finds there into the catalog. The
  \<open>bricks\<close> value of the catalog is given by its fields; \<open>sort.Slice\<close> by path is a stable sort
  here, which only matters for two bricks of one path.
\<close>

section \<open>The bricks of the catalog\<close>

type_synonym cue_struct = "string \<Rightarrow> string option"

datatype catalog_bricks = NoBricks | NotStruct | Bricks "(string \<times> cue_struct) list"

text \<open>\<open>gen.DecodeString\<close> with its error ignored.\<close>

definition decoded :: "cue_struct \<Rightarrow> string \<Rightarrow> string" where
  "decoded v name = (case v name of Some s \<Rightarrow> s | None \<Rightarrow> '''')"

section \<open>dispatchworker\<close>

definition importPath :: string where
  "importPath = ''github.com/defn/other/kernel/spec/dispatch''"

definition renderDispatchCUE :: "string \<Rightarrow> string" where
  \<open>renderDispatchCUE pkg = lines_of [
      ''@experiment(aliasv2,explicitopen,shortcircuit,try)'',
      '''',
      ''// AIDR-00132 OQ7: per-brick worker declaration. Edit `reads`/`writes`'',
      ''// when this brick reads or writes any path the generator contracts'',
      ''// don't already cover. The catalog imports `worker` (AIDR-00132'',
      ''// OQ7 step 3) to project brick_io.'',
      '''',
      ''package '' @ pkg,
      '''',
      ''import "'' @ importPath @ ''"'',
      '''',
      ''worker: dispatch.#BrickResult & {'',
      [tab] @ ''reads: []'',
      [tab] @ ''writes: []'',
      ''}'']\<close>

definition worker_entries :: "(string \<times> cue_struct) list \<Rightarrow> (string \<times> string) list" where
  "worker_entries bricks =
     sort_key snd
       (map (\<lambda>(slug, b). (CueFieldKey slug, decoded b ''path''))
         (filter (\<lambda>(slug, b). decoded b ''path'' \<noteq> '''' \<and> \<not> IsCueModPath (decoded b ''path'')) bricks))"

datatype worker_run_error = IterBricksErr | DetectErr string pkg_error | WorkerWriteErr string

text \<open>The loop; the answer is the number of files written.\<close>

fun write_workers :: "(gofs \<Rightarrow> string \<Rightarrow> string list option) \<Rightarrow> string \<Rightarrow> (string \<times> string) list \<Rightarrow> nat \<Rightarrow> disk \<Rightarrow>
    disk \<times> (worker_run_error + nat)" where
  "write_workers glob workDir [] written dk = (dk, Inr written)"
| "write_workers glob workDir ((slug, p) # rest) written dk =
     (let absDir = fp_join [workDir, p] in
      if \<not> dk_dirs dk absDir then write_workers glob workDir rest written dk
      else case DetectPackage glob (dk_fs dk) absDir p of
             Inl e \<Rightarrow> (dk, Inl (DetectErr slug e))
           | Inr pkg \<Rightarrow>
               (let outPath = fp_join [absDir, DispatchFile] in
                case WriteIfChanged outPath (renderDispatchCUE pkg) 420 (dk_fs dk) of
                  (fs, changed, ok) \<Rightarrow>
                    if \<not> ok then (dk\<lparr>dk_fs := fs\<rparr>, Inl (WorkerWriteErr outPath))
                    else write_workers glob workDir rest (if changed then Suc written else written) (dk\<lparr>dk_fs := fs\<rparr>)))"

definition dispatchworker_Run :: "(gofs \<Rightarrow> string \<Rightarrow> string list option) \<Rightarrow> string \<Rightarrow> catalog_bricks \<Rightarrow> disk \<Rightarrow>
    disk \<times> (worker_run_error + nat)" where
  "dispatchworker_Run glob workDir bricks dk =
     (case bricks of
        NoBricks \<Rightarrow> (dk, Inr 0)
      | NotStruct \<Rightarrow> (dk, Inl IterBricksErr)
      | Bricks bs \<Rightarrow> write_workers glob workDir (worker_entries bs) 0 dk)"

section \<open>restamp\<close>

record stamp_item =
  si_path :: string
  si_desc :: string
  si_type :: string
  si_parent :: string

definition stamp_items :: "(string \<times> cue_struct) list \<Rightarrow> stamp_item list" where
  "stamp_items bricks =
     sort_key si_path
       (map (\<lambda>(_, v). \<lparr>si_path = decoded v ''path'', si_desc = decoded v ''desc'',
                        si_type = decoded v ''stamp_type'', si_parent = decoded v ''parent''\<rparr>)
         (filter (\<lambda>(_, v). decoded v ''stamp_type'' \<notin> {'''', ''gen''}) bricks))"

datatype restamp_error = RestampIterErr | WorkerErr string worker_error | RestampErr string stamp_error

definition item_opts :: "stamp_item \<Rightarrow> (string list \<times> string list) option \<Rightarrow> BrickOption list" where
  "item_opts e io =
     (if si_parent e \<noteq> '''' then [WithParent (si_parent e)] else []) @
     (case io of None \<Rightarrow> [] | Some (reads, writes) \<Rightarrow> [WithIO reads writes])"

fun restamp_all :: "(nat \<Rightarrow> bool) \<Rightarrow> string \<Rightarrow> stamp_item list \<Rightarrow> disk \<Rightarrow> disk \<times> restamp_error option" where
  "restamp_all is_print workDir [] dk = (dk, None)"
| "restamp_all is_print workDir (e # es) dk =
     (case ReadWorkerIO (dk_fs dk) (fp_join [workDir, si_path e]) of
        Inl err \<Rightarrow> (dk, Some (WorkerErr (si_path e) err))
      | Inr io \<Rightarrow>
          (case StampBrick is_print workDir (si_type e) (si_path e) (si_desc e) (item_opts e io) dk of
             (dk', Inl err) \<Rightarrow> (dk', Some (RestampErr (si_path e) err))
           | (dk', Inr _) \<Rightarrow> restamp_all is_print workDir es dk'))"

definition restamp_Run :: "(nat \<Rightarrow> bool) \<Rightarrow> string \<Rightarrow> catalog_bricks \<Rightarrow> disk \<Rightarrow> disk \<times> restamp_error option" where
  "restamp_Run is_print workDir bricks dk =
     (case bricks of
        Bricks bs \<Rightarrow> restamp_all is_print workDir (stamp_items bs) dk
      | _ \<Rightarrow> (dk, Some RestampIterErr))"

section \<open>The rendered worker file\<close>

lemma is_ident_newline: "is_ident pkg \<Longrightarrow> newline \<notin> set pkg"
  by (auto simp: is_ident_def list_all_iff ident_char_def ident_start_def is_digit_def byte_def less_eq_char_def)

lemma renderDispatchCUE_lists:
  assumes "is_ident pkg"
  shows "extractList (renderDispatchCUE pkg) ''reads'' = Inr []" (is ?reads)
    and "extractList (renderDispatchCUE pkg) ''writes'' = Inr []" (is ?writes)
proof -
  let ?hs = "[''@experiment(aliasv2,explicitopen,shortcircuit,try)'', '''',
      ''// AIDR-00132 OQ7: per-brick worker declaration. Edit `reads`/`writes`'',
      ''// when this brick reads or writes any path the generator contracts'',
      ''// don't already cover. The catalog imports `worker` (AIDR-00132'',
      ''// OQ7 step 3) to project brick_io.'', '''', ''package '' @ pkg, '''', ''import '' @ quoted importPath, '''',
      ''worker: dispatch.#BrickResult & {'']"
  let ?r = "[tab] @ ''reads'' @ '': '' @ renderStringList (\<lambda>_. False) []"
  let ?w = "[tab] @ ''writes'' @ '': '' @ renderStringList (\<lambda>_. False) []"
  have eq: "renderDispatchCUE pkg = lines_of (?hs @ ?r # ?w # [''}''])"
    by (simp add: renderDispatchCUE_def renderStringList_def quoted_def)
  have hs: "list_all (no_field ''reads'') ?hs" "list_all (no_field ''writes'') (?hs @ [?r])"
    using is_ident_newline [OF assms]
    by (simp_all add: no_field_def re_space_def quoted_def importPath_def renderStringList_def)
  have wsp: "list_all re_space [tab]"
    by (simp add: re_space_def)
  show ?reads
    using extractList_lines [OF hs(1) _ _ _ wsp, of "\<lambda>_. False" "[]" "?w # [''}'']"]
    unfolding eq by (simp add: re_space_def)
  show ?writes
    using extractList_lines [OF hs(2) _ _ _ wsp, of "\<lambda>_. False" "[]" "[''}'']"]
    unfolding eq by (simp add: re_space_def)
qed

lemma ReadWorkerIO_rendered:
  assumes "is_ident pkg" and "file_data fs (fp_join [d, DispatchFile]) = Some (renderDispatchCUE pkg)"
    and "\<not> fs_noread fs (fp_join [d, DispatchFile])"
  shows "ReadWorkerIO fs d = Inr (Some ([], []))"
  using assms by (simp add: ReadWorkerIO_def Let_def ReadFile_data [THEN iffD2] renderDispatchCUE_lists)

section \<open>A run of dispatchworker\<close>

definition out_of :: "string \<Rightarrow> string \<Rightarrow> string" where
  "out_of workDir p = fp_join [fp_join [workDir, p], DispatchFile]"

lemma plain_DispatchFile: "plain_part DispatchFile"
  by (simp add: plain_part_def DispatchFile_def)

lemma fp_base_out_of [simp]: "fp_base (out_of workDir p) = DispatchFile"
  by (simp add: out_of_def fp_base_join plain_DispatchFile)

lemma WriteIfChanged_cases:
  assumes "WriteIfChanged p c m fs = (fs', changed, ok)"
  shows "q \<noteq> p \<Longrightarrow> fs_files fs' q = fs_files fs q" and "fs_noread fs' = fs_noread fs"
    and "ok \<Longrightarrow> file_data fs' p = Some c"
  using assms
  by (auto simp: WriteIfChanged_def ReadFile_data WriteFile_data dest: WriteFile_frame split: if_splits option.splits)

text \<open>One brick: skipped, failed, or its file holds the rendered text.\<close>

lemma write_workers_Cons:
  assumes "write_workers glob workDir ((slug, p) # rest) n dk = (dk', r)"
  obtains (skip) "\<not> dk_dirs dk (fp_join [workDir, p])" "write_workers glob workDir rest n dk = (dk', r)"
  | (fail) fs where "isl r" "dk' = dk\<lparr>dk_fs := fs\<rparr>" "\<forall>q. q \<noteq> out_of workDir p \<longrightarrow> fs_files fs q = fs_files (dk_fs dk) q"
      "fs_noread fs = fs_noread (dk_fs dk)"
  | (step) pkg fs m where "dk_dirs dk (fp_join [workDir, p])"
      "DetectPackage glob (dk_fs dk) (fp_join [workDir, p]) p = Inr pkg"
      "\<forall>q. q \<noteq> out_of workDir p \<longrightarrow> fs_files fs q = fs_files (dk_fs dk) q" "fs_noread fs = fs_noread (dk_fs dk)"
      "file_data fs (out_of workDir p) = Some (renderDispatchCUE pkg)"
      "write_workers glob workDir rest m (dk\<lparr>dk_fs := fs\<rparr>) = (dk', r)"
proof (cases "dk_dirs dk (fp_join [workDir, p])")
  case False
  with assms skip show thesis by (simp add: Let_def)
next
  case dir: True
  show thesis
  proof (cases "DetectPackage glob (dk_fs dk) (fp_join [workDir, p]) p")
    case (Inl e)
    with assms dir have "isl r" "dk' = dk\<lparr>dk_fs := dk_fs dk\<rparr>" by (auto simp: Let_def)
    then show thesis by (rule fail) auto
  next
    case (Inr pkg)
    obtain fs changed ok where w: "WriteIfChanged (out_of workDir p) (renderDispatchCUE pkg) 420 (dk_fs dk) = (fs, changed, ok)"
      using prod_cases3 by blast
    note facts = WriteIfChanged_cases [OF w]
    show thesis
    proof (cases ok)
      case True
      with assms dir Inr w have "write_workers glob workDir rest (if changed then Suc n else n) (dk\<lparr>dk_fs := fs\<rparr>) = (dk', r)"
        by (simp add: Let_def out_of_def)
      with True facts show thesis using step [OF dir Inr] by blast
    next
      case False
      with assms dir Inr w have "isl r" "dk' = dk\<lparr>dk_fs := fs\<rparr>"
        by (auto simp: Let_def out_of_def)
      with facts show thesis using fail by blast
    qed
  qed
qed

lemma write_workers_frame:
  "write_workers glob workDir es n dk = (dk', r) \<Longrightarrow>
     dk_dirs dk' = dk_dirs dk \<and> fs_noread (dk_fs dk') = fs_noread (dk_fs dk) \<and>
     (\<forall>q. q \<notin> out_of workDir ` snd ` set es \<longrightarrow> fs_files (dk_fs dk') q = fs_files (dk_fs dk) q)"
proof (induction es arbitrary: n dk)
  case (Cons e es)
  obtain slug p where e: "e = (slug, p)" by force
  from Cons.prems [unfolded e] show ?case
  proof (cases rule: write_workers_Cons)
    case (step pkg fs m)
    from Cons.IH [OF step(6)] step show ?thesis by (simp add: e)
  qed (use Cons.IH in \<open>auto simp: e\<close>)
qed simp

definition rendered :: "gofs \<Rightarrow> string \<Rightarrow> bool" where
  "rendered fs f \<longleftrightarrow> (\<exists>pkg. is_ident pkg \<and> file_data fs f = Some (renderDispatchCUE pkg))"

lemma write_workers_keeps_rendered:
  "write_workers glob workDir es n dk = (dk', Inr m) \<Longrightarrow> rendered (dk_fs dk) f \<Longrightarrow> rendered (dk_fs dk') f"
proof (induction es arbitrary: n dk)
  case (Cons e es)
  obtain slug p where e: "e = (slug, p)" by force
  from Cons.prems(1) [unfolded e] show ?case
  proof (cases rule: write_workers_Cons)
    case (step pkg fs k)
    have "rendered fs f"
    proof (cases "f = out_of workDir p")
      case True
      then show ?thesis
        using step(5) DetectPackage_is_ident [OF step(2)] unfolding rendered_def by blast
    next
      case False
      then show ?thesis
        using step(3) Cons.prems(2) by (simp add: rendered_def file_data_def)
    qed
    then show ?thesis using Cons.IH [OF step(6)] by simp
  qed (use Cons in auto)
qed simp

lemma write_workers_rendered:
  assumes "write_workers glob workDir es n dk = (dk', Inr m)" and "(slug, p) \<in> set es"
    and "dk_dirs dk (fp_join [workDir, p])"
  shows "rendered (dk_fs dk') (out_of workDir p)"
  using assms
proof (induction es arbitrary: n dk)
  case (Cons e es)
  obtain slug' p' where e: "e = (slug', p')" by force
  from Cons.prems(1) [unfolded e] show ?case
  proof (cases rule: write_workers_Cons)
    case skip
    with Cons e show ?thesis by auto
  next
    case (step pkg fs k)
    have "rendered (dk_fs (dk\<lparr>dk_fs := fs\<rparr>)) (out_of workDir p')"
      using step(5) DetectPackage_is_ident [OF step(2)] unfolding rendered_def by auto
    with write_workers_keeps_rendered [OF step(6)] Cons.IH [OF step(6)] Cons.prems(2,3) show ?thesis
      by (auto simp: e)
  qed simp
qed simp


definition edited_disk :: disk where
  \<open>edited_disk = empty_disk\<lparr>
     dk_fs := empty_fs\<lparr>fs_files := [''/w/b/dispatch.cue'' \<mapsto>
       \<lparr>fl_data = lines_of [''worker: {'', [tab] @ ''reads: ["y"]'', [tab] @ ''writes: []'', ''}''], fl_mtime = 0, fl_mode = 420\<rparr>]\<rparr>,
     dk_dirs := (\<lambda>d. d = ''/w/b'')\<rparr>\<close>


lemma WriteIfChanged_completes:
  "\<not> fs_nowrite fs p \<Longrightarrow> \<exists>fs' changed. WriteIfChanged p c m fs = (fs', changed, True) \<and> fs_nowrite fs' = fs_nowrite fs"
  by (auto simp: WriteIfChanged_def WriteFile_def Let_def)

lemma write_workers_completes:
  assumes "\<And>fs d. glob fs d = Some []" and "\<And>q. \<not> fs_nowrite (dk_fs dk) q"
  shows "\<exists>dk' m. write_workers glob workDir es n dk = (dk', Inr m) \<and> (\<forall>q. \<not> fs_nowrite (dk_fs dk') q) \<and>
           dk_nodir dk' = dk_nodir dk"
  using assms(2)
proof (induction es arbitrary: n dk)
  case (Cons e es)
  obtain slug p where e: "e = (slug, p)" by force
  obtain fs changed where "WriteIfChanged (fp_join [fp_join [workDir, p], DispatchFile])
      (renderDispatchCUE (StubPackageName p)) 420 (dk_fs dk) = (fs, changed, True)" "fs_nowrite fs = fs_nowrite (dk_fs dk)"
    using WriteIfChanged_completes [of "dk_fs dk"] Cons.prems by metis
  with Cons.IH [of "dk\<lparr>dk_fs := fs\<rparr>"] Cons.IH [of dk] Cons.prems show ?case
    by (simp add: e Let_def DetectPackage_def assms(1))
qed simp


text \<open>
  The listing of a directory depends on the files that are there; worker files aside, it is a
  function of the others.
\<close>

definition glob_stable :: "(gofs \<Rightarrow> string \<Rightarrow> string list option) \<Rightarrow> bool" where
  "glob_stable glob \<longleftrightarrow> (\<forall>fs gs d. (\<forall>c. fp_base c \<noteq> DispatchFile \<longrightarrow> fs_files gs c = fs_files fs c) \<longrightarrow>
     map_option (filter (\<lambda>c. fp_base c \<noteq> DispatchFile)) (glob gs d) =
     map_option (filter (\<lambda>c. fp_base c \<noteq> DispatchFile)) (glob fs d))"

definition settled :: "(gofs \<Rightarrow> string \<Rightarrow> string list option) \<Rightarrow> string \<Rightarrow> disk \<Rightarrow> string \<Rightarrow> bool" where
  "settled glob workDir dk p \<longleftrightarrow>
     (dk_dirs dk (fp_join [workDir, p]) \<longrightarrow>
        (\<exists>pkg. DetectPackage glob (dk_fs dk) (fp_join [workDir, p]) p = Inr pkg \<and>
               file_data (dk_fs dk) (out_of workDir p) = Some (renderDispatchCUE pkg)))"

lemma write_workers_settled:
  assumes "list_all (\<lambda>(slug, p). settled glob workDir dk p \<and> \<not> fs_noread (dk_fs dk) (out_of workDir p)) es"
  shows "write_workers glob workDir es n dk = (dk, Inr n)"
  using assms
  by (induction es) (auto simp: settled_def Let_def WriteIfChanged_def ReadFile_data [THEN iffD2] out_of_def)

lemma settled_frame:
  assumes "glob_stable glob" and "settled glob workDir dk p"
    and "dk_dirs dk' = dk_dirs dk" and "fs_noread (dk_fs dk') = fs_noread (dk_fs dk)"
    and "\<forall>q. fp_base q \<noteq> DispatchFile \<or> q = out_of workDir p \<longrightarrow> fs_files (dk_fs dk') q = fs_files (dk_fs dk) q"
  shows "settled glob workDir dk' p"
proof -
  have "DetectPackage glob (dk_fs dk') d p = DetectPackage glob (dk_fs dk) d p" for d
    using assms(1,4,5) by (intro DetectPackage_cong) (auto simp: glob_stable_def ReadFile_def)
  with assms(2-5) show ?thesis
    by (simp add: settled_def file_data_def)
qed

lemma write_workers_settles:
  assumes "write_workers glob workDir es n dk = (dk', Inr m)" and "glob_stable glob"
    and "distinct (map (out_of workDir \<circ> snd) es)"
  shows "list_all (\<lambda>(slug, p). settled glob workDir dk' p) es"
  using assms(1,3)
proof (induction es arbitrary: n dk)
  case (Cons e es)
  obtain slug p where e: "e = (slug, p)" by force
  have other: "q \<notin> out_of workDir ` snd ` set es" if "fp_base q \<noteq> DispatchFile \<or> q = out_of workDir p" for q
    using that Cons.prems(2) by (force simp: e)
  from Cons.prems(1) [unfolded e] show ?case
  proof (cases rule: write_workers_Cons)
    case skip
    with Cons write_workers_frame [OF skip(2)] show ?thesis
      by (simp add: e settled_def)
  next
    case (step pkg fs k)
    let ?dk = "dk\<lparr>dk_fs := fs\<rparr>"
    have "\<forall>c. fp_base c \<noteq> DispatchFile \<longrightarrow> fs_files fs c = fs_files (dk_fs dk) c"
      using step(3) by (metis fp_base_out_of)
    then have "DetectPackage glob fs d p = DetectPackage glob (dk_fs dk) d p" for d
      using assms(2) step(4) by (intro DetectPackage_cong) (auto simp: glob_stable_def ReadFile_def)
    then have "settled glob workDir ?dk p"
      using step by (simp add: settled_def)
    note here = this
    note fr = write_workers_frame [OF step(6)]
    have "settled glob workDir dk' p"
      by (rule settled_frame [OF assms(2) here fr [THEN conjunct1] fr [THEN conjunct2, THEN conjunct1]])
        (use fr other in blast)
    with Cons.IH [OF step(6)] Cons.prems(2) show ?thesis
      by (simp add: e)
  qed simp
qed simp

text \<open>
  \<open>dispatchworker.Run\<close>: When the directories of the bricks are different and their worker files
  readable, a successful run is settled: run again it writes no file.
\<close>

theorem dispatchworker_idempotent:
  assumes "dispatchworker_Run glob workDir (Bricks bs) dk = (dk', Inr n)" and "glob_stable glob"
    and "distinct (map (out_of workDir \<circ> snd) (worker_entries bs))"
    and "\<forall>(slug, p) \<in> set (worker_entries bs). \<not> fs_noread (dk_fs dk) (out_of workDir p)"
  shows "dispatchworker_Run glob workDir (Bricks bs) dk' = (dk', Inr 0)"
proof -
  have run: "write_workers glob workDir (worker_entries bs) 0 dk = (dk', Inr n)"
    using assms(1) by (simp add: dispatchworker_Run_def)
  have "write_workers glob workDir (worker_entries bs) 0 dk' = (dk', Inr 0)"
    using write_workers_settles [OF run assms(2,3)] write_workers_frame [OF run] assms(4)
    by (intro write_workers_settled) (fastforce simp: list_all_iff)
  then show ?thesis
    by (simp add: dispatchworker_Run_def)
qed

theorem dispatchworker_idempotent_witness:
  "\<exists>dk' n. dispatchworker_Run (\<lambda>_ _. Some []) ''/w'' (Bricks [(''s'', [''path'' \<mapsto> ''b''])]) edited_disk = (dk', Inr n) \<and>
     dispatchworker_Run (\<lambda>_ _. Some []) ''/w'' (Bricks [(''s'', [''path'' \<mapsto> ''b''])]) dk' = (dk', Inr 0)"
proof -
  let ?bs = "[(''s'', [''path'' \<mapsto> ''b''])] :: (string \<times> cue_struct) list"
  obtain dk' n where run: "dispatchworker_Run (\<lambda>_ _. Some []) ''/w'' (Bricks ?bs) edited_disk = (dk', Inr n)"
    using write_workers_completes [of "\<lambda>_ _. Some []" edited_disk "''/w''" "worker_entries ?bs" 0]
    by (auto simp: dispatchworker_Run_def edited_disk_def empty_disk_def empty_fs_def)
  have "glob_stable (\<lambda>_ _. Some [])"
    by (simp add: glob_stable_def)
  moreover have "distinct (map (out_of ''/w'' \<circ> snd) (worker_entries ?bs))"
    by (simp add: worker_entries_def decoded_def IsCueModPath_def)
  ultimately have "dispatchworker_Run (\<lambda>_ _. Some []) ''/w'' (Bricks ?bs) dk' = (dk', Inr 0)"
    using dispatchworker_idempotent [OF run] by (simp add: edited_disk_def empty_disk_def empty_fs_def)
  with run show ?thesis by blast
qed

section \<open>restamp after dispatchworker\<close>

lemma fp_base_brick_file: "fp_base (brick_file rootDir p) \<noteq> DispatchFile"
  by (simp add: brick_file_base DispatchFile_def)

lemma ReadWorkerIO_cong:
  assumes "agree_on (- {f}) gs fs" and "fp_base f \<noteq> DispatchFile"
  shows "ReadWorkerIO gs d = ReadWorkerIO fs d"
proof -
  have "fp_join [d, DispatchFile] \<noteq> f"
    using assms(2) fp_base_join [OF plain_DispatchFile] by auto
  then show ?thesis
    using agree_on_read [OF assms(1)] by (simp add: ReadWorkerIO_def Let_def)
qed

text \<open>A catalog file that registers a brick with no reads and no writes.\<close>

definition empty_entry :: "gofs \<Rightarrow> string \<Rightarrow> bool" where
  "empty_entry fs f \<longleftrightarrow>
     (\<exists>text. file_data fs f = Some text \<and> extractList text ''reads'' = Inr [] \<and> extractList text ''writes'' = Inr [])"

definition idle :: "worker_error + (string list \<times> string list) option \<Rightarrow> bool" where
  "idle io \<longleftrightarrow> io = Inr None \<or> io = Inr (Some ([], []))"

lemma eff_auto_parent: "eff_reads (auto_parent p c) = eff_reads c" "eff_writes (auto_parent p c) = eff_writes c"
  by (simp_all add: auto_parent_def eff_reads_def eff_writes_def Let_def)

lemma eff_item_opts:
  assumes "idle (Inr io)"
  shows "eff_reads (stamp_cfg p (item_opts e io)) = [] \<and> eff_writes (stamp_cfg p (item_opts e io)) = []"
proof (cases io)
  case None
  then show ?thesis
    unfolding stamp_cfg_def eff_auto_parent
    by (simp add: item_opts_def WithParent_def empty_config_def eff_reads_def eff_writes_def)
next
  case (Some rw)
  with assms have "rw = ([], [])" by (simp add: idle_def)
  with Some show ?thesis
    unfolding stamp_cfg_def eff_auto_parent
    by (simp add: item_opts_def WithParent_def WithIO_def empty_config_def eff_reads_def eff_writes_def)
qed

text \<open>The strings of an item that go into the entry as they are.\<close>

definition one_line :: "stamp_item \<Rightarrow> bool" where
  "one_line e \<longleftrightarrow> newline \<notin> set (si_path e) \<and> newline \<notin> set (si_desc e)"

lemma canonical_path_newline:
  assumes "canonical_path t p0 = Inr p" and "newline \<notin> set p0"
  shows "newline \<notin> set p"
proof (cases "p = p0")
  case False
  then obtain out where out: "canonicalGoSegment (last (split_on slash p0)) = (out, True, True)"
    and p: "p = join ''/'' (butlast (split_on slash p0) @ [out])"
    using assms(1) by (auto simp: canonical_path_def Let_def split: if_splits prod.splits)
  have "canonical_runes (runes (last (split_on slash p0))) = Some out"
    using out by (auto simp: canonicalGoSegment_def split: if_splits option.splits)
  then have "list_all ident_char out"
    using canonical_runes_Some by (fastforce simp: list_all_iff)
  then have "newline \<notin> set out"
    by (auto simp: list_all_iff ident_char_def ident_start_def is_digit_def byte_def less_eq_char_def)
  moreover have "newline \<notin> set x" if "x \<in> set (butlast (split_on slash p0))" for x
    using set_split_on [OF in_set_butlastD [OF that]] assms(2) by blast
  ultimately show ?thesis
    using set_join [of "''/''" "butlast (split_on slash p0) @ [out]"] by (auto simp: p)
qed (use assms in simp)

lemma stamp_args_newline:
  assumes "stamp_args t p0 = Inr (iface, p)" and "newline \<notin> set p0"
  shows "newline \<notin> set p \<and> newline \<notin> set iface"
proof -
  have "map_of InterfaceMap t = Some iface" "canonical_path t p0 = Inr p"
    using assms(1) by (cases "canonical_path t p0"; auto simp: stamp_args_def split: if_splits option.splits)+
  then show ?thesis
    using canonical_path_newline assms(2) map_of_SomeD by (fastforce simp: InterfaceMap_def)
qed

lemma StampBrick_idle:
  assumes "StampBrick is_print workDir (si_type e) (si_path e) (si_desc e) (item_opts e io) dk = (dk', Inr a)"
    and "idle (Inr io)" and "one_line e"
  obtains iface p where "stamp_args (si_type e) (si_path e) = Inr (iface, p)"
    and "agree_on (- {brick_file workDir p}) (dk_fs dk') (dk_fs dk)" and "empty_entry (dk_fs dk') (brick_file workDir p)"
proof -
  obtain iface p where args: "stamp_args (si_type e) (si_path e) = Inr (iface, p)"
    using assms(1) by (auto simp: StampBrick_eq split: sum.splits)
  let ?entry = "brick_entry is_print (si_type e) iface p (stamp_desc p (si_desc e)) (stamp_cfg p (item_opts e io))"
  have run: "stamp_entry workDir p (brick_file workDir p) ?entry dk = (dk', Inr a)"
    using assms(1) by (simp add: StampBrick_eq args)
  have nl: "newline \<notin> set p" "newline \<notin> set iface"
    using stamp_args_newline [OF args] assms(3) by (auto simp: one_line_def)
  then have "newline \<notin> set (stamp_desc p (si_desc e))"
    using set_split_on [of "last (split_on slash p)" slash p] assms(3)
    by (auto simp: stamp_desc_def one_line_def)
  then have "extractList ?entry ''reads'' = Inr []" "extractList ?entry ''writes'' = Inr []"
    using brick_entry_lists nl eff_item_opts [OF assms(2)] by simp_all
  then have "empty_entry (dk_fs dk') (brick_file workDir p)"
    using stamp_entry_fs(2) [OF run refl] by (auto simp: empty_entry_def)
  with args stamp_entry_fs(1) [OF run] show thesis
    using that by blast
qed

lemma restamp_all_idle:
  assumes "restamp_all is_print workDir es dk = (dk', None)" and "list_all one_line es"
    and "\<forall>e \<in> set es. idle (ReadWorkerIO (dk_fs dk) (fp_join [workDir, si_path e]))"
  shows "(\<forall>f. empty_entry (dk_fs dk) f \<longrightarrow> empty_entry (dk_fs dk') f) \<and>
         (\<forall>e \<in> set es. \<exists>iface p. stamp_args (si_type e) (si_path e) = Inr (iface, p) \<and>
            empty_entry (dk_fs dk') (brick_file workDir p))"
  using assms
proof (induction es arbitrary: dk)
  case (Cons e es)
  obtain io where io: "ReadWorkerIO (dk_fs dk) (fp_join [workDir, si_path e]) = Inr io" and idle: "idle (Inr io)"
    using Cons.prems(3) by (auto simp: idle_def)
  obtain dk1 a where stamp: "StampBrick is_print workDir (si_type e) (si_path e) (si_desc e) (item_opts e io) dk = (dk1, Inr a)"
    and rest: "restamp_all is_print workDir es dk1 = (dk', None)"
    using Cons.prems(1) io by (auto split: prod.splits sum.splits)
  obtain iface p where args: "stamp_args (si_type e) (si_path e) = Inr (iface, p)"
    and agree: "agree_on (- {brick_file workDir p}) (dk_fs dk1) (dk_fs dk)"
    and mine: "empty_entry (dk_fs dk1) (brick_file workDir p)"
    using StampBrick_idle [OF stamp idle] Cons.prems(2) by auto
  have "ReadWorkerIO (dk_fs dk1) d = ReadWorkerIO (dk_fs dk) d" for d
    by (rule ReadWorkerIO_cong [OF agree fp_base_brick_file])
  then have ih: "(\<forall>f. empty_entry (dk_fs dk1) f \<longrightarrow> empty_entry (dk_fs dk') f) \<and>
      (\<forall>e \<in> set es. \<exists>iface p. stamp_args (si_type e) (si_path e) = Inr (iface, p) \<and>
         empty_entry (dk_fs dk') (brick_file workDir p))"
    using Cons.IH [OF rest] Cons.prems(2,3) by simp
  have "empty_entry (dk_fs dk1) f" if "empty_entry (dk_fs dk) f" for f
    using that mine agree by (cases "f = brick_file workDir p") (auto simp: empty_entry_def agree_on_def file_data_def)
  with ih mine args show ?case by auto
qed simp

lemma restamp_all_paths: "restamp_all is_print workDir es dk = (dk', None) \<Longrightarrow> \<forall>e \<in> set es. si_path e \<noteq> ''''"
proof (induction es arbitrary: dk)
  case (Cons e es)
  then obtain io dk1 a where "StampBrick is_print workDir (si_type e) (si_path e) (si_desc e) (item_opts e io) dk = (dk1, Inr a)"
    "restamp_all is_print workDir es dk1 = (dk', None)"
    by (auto split: prod.splits sum.splits)
  with Cons.IH show ?case
    by (auto simp: StampBrick_def)
qed simp

lemma write_workers_rendered_or_same:
  "write_workers glob workDir es n dk = (dk', Inr m) \<Longrightarrow>
     rendered (dk_fs dk') f \<or> fs_files (dk_fs dk') f = fs_files (dk_fs dk) f"
proof (induction es arbitrary: n dk)
  case (Cons e es)
  obtain slug p where e: "e = (slug, p)" by force
  from Cons.prems [unfolded e] show ?case
  proof (cases rule: write_workers_Cons)
    case skip
    with Cons.IH show ?thesis by blast
  next
    case (step pkg fs k)
    have "rendered fs (out_of workDir p)"
      using step(5) DetectPackage_is_ident [OF step(2)] unfolding rendered_def by blast
    then show ?thesis
      using write_workers_keeps_rendered [OF step(6), of f] Cons.IH [OF step(6)] step(3)
      by (cases "f = out_of workDir p") auto
  qed simp
qed simp

lemma write_workers_idle:
  assumes "write_workers glob workDir es n dk = (dk', Inr m)" and "(slug, p) \<in> set es"
    and "\<forall>q. \<not> fs_noread (dk_fs dk) q"
    and "\<forall>d. fs_files (dk_fs dk) (fp_join [d, DispatchFile]) \<noteq> None \<longrightarrow> dk_dirs dk d"
  shows "idle (ReadWorkerIO (dk_fs dk') (fp_join [workDir, p]))"
proof (cases "rendered (dk_fs dk') (out_of workDir p)")
  case True
  then obtain pkg where "is_ident pkg" "file_data (dk_fs dk') (out_of workDir p) = Some (renderDispatchCUE pkg)"
    by (auto simp: rendered_def)
  moreover have "\<not> fs_noread (dk_fs dk') (out_of workDir p)"
    using write_workers_frame [OF assms(1)] assms(3) by simp
  ultimately show ?thesis
    by (simp add: idle_def ReadWorkerIO_rendered out_of_def)
next
  case False
  then have "\<not> dk_dirs dk (fp_join [workDir, p])"
    using write_workers_rendered [OF assms(1,2)] by blast
  then have "fs_files (dk_fs dk) (out_of workDir p) = None"
    using assms(4) by (auto simp: out_of_def)
  then have "fs_files (dk_fs dk') (out_of workDir p) = None"
    using write_workers_rendered_or_same [OF assms(1), of "out_of workDir p"] False by simp
  moreover have "\<not> fs_noread (dk_fs dk') (out_of workDir p)"
    using write_workers_frame [OF assms(1)] assms(3) by simp
  ultimately show ?thesis
    by (simp add: idle_def ReadWorkerIO_def ReadFile_def out_of_def)
qed

lemma stamp_item_listed:
  assumes "e \<in> set (stamp_items bs)" and "si_path e \<noteq> ''''" and "\<not> IsCueModPath (si_path e)"
  shows "\<exists>slug. (slug, si_path e) \<in> set (worker_entries bs)"
proof -
  obtain k v where "(k, v) \<in> set bs" "si_path e = decoded v ''path''"
    using assms(1) by (auto simp: stamp_items_def)
  then show ?thesis
    using assms(2,3) by (force simp: worker_entries_def)
qed

text \<open>
  \<open>dispatchworker.Run\<close> then \<open>restamp.Run\<close>: After a successful run of the worker generator, a
  successful restamp registers every stamped brick with empty reads and writes: what the catalog
  mirrors is never what an author declared.
\<close>

theorem restamp_after_dispatchworker:
  assumes "dispatchworker_Run glob workDir (Bricks bs) dk = (dk1, Inr n)"
    and "restamp_Run is_print workDir (Bricks bs) dk1 = (dk2, None)"
    and "\<forall>q. \<not> fs_noread (dk_fs dk) q"
    and "\<forall>d. fs_files (dk_fs dk) (fp_join [d, DispatchFile]) \<noteq> None \<longrightarrow> dk_dirs dk d"
    and "list_all (\<lambda>e. one_line e \<and> \<not> IsCueModPath (si_path e)) (stamp_items bs)"
  shows "\<forall>e \<in> set (stamp_items bs). \<exists>iface p.
           stamp_args (si_type e) (si_path e) = Inr (iface, p) \<and> empty_entry (dk_fs dk2) (brick_file workDir p)"
proof -
  have run: "write_workers glob workDir (worker_entries bs) 0 dk = (dk1, Inr n)"
    and re: "restamp_all is_print workDir (stamp_items bs) dk1 = (dk2, None)"
    using assms(1,2) by (simp_all add: dispatchworker_Run_def restamp_Run_def)
  have "idle (ReadWorkerIO (dk_fs dk1) (fp_join [workDir, si_path e]))" if "e \<in> set (stamp_items bs)" for e
    using write_workers_idle [OF run _ assms(3,4)] stamp_item_listed [OF that] restamp_all_paths [OF re] that assms(5)
    by (auto simp: list_all_iff)
  moreover have "list_all one_line (stamp_items bs)"
    using assms(5) by (simp add: list_all_iff)
  ultimately show ?thesis
    using restamp_all_idle [OF re] by blast
qed

lemma stamp_entry_completes:
  assumes "\<And>q. \<not> fs_nowrite (dk_fs dk) q" and "\<And>q. \<not> dk_nodir dk q"
  shows "\<exists>dk' a. stamp_entry rootDir p f entry dk = (dk', Inr a)"
  using assms by (simp add: stamp_entry_def stamp_put_def MkdirAll_def WriteFile_def Let_def split: read_result.split)

theorem restamp_after_dispatchworker_witness:
  "let bs = [(''s'', [''path'' \<mapsto> ''b'', ''desc'' \<mapsto> ''d'', ''stamp_type'' \<mapsto> ''skill''])];
       dk = edited_disk\<lparr>dk_dirs := (\<lambda>_. True)\<rparr>
   in \<exists>dk1 n dk2. dispatchworker_Run (\<lambda>_ _. Some []) ''/w'' (Bricks bs) dk = (dk1, Inr n) \<and>
        restamp_Run (\<lambda>_. False) ''/w'' (Bricks bs) dk1 = (dk2, None) \<and>
        empty_entry (dk_fs dk2) (brick_file ''/w'' ''b'')"
proof -
  let ?bs = "[(''s'', [''path'' \<mapsto> ''b'', ''desc'' \<mapsto> ''d'', ''stamp_type'' \<mapsto> ''skill''])] :: (string \<times> cue_struct) list"
  let ?dk = "edited_disk\<lparr>dk_dirs := (\<lambda>_. True)\<rparr>"
  let ?e = "\<lparr>si_path = ''b'', si_desc = ''d'', si_type = ''skill'', si_parent = ''''\<rparr>"
  have readable: "\<forall>q. \<not> fs_noread (dk_fs ?dk) q" and writable: "\<And>q. \<not> fs_nowrite (dk_fs ?dk) q"
    and dirs: "\<And>q. \<not> dk_nodir ?dk q"
    by (simp_all add: edited_disk_def empty_disk_def empty_fs_def)
  have items: "stamp_items ?bs = [?e]"
    by (simp add: stamp_items_def decoded_def)
  have entries: "(CueFieldKey ''s'', ''b'') \<in> set (worker_entries ?bs)"
    by (simp add: worker_entries_def decoded_def IsCueModPath_def)
  obtain dk1 n where run: "write_workers (\<lambda>_ _. Some []) ''/w'' (worker_entries ?bs) 0 ?dk = (dk1, Inr n)"
    and w1: "\<And>q. \<not> fs_nowrite (dk_fs dk1) q" "\<And>q. \<not> dk_nodir dk1 q"
    using write_workers_completes [of "\<lambda>_ _. Some []" ?dk "''/w''" "worker_entries ?bs" 0] writable dirs by auto
  then have dw: "dispatchworker_Run (\<lambda>_ _. Some []) ''/w'' (Bricks ?bs) ?dk = (dk1, Inr n)"
    by (simp add: dispatchworker_Run_def)
  have args: "stamp_args ''skill'' ''b'' = Inr (''kernel/interface/skill'', ''b'')"
    by (simp add: stamp_args_def InterfaceMap_def canonical_path_def goStampTypes_def get_or_def)
  obtain io where io: "ReadWorkerIO (dk_fs dk1) (fp_join [''/w'', ''b'']) = Inr io"
    using write_workers_idle [OF run entries readable] by (auto simp: idle_def)
  obtain dk2 a where "StampBrick (\<lambda>_. False) ''/w'' ''skill'' ''b'' ''d'' (item_opts ?e io) dk1 = (dk2, Inr a)"
    using stamp_entry_completes [OF w1] by (simp add: StampBrick_eq args) metis
  then have re: "restamp_Run (\<lambda>_. False) ''/w'' (Bricks ?bs) dk1 = (dk2, None)"
    by (simp add: restamp_Run_def items io)
  have "empty_entry (dk_fs dk2) (brick_file ''/w'' ''b'')"
    using restamp_after_dispatchworker [OF dw re readable]
    by (simp add: items one_line_def IsCueModPath_def args)
  with dw re show ?thesis by (auto simp: Let_def)
qed

end
