(* ===== verification/Validate.thy ===== *)
theory Validate
  imports Workers
begin

text \<open>
  \<open>lib/gen/validate/validate.go\<close>: the checks of images, bricks and Bazel coverage. A value of the
  catalog is given by its decoded fields; what the commands print is a parameter, \<open>None\<close> when a
  command fails.
\<close>

section \<open>Images\<close>

record imageRef =
  ir_source :: string
  ir_tag :: string

definition parseImageRef :: "string \<Rightarrow> imageRef" where
  "parseImageRef ref =
     (let base = takeWhile (\<lambda>c. c \<noteq> CHR ''@'') ref;
          hd_part = takeWhile (\<lambda>c. c \<noteq> CHR '':'') base;
          tl_part = drop (length hd_part + 1) base
      in if CHR '':'' \<in> set base \<and> slash \<notin> set tl_part
         then \<lparr>ir_source = hd_part, ir_tag = tl_part\<rparr>
         else \<lparr>ir_source = base, ir_tag = ''latest''\<rparr>)"

text \<open>\<open>imageRe\<close> at the start of a text: the group and what follows the match.\<close>

definition image_at :: "string \<Rightarrow> (string \<times> string) option" where
  "image_at s =
     (if \<not> has_prefix s ''image:'' then None
      else let t = drop 6 s; u = dropWhile re_space t in
           if length u = length t then None
           else case u of
                  [] \<Rightarrow> None
                | q # v \<Rightarrow>
                    (let img = takeWhile (\<lambda>c. c \<noteq> dquote) v in
                     if q = dquote \<and> img \<noteq> [] \<and> length img < length v then Some (img, drop (length img + 1) v) else None))"

lemma image_at_shorter:
  assumes "image_at s = Some (img, rest)"
  shows "length rest < length s"
proof -
  obtain q v where "dropWhile re_space (drop 6 s) = q # v" "rest = drop (length img + 1) v"
    using assms by (auto simp: image_at_def Let_def split: if_splits list.splits)
  moreover have "length (dropWhile re_space (drop 6 s)) \<le> length s"
    using length_dropWhile_le [of re_space "drop 6 s"] by simp
  ultimately show ?thesis by simp
qed

function find_images :: "string \<Rightarrow> string list" where
  "find_images [] = []"
| "find_images (c # s) =
     (case image_at (c # s) of
        Some (img, rest) \<Rightarrow> img # find_images rest
      | None \<Rightarrow> find_images s)"
  by pat_completeness auto
termination
  by (relation "measure length") (auto dest: image_at_shorter)

datatype image_error = MissingDigests "string list" | NotMirrored "string list"

definition mirrorPrefix :: string where
  "mirrorPrefix = ''host.k3d.internal:5000/mirror/''"

definition empty_digests :: "(string \<times> cue_struct) list \<Rightarrow> string list" where
  "empty_digests mirrors =
     map (\<lambda>(key, v). decoded v ''source'' @ '':'' @ decoded v ''tag'')
       (filter (\<lambda>(key, v). decoded v ''digest'' = '''') mirrors)"

definition app_paths :: "(string \<times> cue_struct) list \<Rightarrow> (string \<times> string) list" where
  "app_paths apps =
     map (\<lambda>(key, v). let name = CueFieldKey key in
            (name, if decoded v ''kind'' = ''kustomize'' then ''var/app/'' @ name else decoded v ''path''))
       (filter (\<lambda>(key, v). decoded v ''path'' \<noteq> '''') apps)"

text \<open>The references of one rendered application; a file that cannot be read is passed over.\<close>

definition app_images :: "string \<Rightarrow> gofs \<Rightarrow> string \<times> string \<Rightarrow> (string \<times> imageRef) list" where
  "app_images workDir fs = (\<lambda>(name, p).
     case ReadFile fs (fp_join [workDir, p, ''gen-app.cue'']) of
       ReadData data \<Rightarrow> map (\<lambda>img. (name, parseImageRef (trim_prefix img mirrorPrefix))) (find_images data)
     | _ \<Rightarrow> [])"

definition not_mirrored :: "string list \<Rightarrow> string \<times> imageRef \<Rightarrow> bool" where
  "not_mirrored catalogKeys = (\<lambda>(app, ref). ir_source ref @ '':'' @ ir_tag ref \<notin> set catalogKeys)"

definition CheckImages :: "string \<Rightarrow> gofs \<Rightarrow> (string \<times> cue_struct) list \<Rightarrow> (string \<times> cue_struct) list \<Rightarrow> image_error option" where
  "CheckImages workDir fs mirrors apps =
     (let catalogKeys = map (CueFieldKey \<circ> fst) mirrors;
          missing = filter (not_mirrored catalogKeys) (concat (map (app_images workDir fs) (app_paths apps)))
      in if empty_digests mirrors \<noteq> [] then Some (MissingDigests (sort (empty_digests mirrors)))
         else if missing \<noteq> [] then
           Some (NotMirrored (sort (map (\<lambda>(app, ref). ''  '' @ ir_source ref @ '':'' @ ir_tag ref @ '' (app: '' @ app @ '')'') missing)))
         else None)"

section \<open>Bricks\<close>

text \<open>A brick: its fields, and the elements of \<open>composes\<close>, \<open>None\<close> for one that is no string.\<close>

type_synonym cue_brick = "cue_struct \<times> string option list"

record brick_check =
  ck_dangling :: "string list"
  ck_stale :: "string list"
  ck_owners :: "(string, string) gomap"
  ck_collisions :: "string list"

definition exempt_path :: "string \<Rightarrow> bool" where
  "exempt_path p \<longleftrightarrow> p = '''' \<or> has_prefix p ''_''"

definition claim_slug :: "(nat \<Rightarrow> bool) \<Rightarrow> string \<Rightarrow> string \<Rightarrow> brick_check \<Rightarrow> brick_check" where
  "claim_slug is_print key slug st =
     (if slug = '''' then st
      else case map_of (ck_owners st) slug of
             Some owner \<Rightarrow>
               st\<lparr>ck_collisions := ck_collisions st @
                  [Quote is_print slug @ '' claimed by both '' @ Quote is_print owner @ '' and '' @ Quote is_print key]\<rparr>
           | None \<Rightarrow> st\<lparr>ck_owners := AList.update slug key (ck_owners st)\<rparr>)"

definition stale_composes :: "(nat \<Rightarrow> bool) \<Rightarrow> (string \<Rightarrow> bool) \<Rightarrow> string \<Rightarrow> string \<Rightarrow> string option list \<Rightarrow> string list" where
  "stale_composes is_print is_dir workDir key elems =
     map (\<lambda>p. key @ '' -> '' @ Quote is_print p @ '' (no such directory)'')
       (filter (\<lambda>p. \<not> exempt_path p \<and> \<not> is_dir (fp_join [workDir, p])) (List.map_filter id elems))"

definition check_brick :: "(nat \<Rightarrow> bool) \<Rightarrow> (string \<Rightarrow> bool) \<Rightarrow> string \<Rightarrow> brick_check \<Rightarrow> string \<times> cue_brick \<Rightarrow> brick_check" where
  "check_brick is_print is_dir workDir st = (\<lambda>(key, v, composes).
     let st1 = claim_slug is_print key (decoded v ''slug'') st; p = decoded v ''path'' in
     if decoded v ''kind'' = ''branch''
     then st1\<lparr>ck_stale := ck_stale st1 @ stale_composes is_print is_dir workDir key composes\<rparr>
     else if exempt_path p then st1
     else if is_dir (fp_join [workDir, p]) then st1
     else st1\<lparr>ck_dangling := ck_dangling st1 @ [key @ '' (path='' @ Quote is_print p @ '')'']\<rparr>)"

datatype bricks_error = BricksIter | Dangling "string list" | StaleComposes "string list" | SlugCollisions "string list"

definition CheckBricks :: "(nat \<Rightarrow> bool) \<Rightarrow> (string \<Rightarrow> bool) \<Rightarrow> string \<Rightarrow> (string \<times> cue_brick) list option \<Rightarrow> bricks_error option" where
  "CheckBricks is_print is_dir workDir bricks =
     (case bricks of
        None \<Rightarrow> Some BricksIter
      | Some bs \<Rightarrow>
          (let st = foldl (check_brick is_print is_dir workDir)
                      \<lparr>ck_dangling = [], ck_stale = [], ck_owners = [], ck_collisions = []\<rparr> bs
           in if ck_dangling st \<noteq> [] then Some (Dangling (sort (ck_dangling st)))
              else if ck_stale st \<noteq> [] then Some (StaleComposes (sort (ck_stale st)))
              else if ck_collisions st \<noteq> [] then Some (SlugCollisions (sort (ck_collisions st)))
              else None))"

section \<open>Bazel coverage\<close>

text \<open>The path of one line of a query: after \<open>//\<close>, the package and the target around the first colon.\<close>

definition label_path :: "string \<Rightarrow> string option" where
  "label_path l =
     (let line = trim_space l in
      if line = '''' \<or> \<not> has_prefix line ''//'' then None
      else let rest = trim_prefix line ''//'';
               pkg = takeWhile (\<lambda>c. c \<noteq> CHR '':'') rest;
               target = drop (length pkg + 1) rest
           in if CHR '':'' \<notin> set rest then None
              else if pkg = '''' then Some target
              else Some (pkg @ ''/'' @ target))"

definition labelsToPathSet :: "string \<Rightarrow> string list" where
  "labelsToPathSet output = remdups (List.map_filter label_path (split_on newline output))"

definition setDiff :: "string list \<Rightarrow> string list \<Rightarrow> string list" where
  "setDiff a b = sort (filter (\<lambda>k. k \<notin> set b) a)"

datatype coverage_error =
    SourceQuery | FmtQuery | GitLs | NotInBazel "string list" | LackFmt "string list"
  | MiseLackFmt "string list" | LackTagged "string list"

fun contains :: "string \<Rightarrow> string \<Rightarrow> bool" where
  "contains [] sub \<longleftrightarrow> sub = []"
| "contains (c # s) sub \<longleftrightarrow> has_prefix (c # s) sub \<or> contains s sub"

definition git_files :: "string \<Rightarrow> string list" where
  "git_files out = remdups (filter (\<lambda>f. f \<noteq> '''') (split_on newline out))"

definition coverage :: "string list \<Rightarrow> string list \<Rightarrow> string list \<Rightarrow> coverage_error option" where
  "coverage gitFiles bazelFiles fmtFiles =
     (let taggedFiles = fmtFiles;
          miseTasks = filter (\<lambda>f. contains f ''.mise/tasks/'' \<and> has_suffix f ''.clj'') gitFiles
      in if setDiff gitFiles bazelFiles \<noteq> [] then Some (NotInBazel (setDiff gitFiles bazelFiles))
         else if setDiff gitFiles fmtFiles \<noteq> [] then Some (LackFmt (setDiff gitFiles fmtFiles))
         else if setDiff miseTasks fmtFiles \<noteq> [] then Some (MiseLackFmt (setDiff miseTasks fmtFiles))
         else if setDiff gitFiles taggedFiles \<noteq> [] then Some (LackTagged (setDiff gitFiles taggedFiles))
         else None)"

definition CheckBazelCoverage :: "string option \<Rightarrow> string option \<Rightarrow> string option \<Rightarrow> coverage_error option" where
  "CheckBazelCoverage sourceOut fmtOut gitOut =
     (case sourceOut of
        None \<Rightarrow> Some SourceQuery
      | Some so \<Rightarrow>
          (case fmtOut of
             None \<Rightarrow> Some FmtQuery
           | Some fo \<Rightarrow>
               (case gitOut of
                  None \<Rightarrow> Some GitLs
                | Some go \<Rightarrow> coverage (git_files go) (labelsToPathSet so) (labelsToPathSet fo))))"

section \<open>Properties\<close>

lemma setDiff_Nil_iff: "setDiff a b = [] \<longleftrightarrow> set a \<subseteq> set b"
  by (auto simp: setDiff_def filter_empty_conv)

lemma coverage_None_iff: "coverage g b f = None \<longleftrightarrow> set g \<subseteq> set b \<and> set g \<subseteq> set f"
  by (auto simp: coverage_def Let_def setDiff_Nil_iff)

lemma coverage_dead: "coverage g b f \<noteq> Some (MiseLackFmt ps) \<and> coverage g b f \<noteq> Some (LackTagged ps)"
proof (cases "set g \<subseteq> set f")
  case True
  then have "setDiff (filter P g) f = []" for P
    by (auto simp: setDiff_Nil_iff)
  with True show ?thesis
    by (auto simp: coverage_def Let_def setDiff_Nil_iff)
qed (auto simp: coverage_def Let_def setDiff_Nil_iff)

text \<open>
  \<open>CheckBazelCoverage\<close>: The check passes exactly when the three commands succeed and every
  tracked file is a source of some target and the data of some format test. The checks of mise
  tasks and of tags never report: the tagged files are taken to be the formatted ones.
\<close>

theorem CheckBazelCoverage_exact:
  "(CheckBazelCoverage sourceOut fmtOut gitOut = None \<longleftrightarrow>
      (\<exists>so fo go. sourceOut = Some so \<and> fmtOut = Some fo \<and> gitOut = Some go \<and>
         (\<forall>p \<in> set (git_files go). p \<in> set (labelsToPathSet so) \<and> p \<in> set (labelsToPathSet fo)))) \<and>
   (\<forall>ps. CheckBazelCoverage sourceOut fmtOut gitOut \<noteq> Some (MiseLackFmt ps) \<and>
         CheckBazelCoverage sourceOut fmtOut gitOut \<noteq> Some (LackTagged ps))"
proof (cases sourceOut; cases fmtOut; cases gitOut)
  fix so fo go
  assume "sourceOut = Some so" "fmtOut = Some fo" "gitOut = Some go"
  then show ?thesis
    using coverage_dead by (auto simp: CheckBazelCoverage_def coverage_None_iff)
qed (simp_all add: CheckBazelCoverage_def)

theorem CheckBazelCoverage_exact_witness:
  "CheckBazelCoverage (Some ''//a:b'') (Some '''') (Some ''a/b'') \<noteq> None"
proof -
  have "git_files ''a/b'' = [''a/b'']" "labelsToPathSet '''' = []"
    by code_simp+
  then show ?thesis
    using CheckBazelCoverage_exact [of "Some ''//a:b''" "Some ''''" "Some ''a/b''"] by simp
qed

lemma claim_slug_keeps [simp]:
  "ck_dangling (claim_slug ip key slug st) = ck_dangling st" "ck_stale (claim_slug ip key slug st) = ck_stale st"
  by (simp_all add: claim_slug_def split: option.split)

definition bad_path :: "(string \<Rightarrow> bool) \<Rightarrow> string \<Rightarrow> string \<Rightarrow> bool" where
  "bad_path is_dir workDir p \<longleftrightarrow> \<not> exempt_path p \<and> \<not> is_dir (fp_join [workDir, p])"

lemma check_brick_lists:
  "ck_dangling (check_brick ip is_dir w st (key, v, composes)) = [] \<longleftrightarrow>
     ck_dangling st = [] \<and> (decoded v ''kind'' \<noteq> ''branch'' \<longrightarrow> \<not> bad_path is_dir w (decoded v ''path''))"
  "ck_stale (check_brick ip is_dir w st (key, v, composes)) = [] \<longleftrightarrow>
     ck_stale st = [] \<and> (decoded v ''kind'' = ''branch'' \<longrightarrow> (\<forall>p. Some p \<in> set composes \<longrightarrow> \<not> bad_path is_dir w p))"
  by (auto simp: check_brick_def Let_def bad_path_def stale_composes_def map_filter_def filter_empty_conv)

lemma check_bricks_lists:
  "ck_dangling (foldl (check_brick ip is_dir w) st bs) = [] \<longleftrightarrow>
     ck_dangling st = [] \<and> (\<forall>(key, v, composes) \<in> set bs. decoded v ''kind'' \<noteq> ''branch'' \<longrightarrow> \<not> bad_path is_dir w (decoded v ''path''))"
  "ck_stale (foldl (check_brick ip is_dir w) st bs) = [] \<longleftrightarrow>
     ck_stale st = [] \<and> (\<forall>(key, v, composes) \<in> set bs. decoded v ''kind'' = ''branch'' \<longrightarrow>
       (\<forall>p. Some p \<in> set composes \<longrightarrow> \<not> bad_path is_dir w p))"
  by (induction bs arbitrary: st) (auto simp: check_brick_lists split: prod.splits)

definition slugs_of :: "(string \<times> cue_brick) list \<Rightarrow> string list" where
  "slugs_of bs = filter (\<lambda>s. s \<noteq> '''') (map (\<lambda>(key, v, composes). decoded v ''slug'') bs)"

lemma check_brick_slug:
  "ck_owners (check_brick ip is_dir w st (key, v, composes)) = ck_owners (claim_slug ip key (decoded v ''slug'') st)"
  "ck_collisions (check_brick ip is_dir w st (key, v, composes)) = ck_collisions (claim_slug ip key (decoded v ''slug'') st)"
  by (auto simp: check_brick_def Let_def)

lemma check_bricks_slugs:
  "ck_collisions (foldl (check_brick ip is_dir w) st bs) = [] \<longleftrightarrow>
     ck_collisions st = [] \<and> distinct (slugs_of bs) \<and> fst ` set (ck_owners st) \<inter> set (slugs_of bs) = {}"
proof (induction bs arbitrary: st)
  case (Cons b bs)
  obtain key v composes where b: "b = (key, v, composes)" by (cases b) auto
  let ?s = "decoded v ''slug''"
  let ?st = "check_brick ip is_dir w st b"
  consider "?s = ''''" | "?s \<noteq> ''''" "?s \<in> fst ` set (ck_owners st)" | "?s \<noteq> ''''" "?s \<notin> fst ` set (ck_owners st)"
    by blast
  then show ?case
  proof cases
    case 1
    then show ?thesis
      using Cons [of ?st] by (simp add: b check_brick_slug claim_slug_def slugs_of_def)
  next
    case 2
    then obtain owner where "map_of (ck_owners st) ?s = Some owner"
      using map_of_eq_None_iff [of "ck_owners st" ?s] by (cases "map_of (ck_owners st) ?s") auto
    then have "ck_collisions ?st \<noteq> []"
      using 2 by (simp add: b check_brick_slug claim_slug_def)
    with 2 show ?thesis
      using Cons [of ?st] by (auto simp: b slugs_of_def)
  next
    case 3
    then have "map_of (ck_owners st) ?s = None"
      by (simp add: map_of_eq_None_iff)
    then show ?thesis
      using Cons [of ?st] 3 by (auto simp: b check_brick_slug claim_slug_def slugs_of_def keys_update)
  qed
qed (simp add: slugs_of_def)

text \<open>
  C34 (\<open>CheckBricks\<close>). The check passes exactly when every brick that is not a branch has its
  directory, every composed path of a branch is a directory (empty paths and paths that begin
  with an underscore aside), and no two bricks declare the same slug.
\<close>

theorem CheckBricks_exact:
  "CheckBricks is_print is_dir workDir (Some bs) = None \<longleftrightarrow>
     (\<forall>(key, v, composes) \<in> set bs.
        (decoded v ''kind'' \<noteq> ''branch'' \<longrightarrow> \<not> bad_path is_dir workDir (decoded v ''path'')) \<and>
        (decoded v ''kind'' = ''branch'' \<longrightarrow> (\<forall>p. Some p \<in> set composes \<longrightarrow> \<not> bad_path is_dir workDir p))) \<and>
     distinct (slugs_of bs)"
  by (simp add: CheckBricks_def Let_def check_bricks_lists check_bricks_slugs case_prod_beta ball_conj_distrib) blast

theorem CheckBricks_exact_witness:
  "CheckBricks (\<lambda>_. False) (\<lambda>d. d = ''/w/a'') ''/w''
     (Some [(''x'', [''path'' \<mapsto> ''a'', ''slug'' \<mapsto> ''s''], []), (''y'', [''kind'' \<mapsto> ''branch'', ''slug'' \<mapsto> ''t''], [Some ''a''])]) = None"
proof -
  have "fp_join [''/w'', ''a''] = ''/w/a''" by code_simp
  then show ?thesis
    unfolding CheckBricks_exact by (simp add: decoded_def bad_path_def slugs_of_def)
qed

text \<open>A reference with a tag and perhaps a digest is taken apart; a registry with a port is not.\<close>

lemma parseImageRef_tagged:
  assumes "CHR '':'' \<notin> set source" and "CHR ''@'' \<notin> set source" and "CHR ''@'' \<notin> set t" and "slash \<notin> set t"
    and "digest = [] \<or> hd digest = CHR ''@''"
  shows "parseImageRef (source @ '':'' @ t @ digest) = \<lparr>ir_source = source, ir_tag = t\<rparr>"
proof -
  have "takeWhile (\<lambda>c. c \<noteq> CHR ''@'') digest = []"
    using assms(5) by (cases digest) auto
  moreover have "takeWhile (\<lambda>c. c \<noteq> CHR ''@'') source = source" "takeWhile (\<lambda>c. c \<noteq> CHR ''@'') t = t"
    using assms(2,3) by (auto simp: takeWhile_eq_all_conv)
  moreover have "takeWhile (\<lambda>c. c \<noteq> CHR ''@'') (source @ '':'' @ t @ digest) = source @ '':'' @ t"
    using assms(2,3) calculation(1) by (simp add: takeWhile_append)
  moreover have "takeWhile (\<lambda>c. c \<noteq> CHR '':'') (source @ '':'' @ t) = source"
    using assms(1) by (simp add: takeWhile_append)
  ultimately show ?thesis
    using assms(4) by (simp add: parseImageRef_def Let_def)
qed

lemma parseImageRef_port:
  "parseImageRef ''localhost:5000/app:1.2'' = \<lparr>ir_source = ''localhost:5000/app:1.2'', ir_tag = ''latest''\<rparr>"
  by code_simp

text \<open>
  \<open>CheckImages\<close>: The check passes exactly when every mirrored image has a digest and every
  image that a readable rendered application names, taken apart, is a key of the catalog.
\<close>

theorem CheckImages_exact:
  "CheckImages workDir fs mirrors apps = None \<longleftrightarrow>
     (\<forall>(key, v) \<in> set mirrors. decoded v ''digest'' \<noteq> '''') \<and>
     (\<forall>(name, p) \<in> set (app_paths apps). \<forall>data. ReadFile fs (fp_join [workDir, p, ''gen-app.cue'']) = ReadData data \<longrightarrow>
        (\<forall>img \<in> set (find_images data).
           let ref = parseImageRef (trim_prefix img mirrorPrefix)
           in ir_source ref @ '':'' @ ir_tag ref \<in> set (map (CueFieldKey \<circ> fst) mirrors)))"
proof -
  let ?keys = "map (CueFieldKey \<circ> fst) mirrors"
  have digests: "empty_digests mirrors = [] \<longleftrightarrow> (\<forall>(key, v) \<in> set mirrors. decoded v ''digest'' \<noteq> '''')"
    by (auto simp: empty_digests_def filter_empty_conv)
  have app: "(\<forall>r \<in> set (app_images workDir fs (name, p)). \<not> not_mirrored ?keys r) \<longleftrightarrow>
      (\<forall>data. ReadFile fs (fp_join [workDir, p, ''gen-app.cue'']) = ReadData data \<longrightarrow>
        (\<forall>img \<in> set (find_images data).
           let ref = parseImageRef (trim_prefix img mirrorPrefix)
           in ir_source ref @ '':'' @ ir_tag ref \<in> set ?keys))" for name p
    by (cases "ReadFile fs (fp_join [workDir, p, ''gen-app.cue''])") (auto simp: app_images_def not_mirrored_def Let_def)
  have "filter (not_mirrored ?keys) (concat (map (app_images workDir fs) (app_paths apps))) = [] \<longleftrightarrow>
      (\<forall>np \<in> set (app_paths apps). \<forall>r \<in> set (app_images workDir fs np). \<not> not_mirrored ?keys r)"
    by (simp add: filter_empty_conv)
  also have "\<dots> \<longleftrightarrow> (\<forall>(name, p) \<in> set (app_paths apps). \<forall>data. ReadFile fs (fp_join [workDir, p, ''gen-app.cue'']) = ReadData data \<longrightarrow>
        (\<forall>img \<in> set (find_images data).
           let ref = parseImageRef (trim_prefix img mirrorPrefix)
           in ir_source ref @ '':'' @ ir_tag ref \<in> set ?keys))"
    by (rule ball_cong [OF refl], clarsimp simp only: prod.case app split_paired_all)
  finally show ?thesis
    using digests unfolding CheckImages_def Let_def by auto
qed

theorem CheckImages_exact_witness:
  "CheckImages ''/w'' empty_fs [(''a:1'', [''digest'' \<mapsto> ''d''])] [(''app'', [''path'' \<mapsto> ''p''])] = None \<and>
   CheckImages ''/w'' empty_fs [(''a:1'', [''source'' \<mapsto> ''a''])] [] \<noteq> None"
  unfolding CheckImages_exact by (simp add: decoded_def ReadFile_def empty_fs_def app_paths_def)

end
