(* ===== verification/CrossTenant.thy ===== *)
theory CrossTenant
  imports GoFmt
begin

text \<open>
  \<open>lib/spec/crosstenantlit/crosstenantlit.go\<close>: no source file of a leaf tenant may hold, in
  quotes, the name or a profile of another leaf tenant. The compiled expression is the list of
  its alternatives, tried in their order at each position from the left.
\<close>

section \<open>The model\<close>

record Tenant =
  tn_Name :: string
  tn_Path :: string
  tn_IsLeaf :: bool
  tn_Profiles :: "string list"

record SourceFile =
  sf_Path :: string
  sf_Tenant :: string
  sf_Content :: string

record Violation =
  vi_Path :: string
  vi_Line :: nat
  vi_Literal :: string
  vi_OwnerTenant :: string
  vi_OwnerKind :: string

text \<open>\<open>owner\<close>: the tenant and the kind, \<open>name\<close> or \<open>profile\<close>.\<close>

type_synonym lit_owner = "string \<times> string"

type_synonym attribution = "(string, lit_owner) gomap"

definition comment_line :: "string \<Rightarrow> bool" where
  "comment_line line \<longleftrightarrow>
     (let t = dropWhile (\<lambda>c. c = CHR '' '' \<or> c = CHR 0x09) line in
      has_prefix t ''//'' \<or> has_prefix t ''#'' \<or> has_prefix t '';;'')"

text \<open>The profiles of another leaf: neither the tenant's own nor already attributed.\<close>

definition attribute_profile :: "string list \<Rightarrow> string \<Rightarrow> attribution \<Rightarrow> string \<Rightarrow> attribution" where
  "attribute_profile own name attrib p =
     (if p \<in> set own \<or> map_of attrib p \<noteq> None then attrib else AList.update p (name, ''profile'') attrib)"

definition attribute_leaf :: "Tenant \<Rightarrow> attribution \<Rightarrow> Tenant \<Rightarrow> attribution" where
  "attribute_leaf T attrib Tp =
     (if tn_Name Tp = tn_Name T then attrib
      else foldl (attribute_profile (tn_Profiles T) (tn_Name Tp))
             (AList.update (tn_Name Tp) (tn_Name Tp, ''name'')
               (AList.update (''tenant/'' @ tn_Name Tp) (tn_Name Tp, ''name'') attrib))
             (tn_Profiles Tp))"

definition attribution_of :: "Tenant list \<Rightarrow> Tenant \<Rightarrow> attribution" where
  "attribution_of leafs T = foldl (attribute_leaf T) [] leafs"

text \<open>The alternatives of the expression: longer ones first, then in order.\<close>

definition alternatives :: "attribution \<Rightarrow> string list" where
  "alternatives attrib = sort_key (\<lambda>k. (- int (length k), k)) (keys attrib)"

definition quote_chars :: "char list" where
  "quote_chars = [CHR 0x22, CHR 0x27, CHR 0x60]"

text \<open>A match at the start of a text: the literal and what follows the closing quote.\<close>

definition match_at :: "string list \<Rightarrow> string \<Rightarrow> (string \<times> string) option" where
  "match_at alts s =
     (case s of
        [] \<Rightarrow> None
      | q # t \<Rightarrow>
          if q \<in> set quote_chars
          then map_option (\<lambda>k. (k, drop (length k + 1) t)) (find (\<lambda>k. has_prefix t (k @ [q])) alts)
          else None)"

function find_all :: "string list \<Rightarrow> string \<Rightarrow> string list" where
  "find_all alts [] = []"
| "find_all alts (c # s) =
     (case match_at alts (c # s) of
        Some (k, rest) \<Rightarrow> k # find_all alts rest
      | None \<Rightarrow> find_all alts s)"
  by pat_completeness auto
termination
  by (relation "measure (length \<circ> snd)") (auto simp: match_at_def split: if_splits)

definition scan_line :: "attribution \<Rightarrow> string \<Rightarrow> nat \<times> string \<Rightarrow> Violation list" where
  "scan_line attrib p = (\<lambda>(i, line).
     if comment_line line then []
     else map (\<lambda>lit. let ow = get_or ('''', '''') attrib lit in
                \<lparr>vi_Path = p, vi_Line = i + 1, vi_Literal = lit, vi_OwnerTenant = fst ow, vi_OwnerKind = snd ow\<rparr>)
            (find_all (alternatives attrib) line))"

definition leafs_of :: "Tenant list \<Rightarrow> Tenant list" where
  "leafs_of tenants = sort_key tn_Name (filter tn_IsLeaf tenants)"

definition leaf_by_name :: "Tenant list \<Rightarrow> (string, Tenant) gomap" where
  "leaf_by_name tenants = foldl (\<lambda>m t. AList.update (tn_Name t) t m) [] (filter tn_IsLeaf tenants)"

definition forbid_by_tenant :: "Tenant list \<Rightarrow> (string, attribution) gomap" where
  "forbid_by_tenant leafs = foldl (\<lambda>m T. AList.update (tn_Name T) (attribution_of leafs T) m) [] leafs"

definition scan_file :: "Tenant list \<Rightarrow> (string \<Rightarrow> bool) \<Rightarrow> SourceFile \<Rightarrow> Violation list" where
  "scan_file tenants genWrites f =
     (case map_of (leaf_by_name tenants) (sf_Tenant f) of
        None \<Rightarrow> []
      | Some T \<Rightarrow>
          if sf_Path f = ''tenant/'' @ tn_Name T @ ''/catalog/auth.cue'' then []
          else if genWrites (sf_Path f) then []
          else let attrib = get_or [] (forbid_by_tenant (leafs_of tenants)) (tn_Name T) in
               if attrib = [] then []
               else concat (map (scan_line attrib (sf_Path f)) (enumerate 0 (split_on newline (sf_Content f)))))"

definition Check :: "Tenant list \<Rightarrow> SourceFile list \<Rightarrow> (string \<Rightarrow> bool) \<Rightarrow> Violation list" where
  "Check tenants files genWrites =
     sort_key (\<lambda>v. (vi_Path v, vi_Line v, vi_Literal v)) (concat (map (scan_file tenants genWrites) files))"

definition LeafNames :: "Tenant list \<Rightarrow> string list" where
  "LeafNames tenants = sort (map tn_Name (filter tn_IsLeaf tenants))"

section \<open>Finding the literals of a line\<close>

text \<open>A literal in quotes somewhere in a line.\<close>

definition quoted_in :: "string \<Rightarrow> string \<Rightarrow> bool" where
  "quoted_in k line \<longleftrightarrow> (\<exists>a q b. line = a @ q # k @ q # b \<and> q \<in> set quote_chars)"

lemma quoted_in_Cons:
  "quoted_in k (c # s) \<longleftrightarrow> c \<in> set quote_chars \<and> has_prefix s (k @ [c]) \<or> quoted_in k s"
proof
  assume "quoted_in k (c # s)"
  then obtain a q b where "c # s = a @ q # k @ q # b" "q \<in> set quote_chars"
    by (auto simp: quoted_in_def)
  then show "c \<in> set quote_chars \<and> has_prefix s (k @ [c]) \<or> quoted_in k s"
    by (cases a) (auto simp: has_prefix_iff quoted_in_def)
next
  assume "c \<in> set quote_chars \<and> has_prefix s (k @ [c]) \<or> quoted_in k s"
  then show "quoted_in k (c # s)"
  proof
    assume "quoted_in k s"
    then obtain a q b where "s = a @ q # k @ q # b" "q \<in> set quote_chars"
      by (auto simp: quoted_in_def)
    then show ?thesis
      unfolding quoted_in_def by (intro exI [of _ "c # a"] exI [of _ q] exI [of _ b]) simp
  qed (auto simp: has_prefix_iff quoted_in_def intro!: exI [of _ "[]"])
qed

lemma quoted_in_append: "quoted_in k s \<Longrightarrow> quoted_in k (a @ s)"
  by (induction a) (simp_all add: quoted_in_Cons)

lemma match_at_None: "match_at alts (c # s) = None \<longleftrightarrow> \<not> (c \<in> set quote_chars \<and> (\<exists>k \<in> set alts. has_prefix s (k @ [c])))"
  by (auto simp: match_at_def find_None_iff)

lemma match_at_Some:
  assumes "match_at alts (c # s) = Some (k, rest)"
  shows "k \<in> set alts \<and> quoted_in k (c # s) \<and> (\<exists>a. c # s = a @ rest)"
proof -
  have k: "c \<in> set quote_chars" "find (\<lambda>k. has_prefix s (k @ [c])) alts = Some k" "rest = drop (length k + 1) s"
    using assms by (auto simp: match_at_def split: if_splits)
  then have "k \<in> set alts \<and> has_prefix s (k @ [c])"
    using find_Some_in by metis
  moreover have "c # s = (c # take (length k + 1) s) @ rest"
    by (simp add: k(3))
  ultimately show ?thesis
    using k(1) quoted_in_Cons by blast
qed

lemma find_all_Nil_iff: "find_all alts s = [] \<longleftrightarrow> (\<forall>k \<in> set alts. \<not> quoted_in k s)"
proof (induction s)
  case Nil
  then show ?case by (simp add: quoted_in_def)
next
  case (Cons c s)
  show ?case
  proof (cases "match_at alts (c # s)")
    case None
    then show ?thesis
      using Cons match_at_None [of alts c s] by (auto simp: quoted_in_Cons)
  next
    case (Some kr)
    then show ?thesis
      using match_at_Some [of alts c s "fst kr" "snd kr"] by (auto split: prod.splits)
  qed
qed

lemma find_all_sound: "k \<in> set (find_all alts s) \<Longrightarrow> k \<in> set alts \<and> quoted_in k s"
proof (induction alts s rule: find_all.induct)
  case (2 alts c s)
  show ?case
  proof (cases "match_at alts (c # s)")
    case None
    with 2 show ?thesis by (auto simp: quoted_in_Cons)
  next
    case (Some kr)
    obtain k' rest where kr: "kr = (k', rest)" by force
    note m = match_at_Some [OF Some [unfolded kr]]
    then obtain a where a: "c # s = a @ rest" by blast
    show ?thesis
    proof (cases "k = k'")
      case False
      then have "k \<in> set (find_all alts rest)"
        using 2(3) Some kr by simp
      with 2(2) [OF Some kr [symmetric]] show ?thesis
        unfolding a by (blast intro: quoted_in_append)
    qed (use m in simp)
  qed
qed simp

section \<open>The forbidden literals\<close>

text \<open>What the comment of the package forbids to tenant \<open>T\<close>, with the owner it is charged to.\<close>

definition owned :: "Tenant \<Rightarrow> Tenant \<Rightarrow> string \<Rightarrow> string \<Rightarrow> bool" where
  "owned T Tp k kind \<longleftrightarrow> tn_Name Tp \<noteq> tn_Name T \<and>
     (kind = ''name'' \<and> (k = tn_Name Tp \<or> k = ''tenant/'' @ tn_Name Tp) \<or>
      kind = ''profile'' \<and> k \<in> set (tn_Profiles Tp) \<and> k \<notin> set (tn_Profiles T))"

definition forbidden :: "Tenant list \<Rightarrow> Tenant \<Rightarrow> string \<Rightarrow> bool" where
  "forbidden leafs T k \<longleftrightarrow> (\<exists>Tp \<in> set leafs. \<exists>kind. owned T Tp k kind)"

lemma attribute_profiles_keys:
  "fst ` set (foldl (attribute_profile own n) a ps) = fst ` set a \<union> (set ps - set own)"
proof (induction ps arbitrary: a)
  case (Cons p ps)
  have "fst ` set (attribute_profile own n a p) = fst ` set a \<union> ({p} - set own)"
    by (auto simp: attribute_profile_def map_of_eq_None_iff keys_update)
  with Cons show ?case by auto
qed simp

lemma attribute_profiles_owned:
  assumes "\<forall>(k, n, kind) \<in> set a. \<exists>Tp \<in> L. tn_Name Tp = n \<and> owned T Tp k kind"
    and "Tp \<in> L" and "tn_Name Tp \<noteq> tn_Name T" and "set ps \<subseteq> set (tn_Profiles Tp)"
  shows "\<forall>(k, n, kind) \<in> set (foldl (attribute_profile (tn_Profiles T) (tn_Name Tp)) a ps).
           \<exists>Tp \<in> L. tn_Name Tp = n \<and> owned T Tp k kind"
  using assms(1,4)
proof (induction ps arbitrary: a)
  case (Cons p ps)
  have "\<forall>(k, n, kind) \<in> set (attribute_profile (tn_Profiles T) (tn_Name Tp) a p). \<exists>Tp \<in> L. tn_Name Tp = n \<and> owned T Tp k kind"
  proof (cases "p \<in> set (tn_Profiles T) \<or> map_of a p \<noteq> None")
    case True
    then have "attribute_profile (tn_Profiles T) (tn_Name Tp) a p = a"
      by (auto simp: attribute_profile_def)
    with Cons.prems(1) show ?thesis by simp
  next
    case False
    then have "owned T Tp p ''profile''"
      using assms(3) Cons.prems(2) by (simp add: owned_def)
    moreover have "set (attribute_profile (tn_Profiles T) (tn_Name Tp) a p) \<subseteq> insert (p, tn_Name Tp, ''profile'') (set a)"
      using False set_update_subset by (fastforce simp: attribute_profile_def)
    ultimately show ?thesis
      using Cons.prems(1) assms(2) by blast
  qed
  with Cons.IH Cons.prems(2) show ?case by simp
qed simp

lemma attribute_leaf_keys:
  "fst ` set (attribute_leaf T a Tp) = fst ` set a \<union> {k. \<exists>kind. owned T Tp k kind}"
  by (auto simp: attribute_leaf_def attribute_profiles_keys owned_def keys_update)

lemma attribution_keys: "fst ` set (attribution_of leafs T) = {k. forbidden leafs T k}"
proof -
  have "fst ` set (foldl (attribute_leaf T) a leafs) = fst ` set a \<union> {k. forbidden leafs T k}" for a
    by (induction leafs arbitrary: a) (auto simp: attribute_leaf_keys forbidden_def)
  then show ?thesis by (simp add: attribution_of_def)
qed

lemma attribution_owned:
  "(k, n, kind) \<in> set (attribution_of leafs T) \<Longrightarrow> \<exists>Tp \<in> set leafs. tn_Name Tp = n \<and> owned T Tp k kind"
proof -
  let ?ok = "\<lambda>a. \<forall>(k, n, kind) \<in> set a. \<exists>Tp \<in> set leafs. tn_Name Tp = n \<and> owned T Tp k kind"
  have step: "?ok (attribute_leaf T a Tp)" if "?ok a" and "Tp \<in> set leafs" for a Tp
  proof (cases "tn_Name Tp = tn_Name T")
    case True
    with that(1) show ?thesis by (simp add: attribute_leaf_def)
  next
    case False
    let ?a = "AList.update (tn_Name Tp) (tn_Name Tp, ''name'') (AList.update (''tenant/'' @ tn_Name Tp) (tn_Name Tp, ''name'') a)"
    have "set ?a \<subseteq> insert (tn_Name Tp, tn_Name Tp, ''name'') (insert (''tenant/'' @ tn_Name Tp, tn_Name Tp, ''name'') (set a))"
      by (rule subset_trans [OF set_update_subset insert_mono [OF set_update_subset]])
    moreover have "owned T Tp (tn_Name Tp) ''name''" "owned T Tp (''tenant/'' @ tn_Name Tp) ''name''"
      using False by (simp_all add: owned_def)
    ultimately have "?ok ?a"
      using that by blast
    from attribute_profiles_owned [OF this that(2) False subset_refl] show ?thesis
      using False by (simp add: attribute_leaf_def)
  qed
  have "?ok (foldl (attribute_leaf T) a ls)" if "?ok a" and "set ls \<subseteq> set leafs" for a ls
    using that
  proof (induction ls arbitrary: a)
    case (Cons l ls)
    then have "?ok (attribute_leaf T a l)" by (intro step) auto
    with Cons show ?case by simp
  qed simp
  from this [of "[]" leafs] show "(k, n, kind) \<in> set (attribution_of leafs T) \<Longrightarrow> \<exists>Tp \<in> set leafs. tn_Name Tp = n \<and> owned T Tp k kind"
    by (auto simp: attribution_of_def)
qed

section \<open>The check\<close>

text \<open>The lines of the file that the check reads for tenant \<open>T\<close>.\<close>

definition scanned :: "Tenant list \<Rightarrow> (string \<Rightarrow> bool) \<Rightarrow> SourceFile \<Rightarrow> Tenant \<Rightarrow> bool" where
  "scanned tenants genWrites f T \<longleftrightarrow>
     T \<in> set tenants \<and> tn_IsLeaf T \<and> tn_Name T = sf_Tenant f \<and>
     sf_Path f \<noteq> ''tenant/'' @ tn_Name T @ ''/catalog/auth.cue'' \<and> \<not> genWrites (sf_Path f)"

lemma map_of_fold_find:
  assumes "distinct (map key xs)"
  shows "map_of (foldl (\<lambda>m x. AList.update (key x) (val x) m) [] xs) k = map_option val (find (\<lambda>x. key x = k) xs)"
proof -
  have "map_of (foldl (\<lambda>m x. AList.update (key x) (val x) m) a xs) k =
      (case find (\<lambda>x. key x = k) xs of Some x \<Rightarrow> Some (val x) | None \<Rightarrow> map_of a k)" for a
    using assms
  proof (induction xs arbitrary: a)
    case (Cons x xs)
    have "find (\<lambda>y. key y = k) xs = None" if "key x = k"
      using that Cons.prems by (simp add: find_None_iff) (metis image_eqI)
    with Cons show ?case
      by (auto simp: update_conv' split: option.split)
  qed simp
  from this [of "[]"] show ?thesis
    by (simp split: option.split)
qed

lemma find_distinct:
  "distinct (map key xs) \<Longrightarrow> find (\<lambda>x. key x = k) xs = Some x \<longleftrightarrow> x \<in> set xs \<and> key x = k"
proof (induction xs)
  case (Cons y ys)
  then show ?case by (auto simp: image_iff)
qed simp

lemma leaf_by_name_Some:
  assumes "distinct (map tn_Name (filter tn_IsLeaf tenants))"
  shows "map_of (leaf_by_name tenants) n = Some T \<longleftrightarrow> T \<in> set tenants \<and> tn_IsLeaf T \<and> tn_Name T = n"
  unfolding leaf_by_name_def using map_of_fold_find [OF assms, of id n] find_distinct [OF assms, of n T]
  by (auto simp: option.map_id)

lemma leafs_of_facts:
  assumes "distinct (map tn_Name (filter tn_IsLeaf tenants))"
  shows "set (leafs_of tenants) = {T \<in> set tenants. tn_IsLeaf T}" and "distinct (map tn_Name (leafs_of tenants))"
  using assms by (auto simp: leafs_of_def distinct_map_sort_key)

lemma forbid_of_leaf:
  assumes "distinct (map tn_Name (filter tn_IsLeaf tenants))" and "T \<in> set tenants" and "tn_IsLeaf T"
  shows "get_or [] (forbid_by_tenant (leafs_of tenants)) (tn_Name T) = attribution_of (leafs_of tenants) T"
proof -
  have "find (\<lambda>x. tn_Name x = tn_Name T) (leafs_of tenants) = Some T"
    using find_distinct [OF leafs_of_facts(2) [OF assms(1)]] leafs_of_facts(1) [OF assms(1)] assms(2,3) by simp
  then show ?thesis
    using map_of_fold_find [OF leafs_of_facts(2) [OF assms(1)], of "attribution_of (leafs_of tenants)" "tn_Name T"]
    by (simp add: get_or_def forbid_by_tenant_def)
qed

lemma set_alternatives: "set (alternatives a) = fst ` set a"
  by (simp add: alternatives_def)

lemma scan_file_set:
  assumes "distinct (map tn_Name (filter tn_IsLeaf tenants))"
  shows "set (scan_file tenants genWrites f) =
    {v. \<exists>T i. scanned tenants genWrites f T \<and> i < length (split_on newline (sf_Content f)) \<and>
          v \<in> set (scan_line (attribution_of (leafs_of tenants) T) (sf_Path f) (i, split_on newline (sf_Content f) ! i))}"
    (is "?L = ?R")
proof (cases "\<exists>T. scanned tenants genWrites f T")
  case False
  have "scan_file tenants genWrites f = []"
  proof (cases "map_of (leaf_by_name tenants) (sf_Tenant f)")
    case (Some T)
    then have "T \<in> set tenants" "tn_IsLeaf T" "tn_Name T = sf_Tenant f"
      using leaf_by_name_Some [OF assms] by simp_all
    then have "sf_Path f = ''tenant/'' @ tn_Name T @ ''/catalog/auth.cue'' \<or> genWrites (sf_Path f)"
      using False unfolding scanned_def by blast
    with Some show ?thesis unfolding scan_file_def by auto
  qed (simp add: scan_file_def)
  with False show ?thesis by simp
next
  case True
  then obtain T where T: "scanned tenants genWrites f T" by blast
  then have leaf: "map_of (leaf_by_name tenants) (sf_Tenant f) = Some T"
    using leaf_by_name_Some [OF assms] by (simp add: scanned_def)
  have only: "T' = T" if "scanned tenants genWrites f T'" for T'
    using that leaf leaf_by_name_Some [OF assms, of "sf_Tenant f" T'] by (simp add: scanned_def)
  let ?a = "attribution_of (leafs_of tenants) T"
  let ?ls = "split_on newline (sf_Content f)"
  have none: "scan_line [] (sf_Path f) x = []" for x
  proof -
    have "find_all (alternatives []) s = []" for s
      by (simp add: find_all_Nil_iff set_alternatives)
    then show ?thesis by (simp add: scan_line_def split: prod.split)
  qed
  have "?L = set (concat (map (scan_line ?a (sf_Path f)) (enumerate 0 ?ls)))"
    using T leaf forbid_of_leaf [OF assms, of T] none
    by (auto simp: scan_file_def scanned_def Let_def)
  also have "\<dots> = {v. \<exists>i < length ?ls. v \<in> set (scan_line ?a (sf_Path f) (i, ?ls ! i))}"
    by (auto simp: in_set_enumerate_eq intro!: bexI [of _ "(_, ?ls ! _)"])
  also have "\<dots> = ?R"
    using T only by blast
  finally show ?thesis .
qed

lemma scan_line_Nil_iff:
  "scan_line a p (i, line) = [] \<longleftrightarrow> comment_line line \<or> (\<forall>k \<in> fst ` set a. \<not> quoted_in k line)"
  by (simp add: scan_line_def find_all_Nil_iff set_alternatives)

text \<open>
  C30 (\<open>crosstenantlit.Check\<close>). The check is clean exactly when in every file it reads, on every
  line that is not a comment, no literal forbidden to the tenant of the file stands in quotes.
\<close>

theorem crosstenant_clean_iff:
  assumes "distinct (map tn_Name (filter tn_IsLeaf tenants))"
  shows "Check tenants files genWrites = [] \<longleftrightarrow>
    (\<forall>f \<in> set files. \<forall>T. scanned tenants genWrites f T \<longrightarrow>
       (\<forall>line \<in> set (split_on newline (sf_Content f)). comment_line line \<or>
          (\<forall>k. forbidden (filter tn_IsLeaf tenants) T k \<longrightarrow> \<not> quoted_in k line)))"
proof -
  have forb: "fst ` set (attribution_of (leafs_of tenants) T) = {k. forbidden (filter tn_IsLeaf tenants) T k}" for T
    using leafs_of_facts(1) [OF assms] by (simp add: attribution_keys forbidden_def)
  have "Check tenants files genWrites = [] \<longleftrightarrow> (\<forall>f \<in> set files. set (scan_file tenants genWrites f) = {})"
    by (simp add: Check_def)
  also have "\<dots> \<longleftrightarrow> (\<forall>f \<in> set files. \<forall>T. scanned tenants genWrites f T \<longrightarrow>
      (\<forall>i < length (split_on newline (sf_Content f)).
         scan_line (attribution_of (leafs_of tenants) T) (sf_Path f) (i, split_on newline (sf_Content f) ! i) = []))"
    unfolding scan_file_set [OF assms] by (auto simp: ex_in_conv [symmetric]) (metis all_not_in_conv set_empty)
  also have "\<dots> \<longleftrightarrow> (\<forall>f \<in> set files. \<forall>T. scanned tenants genWrites f T \<longrightarrow>
       (\<forall>line \<in> set (split_on newline (sf_Content f)). comment_line line \<or>
          (\<forall>k. forbidden (filter tn_IsLeaf tenants) T k \<longrightarrow> \<not> quoted_in k line)))"
    unfolding scan_line_Nil_iff forb by (simp add: all_set_conv_all_nth)
  finally show ?thesis .
qed

definition tenant_a :: Tenant where
  "tenant_a = \<lparr>tn_Name = ''a'', tn_Path = ''tenant/a'', tn_IsLeaf = True, tn_Profiles = [''a-org'']\<rparr>"

definition tenant_b :: Tenant where
  "tenant_b = \<lparr>tn_Name = ''b'', tn_Path = ''tenant/b'', tn_IsLeaf = True, tn_Profiles = [''a'']\<rparr>"

definition file_b :: SourceFile where
  "file_b = \<lparr>sf_Path = ''tenant/b/x.cue'', sf_Tenant = ''b'', sf_Content = ''p: '' @ quoted ''a-org''\<rparr>"

theorem crosstenant_clean_iff_witness:
  "Check [tenant_a, tenant_b] [file_b] (\<lambda>_. False) \<noteq> []"
proof -
  have split: "split_on newline (sf_Content file_b) = [''p: '' @ quoted ''a-org'']"
    unfolding file_b_def by (simp add: split_on_no_sep quoted_def)
  have "quoted_in ''a-org'' (''p: '' @ quoted ''a-org'')"
    unfolding quoted_in_def quoted_def
    by (intro exI [of _ "''p: ''"] exI [of _ "CHR 0x22"] exI [of _ "[]"]) (simp add: quote_chars_def)
  moreover have "forbidden (filter tn_IsLeaf [tenant_a, tenant_b]) tenant_b ''a-org''"
    by (simp add: forbidden_def owned_def tenant_a_def tenant_b_def)
  moreover have "scanned [tenant_a, tenant_b] (\<lambda>_. False) file_b tenant_b"
    by (simp add: scanned_def tenant_b_def file_b_def)
  moreover have "\<not> comment_line (''p: '' @ quoted ''a-org'')"
    by (simp add: comment_line_def has_prefix_iff)
  moreover have "distinct (map tn_Name (filter tn_IsLeaf [tenant_a, tenant_b]))"
    by (simp add: tenant_a_def tenant_b_def)
  ultimately show ?thesis
    unfolding crosstenant_clean_iff [OF \<open>distinct _\<close>] split [symmetric] by (metis list.set_intros(1) split)
qed

lemma file_b_reported: "Check [tenant_a, tenant_b] [file_b] (\<lambda>_. False) \<noteq> []"
  by code_simp

text \<open>
  C31 (\<open>crosstenantlit.Check\<close>). Every violation is real: it names a line of a file that was read,
  with the literal in quotes on it, and charges it to another leaf tenant whose name or profile
  it is. The violations are sorted by path, line and literal.
\<close>

theorem crosstenant_violations_sound:
  assumes "distinct (map tn_Name (filter tn_IsLeaf tenants))"
  shows "sorted (map (\<lambda>v. (vi_Path v, vi_Line v, vi_Literal v)) (Check tenants files genWrites)) \<and>
    (\<forall>v \<in> set (Check tenants files genWrites).
       \<exists>f \<in> set files. \<exists>T. scanned tenants genWrites f T \<and> vi_Path v = sf_Path f \<and> 0 < vi_Line v \<and>
         vi_Line v \<le> length (split_on newline (sf_Content f)) \<and>
         (let line = split_on newline (sf_Content f) ! (vi_Line v - 1) in
          \<not> comment_line line \<and> quoted_in (vi_Literal v) line) \<and>
         (\<exists>Tp \<in> set tenants. tn_IsLeaf Tp \<and> tn_Name Tp = vi_OwnerTenant v \<and> owned T Tp (vi_Literal v) (vi_OwnerKind v)))"
proof (intro conjI ballI)
  show "sorted (map (\<lambda>v. (vi_Path v, vi_Line v, vi_Literal v)) (Check tenants files genWrites))"
    by (simp add: Check_def)
next
  fix v
  assume "v \<in> set (Check tenants files genWrites)"
  then obtain f T i where f: "f \<in> set files" "scanned tenants genWrites f T"
    and i: "i < length (split_on newline (sf_Content f))"
    and v: "v \<in> set (scan_line (attribution_of (leafs_of tenants) T) (sf_Path f) (i, split_on newline (sf_Content f) ! i))"
    using scan_file_set [OF assms] by (auto simp: Check_def)
  let ?a = "attribution_of (leafs_of tenants) T"
  let ?line = "split_on newline (sf_Content f) ! i"
  have lit: "\<not> comment_line ?line" "vi_Literal v \<in> set (find_all (alternatives ?a) ?line)" "vi_Path v = sf_Path f"
    "vi_Line v = i + 1" "(vi_OwnerTenant v, vi_OwnerKind v) = get_or ('''', '''') ?a (vi_Literal v)"
    using v by (auto simp: scan_line_def Let_def split: if_splits)
  have k: "vi_Literal v \<in> fst ` set ?a" "quoted_in (vi_Literal v) ?line"
    using find_all_sound [OF lit(2)] by (simp_all add: set_alternatives)
  then obtain ow where "map_of ?a (vi_Literal v) = Some ow"
    using map_of_eq_None_iff [of ?a "vi_Literal v"] by (cases "map_of ?a (vi_Literal v)") auto
  then have "(vi_Literal v, vi_OwnerTenant v, vi_OwnerKind v) \<in> set ?a"
    using lit(5) map_of_SomeD by (fastforce simp: get_or_def)
  then obtain Tp where "Tp \<in> set tenants" "tn_IsLeaf Tp" "tn_Name Tp = vi_OwnerTenant v" "owned T Tp (vi_Literal v) (vi_OwnerKind v)"
    using attribution_owned leafs_of_facts(1) [OF assms] by blast
  with f i lit k(2) show "\<exists>f \<in> set files. \<exists>T. scanned tenants genWrites f T \<and> vi_Path v = sf_Path f \<and> 0 < vi_Line v \<and>
         vi_Line v \<le> length (split_on newline (sf_Content f)) \<and>
         (let line = split_on newline (sf_Content f) ! (vi_Line v - 1) in
          \<not> comment_line line \<and> quoted_in (vi_Literal v) line) \<and>
         (\<exists>Tp \<in> set tenants. tn_IsLeaf Tp \<and> tn_Name Tp = vi_OwnerTenant v \<and> owned T Tp (vi_Literal v) (vi_OwnerKind v))"
    by (intro bexI [of _ f] exI [of _ T]) auto
qed

theorem crosstenant_violations_sound_witness:
  "\<exists>v. v \<in> set (Check [tenant_a, tenant_b] [file_b] (\<lambda>_. False)) \<and> vi_Path v = ''tenant/b/x.cue'' \<and> vi_OwnerTenant v = ''a''"
proof -
  obtain v where v: "v \<in> set (Check [tenant_a, tenant_b] [file_b] (\<lambda>_. False))"
    using file_b_reported by (cases "Check [tenant_a, tenant_b] [file_b] (\<lambda>_. False)") auto
  have "distinct (map tn_Name (filter tn_IsLeaf [tenant_a, tenant_b]))"
    by (simp add: tenant_a_def tenant_b_def)
  from crosstenant_violations_sound [OF this, of "[file_b]" "\<lambda>_. False", THEN conjunct2, rule_format, OF v]
  obtain T Tp where "scanned [tenant_a, tenant_b] (\<lambda>_. False) file_b T" "vi_Path v = sf_Path file_b"
    "Tp \<in> {tenant_a, tenant_b}" "tn_Name Tp = vi_OwnerTenant v" "owned T Tp (vi_Literal v) (vi_OwnerKind v)"
    by auto
  then have "vi_Path v = ''tenant/b/x.cue'' \<and> vi_OwnerTenant v = ''a''"
    by (auto simp: scanned_def owned_def file_b_def tenant_a_def tenant_b_def)
  with v show ?thesis
    by blast
qed

text \<open>
  A leaf whose name is the profile of another leaf may not name itself: its own profiles are
  exempt, its own name is not.
\<close>

lemma own_name_forbidden: "forbidden [tenant_a, tenant_b] tenant_a ''a''"
  by (simp add: forbidden_def owned_def tenant_a_def tenant_b_def)

end
