(* ===== verification/Service.thy ===== *)
theory Service
  imports StepSystem "HOL-Library.Sublist"
begin

text \<open>
  \<open>lib/cli/latch.go\<close> and \<open>lib/cli/managed.go\<close>: the goroutine that waits for the configuration of a
  command, runs its service and reports. A service is given by the arguments of its calls of
  \<open>onReady\<close> and the error it returns with; an error value of \<open>None\<close> is \<open>nil\<close>. \<open>ready\<close> is a
  channel with one place, and a send blocks while it is full.
\<close>

section \<open>Latch\<close>

record 'c Latch =
  la_value :: "'c option"

definition NewLatch :: "'c Latch" where
  "NewLatch = \<lparr>la_value = None\<rparr>"

text \<open>\<open>set\<close>, the value and the closed channel are one field: the three change together.\<close>

definition Latch_Set :: "'c \<Rightarrow> 'c Latch \<Rightarrow> 'c Latch" where
  "Latch_Set v l = (if la_value l \<noteq> None then l else l\<lparr>la_value := Some v\<rparr>)"

text \<open>The results among which \<open>Wait\<close> can choose now; it blocks when there is none.\<close>

definition Latch_Wait :: "'c Latch \<Rightarrow> 'e option \<Rightarrow> ('e + 'c) list" where
  "Latch_Wait l ctxErr =
     (case la_value l of Some v \<Rightarrow> [Inr v] | None \<Rightarrow> []) @ (case ctxErr of Some e \<Rightarrow> [Inl e] | None \<Rightarrow> [])"


section \<open>Managed\<close>

type_synonym ('c, 'e) runner = "'c \<Rightarrow> 'e option list \<times> 'e option"

text \<open>Where the goroutine of \<open>run\<close> is.\<close>

datatype 'e run_pc =
    AwaitLatch | SendErr 'e | Serving "'e option list" "'e option" | Finished

record ('c, 'e) Managed =
  mg_latch :: "'c Latch"
  mg_ctx :: "'e option"
  mg_ready :: "'e option list"
  mg_done :: bool
  mg_err :: "'e option"
  mg_pc :: "'e run_pc"

definition NewManaged :: "'c Latch \<Rightarrow> ('c, 'e) Managed" where
  "NewManaged latch = \<lparr>mg_latch = latch, mg_ctx = None, mg_ready = [], mg_done = False, mg_err = None, mg_pc = AwaitLatch\<rparr>"

text \<open>The next states of the goroutine: a choice of the select, a send, the return.\<close>

definition run_next :: "('c, 'e) runner \<Rightarrow> ('c, 'e) Managed \<Rightarrow> ('c, 'e) Managed list" where
  "run_next runner m =
     (case mg_pc m of
        AwaitLatch \<Rightarrow>
          map (\<lambda>r. case r of
                 Inl e \<Rightarrow> m\<lparr>mg_pc := SendErr e\<rparr>
               | Inr cfg \<Rightarrow> m\<lparr>mg_pc := Serving (fst (runner cfg)) (snd (runner cfg))\<rparr>)
            (Latch_Wait (mg_latch m) (mg_ctx m))
      | SendErr e \<Rightarrow>
          if mg_ready m = [] then [m\<lparr>mg_ready := [Some e], mg_done := True, mg_pc := Finished\<rparr>] else []
      | Serving (r # rs) x \<Rightarrow>
          if mg_ready m = [] then [m\<lparr>mg_ready := [r], mg_pc := Serving rs x\<rparr>] else []
      | Serving [] x \<Rightarrow> [m\<lparr>mg_err := (if x \<noteq> None then x else mg_err m), mg_done := True, mg_pc := Finished\<rparr>]
      | Finished \<Rightarrow> [])"


definition WaitForDone :: "('c, 'e) Managed \<Rightarrow> 'e option \<Rightarrow> 'e option list" where
  "WaitForDone m ctxErr =
     (if mg_done m then [mg_err m] else []) @ (case ctxErr of Some e \<Rightarrow> [Some e] | None \<Rightarrow> [])"

text \<open>
  The whole system: the goroutine, the command that sets the latch, the context that ends, and
  a receive from \<open>ready\<close>.
\<close>

inductive managed_step :: "('c, 'e) runner \<Rightarrow> ('c, 'e) Managed \<Rightarrow> ('c, 'e) Managed \<Rightarrow> bool" for runner where
  run: "m' \<in> set (run_next runner m) \<Longrightarrow> managed_step runner m m'"
| set_latch: "managed_step runner m (m\<lparr>mg_latch := Latch_Set v (mg_latch m)\<rparr>)"
| cancel: "mg_ctx m = None \<Longrightarrow> managed_step runner m (m\<lparr>mg_ctx := Some e\<rparr>)"
| receive: "mg_ready m = [r] \<Longrightarrow> managed_step runner m (m\<lparr>mg_ready := []\<rparr>)"


section \<open>What the goroutine reports\<close>








section \<open>The goroutine ends\<close>

definition pending :: "'e run_pc \<Rightarrow> nat" where
  "pending pc = (case pc of AwaitLatch \<Rightarrow> 1 | SendErr e \<Rightarrow> 1 | Serving rs x \<Rightarrow> length rs | Finished \<Rightarrow> 0)"

definition run_rank :: "('c, 'e) Managed \<Rightarrow> nat" where
  "run_rank m = (case mg_pc m of AwaitLatch \<Rightarrow> 3 | SendErr e \<Rightarrow> 1 | Serving rs x \<Rightarrow> 1 + length rs | Finished \<Rightarrow> 0)"

text \<open>A service that calls \<open>onReady\<close> at most once, and something to wait for.\<close>

definition live_inv :: "('c, 'e) runner \<Rightarrow> ('c, 'e) Managed \<Rightarrow> bool" where
  "live_inv runner m \<longleftrightarrow>
     (\<forall>v. length (fst (runner v)) \<le> 1) \<and> (la_value (mg_latch m) \<noteq> None \<or> mg_ctx m \<noteq> None) \<and>
     length (mg_ready m) + pending (mg_pc m) \<le> 1 \<and> (mg_done m \<longleftrightarrow> mg_pc m = Finished)"

lemma live_step:
  assumes "live_inv runner m" and "m' \<in> set (run_next runner m)"
  shows "live_inv runner m' \<and> run_rank m' < run_rank m"
proof (cases "mg_pc m")
  case AwaitLatch
  have "length (fst (runner v)) \<le> 1" for v
    using assms(1) by (simp add: live_inv_def)
  then have "length (fst (runner v)) < 2" for v
    by (simp add: less_Suc_eq_le numeral_2_eq_2)
  with AwaitLatch assms show ?thesis
    by (auto simp: live_inv_def run_next_def Latch_Wait_def pending_def run_rank_def split: option.splits)
next
  case (Serving rs x)
  with assms show ?thesis
    by (cases rs) (auto simp: live_inv_def run_next_def pending_def run_rank_def split: if_splits)
qed (use assms in \<open>auto simp: live_inv_def run_next_def pending_def run_rank_def split: if_splits\<close>)

lemma live_progress:
  assumes "live_inv runner m" and "\<not> mg_done m"
  shows "\<exists>m'. m' \<in> set (run_next runner m)"
proof (cases "mg_pc m")
  case AwaitLatch
  with assms(1) have "Latch_Wait (mg_latch m) (mg_ctx m) \<noteq> []"
    by (auto simp: live_inv_def Latch_Wait_def)
  with AwaitLatch show ?thesis
    by (cases "Latch_Wait (mg_latch m) (mg_ctx m)") (auto simp: run_next_def)
next
  case (Serving rs x)
  with assms show ?thesis
    by (cases rs) (auto simp: live_inv_def run_next_def pending_def)
qed (use assms in \<open>auto simp: live_inv_def run_next_def pending_def\<close>)

interpretation serve: ranked_system "\<lambda>m m'. m' \<in> set (run_next runner m)" "live_inv runner" run_rank mg_done
  for runner
  by unfold_locales (use live_step live_progress in blast)+

text \<open>
  C33 (\<open>Managed.run\<close>). When the service calls \<open>onReady\<close> at most once and the latch is set or the context
  has ended, the goroutine takes at most three steps, can only stop when \<open>done\<close> is closed, and
  needs nobody to receive from \<open>ready\<close>.
\<close>

theorem managed_run_ends:
  assumes "\<forall>v. length (fst (runner v)) \<le> 1" and "la_value latch \<noteq> None \<or> ctxErr \<noteq> None"
  defines "m0 \<equiv> (NewManaged latch)\<lparr>mg_ctx := ctxErr\<rparr>"
  shows "(\<exists>m. (\<lambda>m m'. m' \<in> set (run_next runner m))\<^sup>*\<^sup>* m0 m \<and> mg_done m) \<and>
         (\<forall>n m. ((\<lambda>m m'. m' \<in> set (run_next runner m)) ^^ n) m0 m \<longrightarrow> n \<le> 3 \<and> (run_next runner m = [] \<longrightarrow> mg_done m))"
proof -
  have inv: "live_inv runner m0"
    using assms(1,2) by (auto simp: live_inv_def m0_def NewManaged_def pending_def)
  have rank: "run_rank m0 = 3"
    by (simp add: m0_def NewManaged_def run_rank_def)
  have "n \<le> 3 \<and> (run_next runner m = [] \<longrightarrow> mg_done m)"
    if run: "((\<lambda>m m'. m' \<in> set (run_next runner m)) ^^ n) m0 m" for n m
    using serve.run_bound [OF run inv] rank
      serve.stuck_fin [OF serve.inv_reach [OF relpowp_imp_rtranclp [OF run] inv]] by auto
  with serve.completes [OF inv] show ?thesis by blast
qed

theorem managed_run_ends_witness:
  "\<exists>m. (\<lambda>m m'. m' \<in> set (run_next (\<lambda>v :: nat. ([None], Some ''boom'')) m))\<^sup>*\<^sup>*
     ((NewManaged (Latch_Set 7 NewLatch))\<lparr>mg_ctx := None\<rparr>) m \<and> mg_done m"
  using managed_run_ends [of "\<lambda>v :: nat. ([None], Some ''boom'')" "Latch_Set 7 NewLatch" None]
  by (simp add: Latch_Set_def NewLatch_def)

text \<open>A second call of \<open>onReady\<close> blocks for good when nobody receives, and no command does.\<close>

lemma second_ready_blocks:
  "mg_ready m = [r] \<Longrightarrow> mg_pc m = Serving (r' # rs) x \<Longrightarrow> run_next runner m = []"
  by (simp add: run_next_def)

text \<open>
  A start context that ends before the latch is set makes \<open>WaitForDone\<close> return \<open>nil\<close>, although the
  service never ran.
\<close>

lemma cancelled_start_is_silent:
  fixes runner :: "('c, 'e) runner" and e :: 'e
  shows "\<exists>m. (managed_step runner)\<^sup>*\<^sup>* (NewManaged NewLatch) m \<and> la_value (mg_latch m) = None \<and> WaitForDone m None = [None]"
proof -
  let ?m0 = "NewManaged NewLatch :: ('c, 'e) Managed"
  let ?m1 = "?m0\<lparr>mg_ctx := Some e\<rparr>"
  let ?m2 = "?m1\<lparr>mg_pc := SendErr e\<rparr>"
  let ?m3 = "?m2\<lparr>mg_ready := [Some e], mg_done := True, mg_pc := Finished\<rparr>"
  have "managed_step runner ?m0 ?m1"
    by (rule cancel) (simp add: NewManaged_def)
  moreover have "managed_step runner ?m1 ?m2" "managed_step runner ?m2 ?m3"
    by (rule run, simp add: run_next_def NewManaged_def NewLatch_def Latch_Wait_def)+
  ultimately have "(managed_step runner)\<^sup>*\<^sup>* ?m0 ?m3"
    by (meson rtranclp.rtrancl_refl rtranclp.rtrancl_into_rtrancl)
  moreover have "la_value (mg_latch ?m3) = None" "WaitForDone ?m3 None = [None]"
    by (simp_all add: NewManaged_def NewLatch_def WaitForDone_def)
  ultimately show ?thesis by blast
qed

end
