(* ===== verification/GoRe.thy ===== *)
theory GoRe
  imports BrickPkg
begin

text \<open>
  The regular expressions of the source that are sequences of characters, classes, optional
  classes and greedy repetitions of classes, optionally anchored at line starts (\<open>(?m)^\<close>). A
  match is given by its pieces, one for each atom, so that a group is a piece. As in package
  \<open>regexp\<close> the match is the leftmost one, and among those that begin there the one a
  backtracking search finds first.
\<close>

section \<open>Atoms and matches\<close>

datatype atom = One "char \<Rightarrow> bool" | Opt "char \<Rightarrow> bool" | Many "char \<Rightarrow> bool"

fun match_at :: "atom list \<Rightarrow> string \<Rightarrow> (string list \<times> string) option" where
  "match_at [] s = Some ([], s)"
| "match_at (One P # as) [] = None"
| "match_at (One P # as) (c # s) = (if P c then map_option (apfst (Cons [c])) (match_at as s) else None)"
| "match_at (Opt P # as) [] = map_option (apfst (Cons [])) (match_at as [])"
| "match_at (Opt P # as) (c # s) =
     (case (if P c then match_at as s else None) of
        Some (ps, r) \<Rightarrow> Some ([c] # ps, r)
      | None \<Rightarrow> map_option (apfst (Cons [])) (match_at as (c # s)))"
| "match_at (Many P # as) [] = map_option (apfst (Cons [])) (match_at as [])"
| "match_at (Many P # as) (c # s) =
     (case (if P c then match_at (Many P # as) s else None) of
        Some (ps, r) \<Rightarrow> Some ((c # hd ps) # tl ps, r)
      | None \<Rightarrow> map_option (apfst (Cons [])) (match_at as (c # s)))"

text \<open>The leftmost match: what stands before it, its pieces, what follows.\<close>

fun re_find :: "bool \<Rightarrow> bool \<Rightarrow> atom list \<Rightarrow> string \<Rightarrow> (string \<times> string list \<times> string) option" where
  "re_find anchored bol as s =
     (case (if anchored \<and> \<not> bol then None else match_at as s) of
        Some (ps, r) \<Rightarrow> Some ([], ps, r)
      | None \<Rightarrow>
          (case s of [] \<Rightarrow> None
           | c # t \<Rightarrow> map_option (apfst (Cons c)) (re_find anchored (c = newline) as t)))"

text \<open>The group that follows a prefix of a pattern and has \<open>n\<close> atoms.\<close>

definition group_after :: "atom list \<Rightarrow> nat \<Rightarrow> string list \<Rightarrow> string" where
  "group_after pre n ps = concat (take n (drop (length pre) ps))"

text \<open>What a piece of an atom looks like, and a match in terms of it.\<close>

fun fits :: "atom \<Rightarrow> string \<Rightarrow> bool" where
  "fits (One P) p \<longleftrightarrow> (\<exists>c. p = [c] \<and> P c)"
| "fits (Opt P) p \<longleftrightarrow> p = [] \<or> (\<exists>c. p = [c] \<and> P c)"
| "fits (Many P) p \<longleftrightarrow> list_all P p"

definition in_lang :: "atom list \<Rightarrow> string \<Rightarrow> bool" where
  "in_lang as s \<longleftrightarrow> (\<exists>ps. list_all2 fits as ps \<and> s = concat ps)"

lemma match_at_sound: "match_at as s = Some (ps, r) \<Longrightarrow> list_all2 fits as ps \<and> s = concat ps @ r"
proof (induction as s arbitrary: ps r rule: match_at.induct)
  case (7 P as c s)
  show ?case
  proof (cases "if P c then match_at (Many P # as) s else None")
    case None
    then obtain qs where "match_at as (c # s) = Some (qs, r)" "ps = [] # qs"
      using "7.prems" by (auto split: if_splits)
    then show ?thesis using "7.IH"(2) [OF None] by simp
  next
    case (Some x)
    then obtain qs where P: "P c" and qs: "match_at (Many P # as) s = Some (qs, r)" "ps = (c # hd qs) # tl qs"
      using "7.prems" by (cases x) (auto split: if_splits)
    from "7.IH"(1) [OF P qs(1)] show ?thesis using P qs(2) by (cases qs) auto
  qed
next
  case (5 P as c s)
  then show ?case by (auto split: if_splits option.splits)
qed (auto split: if_splits)

lemma match_at_complete: "list_all2 fits as ps \<Longrightarrow> \<exists>qs r'. match_at as (concat ps @ r) = Some (qs, r')"
proof (induction as "concat ps @ r" arbitrary: ps r rule: match_at.induct)
  case (3 P as c s)
  then obtain qs where "list_all2 fits as qs" "P c" "s = concat qs @ r"
    by (auto simp: list_all2_Cons1)
  with 3(1) [of qs r] show ?case
    by (auto simp: 3(2) [symmetric])
next
  case (4 P as)
  then obtain qs where qs: "[] = concat qs @ r" "list_all2 fits as qs"
    by (auto simp: list_all2_Cons1)
  from 4(1) [OF qs] show ?case
    unfolding 4(2) [symmetric] qs(1) [symmetric] by auto
next
  case (6 P as)
  then obtain qs where qs: "[] = concat qs @ r" "list_all2 fits as qs"
    by (auto simp: list_all2_Cons1)
  from 6(1) [OF qs] show ?case
    unfolding 6(2) [symmetric] qs(1) [symmetric] by auto
next
  case (5 P as c s)
  show ?case
  proof (cases "if P c then match_at as s else None")
    case None
    obtain p qs where ps: "ps = p # qs" "fits (Opt P) p" "list_all2 fits as qs"
      using 5(4) by (auto simp: list_all2_Cons1)
    have "p = []"
    proof (rule ccontr)
      assume "p \<noteq> []"
      then have "P c" "s = concat qs @ r" using ps(2) 5(3) by (auto simp: ps(1))
      then show False using 5(1) [of qs r] ps(3) None by auto
    qed
    then have e: "c # s = concat qs @ r" using 5(3) by (simp add: ps(1))
    from 5(2) [OF None e ps(3)] show ?thesis
      unfolding 5(3) [symmetric] using None by (auto simp: e [symmetric])
  qed (use 5(3) in \<open>auto simp: 5(3) [symmetric] split: prod.splits\<close>)
next
  case (7 P as c s)
  show ?case
  proof (cases "if P c then match_at (Many P # as) s else None")
    case None
    obtain p qs where ps: "ps = p # qs" "list_all P p" "list_all2 fits as qs"
      using 7(4) by (auto simp: list_all2_Cons1)
    have "p = []"
    proof (rule ccontr)
      assume "p \<noteq> []"
      then obtain p' where p': "p = c # p'" "P c" "list_all P p'" "s = concat (p' # qs) @ r"
        using ps(2) 7(3) by (cases p) (auto simp: ps(1))
      have "list_all2 fits (Many P # as) (p' # qs)" using p'(3) ps(3) by simp
      from 7(1) [OF p'(2,4) this] show False using None p'(2,4) by auto
    qed
    then have e: "c # s = concat qs @ r" using 7(3) by (simp add: ps(1))
    from 7(2) [OF None e ps(3)] show ?thesis
      unfolding 7(3) [symmetric] using None by (auto simp: e [symmetric])
  qed (use 7(3) in \<open>auto simp: 7(3) [symmetric] split: prod.splits\<close>)
qed (auto simp: list_all2_Cons1 split: option.splits)

text \<open>The search is sound and finds a match wherever there is one.\<close>

declare re_find.simps [simp del]

lemma re_find_sound:
  "re_find a b as s = Some (g, ps, r) \<Longrightarrow> list_all2 fits as ps \<and> s = g @ concat ps @ r"
proof (induction s arbitrary: b g)
  case Nil
  then show ?case
    by (auto simp: re_find.simps [of _ _ _ "[]"] dest: match_at_sound split: option.splits if_splits)
next
  case (Cons c s)
  show ?case
  proof (cases "if a \<and> \<not> b then None else match_at as (c # s)")
    case None
    then show ?thesis
      using Cons by (fastforce simp: re_find.simps [of _ _ _ "c # s"])
  next
    case (Some x)
    then show ?thesis
      using Cons.prems by (auto simp: re_find.simps [of _ _ _ "c # s"] dest: match_at_sound split: if_splits)
  qed
qed

lemma re_find_complete: "in_lang as x \<Longrightarrow> re_find False b as (g @ x @ r) \<noteq> None"
proof (induction g arbitrary: b)
  case Nil
  then obtain ps where ps: "list_all2 fits as ps" "x = concat ps" by (auto simp: in_lang_def)
  from match_at_complete [OF ps(1), of r] show ?case
    unfolding re_find.simps [of _ _ _ "[] @ x @ r"] using ps(2) by auto
next
  case (Cons c g)
  from Cons.IH [OF Cons.prems, of "c = newline"] show ?case
    unfolding re_find.simps [of _ _ _ "(c # g) @ x @ r"] by (auto split: option.splits)
qed

theorem re_find_iff: "re_find False b as s \<noteq> None \<longleftrightarrow> (\<exists>g x r. s = g @ x @ r \<and> in_lang as x)"
proof
  assume "re_find False b as s \<noteq> None"
  then obtain g ps r where "re_find False b as s = Some (g, ps, r)" by auto
  from re_find_sound [OF this] show "\<exists>g x r. s = g @ x @ r \<and> in_lang as x"
    unfolding in_lang_def by blast
qed (use re_find_complete in blast)

section \<open>All matches\<close>

text \<open>
  The matches from left to right, each with the text before it, and the text after the last
  one. No pattern of the source matches the empty string.
\<close>

function re_split :: "bool \<Rightarrow> bool \<Rightarrow> atom list \<Rightarrow> string \<Rightarrow> (string \<times> string list) list \<times> string" where
  "re_split anchored bol as s =
     (case re_find anchored bol as s of
        None \<Rightarrow> ([], s)
      | Some (g, ps, r) \<Rightarrow>
          if concat ps = [] then ([], s)
          else apfst (Cons (g, ps)) (re_split anchored (last (concat ps) = newline) as r))"
  by pat_completeness auto
termination
proof (relation "measure (\<lambda>(_, _, _, s). length s)", goal_cases)
  case (2 anchored bol as s x g y ps r)
  then have "s = g @ concat ps @ r" using re_find_sound by blast
  moreover have "0 < length (concat ps)" using 2 by simp
  ultimately show ?case by simp
qed simp

declare re_split.simps [simp del]

text \<open>\<open>ReplaceAllStringFunc\<close>: every match is replaced.\<close>

definition re_replace :: "bool \<Rightarrow> atom list \<Rightarrow> (string list \<Rightarrow> string) \<Rightarrow> string \<Rightarrow> string" where
  "re_replace anchored as f s =
     (case re_split anchored True as s of
        (ms, t) \<Rightarrow> concat (map (\<lambda>(g, ps). g @ f ps) ms) @ t)"

lemma re_split_sound:
  "re_split a b as s = (ms, t) \<Longrightarrow>
     s = concat (map (\<lambda>(g, ps). g @ concat ps) ms) @ t \<and> (\<forall>(g, ps) \<in> set ms. list_all2 fits as ps)"
proof (induction a b as s arbitrary: ms t rule: re_split.induct)
  case (1 a b as s)
  show ?case
  proof (cases "re_find a b as s")
    case None
    then show ?thesis using "1.prems" by (simp add: re_split.simps [of a b as s])
  next
    case (Some x)
    then obtain g ps r where x: "re_find a b as s = Some (g, ps, r)" by (cases x) auto
    show ?thesis
    proof (cases "concat ps = []")
      case False
      obtain ms' t' where rec: "re_split a (last (concat ps) = newline) as r = (ms', t')" by fastforce
      have "ms = (g, ps) # ms'" "t = t'"
        using "1.prems" x False rec unfolding re_split.simps [of a b as s]
        by (simp_all only: option.case prod.case if_False apfst_conv prod.inject)
      then show ?thesis
        using "1.IH" [OF x refl refl False rec] re_find_sound [OF x] by auto
    qed (use "1.prems" x in \<open>simp add: re_split.simps [of a b as s]\<close>)
  qed
qed

section \<open>Literals and white space\<close>

definition lit :: "string \<Rightarrow> atom list" where
  "lit s = map (\<lambda>c. One ((=) c)) s"

abbreviation spaces :: atom where
  "spaces \<equiv> Many re_space"

lemma fits_lit: "list_all2 fits (lit s) ps \<longleftrightarrow> ps = map (\<lambda>c. [c]) s"
  by (induction s arbitrary: ps) (auto simp: lit_def list_all2_Cons1)

lemma concat_singles [simp]: "concat (map (\<lambda>c. [c]) s) = s"
  by (induction s) auto

lemma in_lang_Nil [simp]: "in_lang [] s \<longleftrightarrow> s = []"
  by (auto simp: in_lang_def)

lemma in_lang_append: "in_lang (as @ bs) s \<longleftrightarrow> (\<exists>u v. s = u @ v \<and> in_lang as u \<and> in_lang bs v)"
proof
  assume "in_lang (as @ bs) s"
  then show "\<exists>u v. s = u @ v \<and> in_lang as u \<and> in_lang bs v"
    unfolding in_lang_def list_all2_append1 by force
next
  assume "\<exists>u v. s = u @ v \<and> in_lang as u \<and> in_lang bs v"
  then obtain ps qs where "list_all2 fits as ps" "list_all2 fits bs qs" "s = concat (ps @ qs)"
    by (auto simp: in_lang_def)
  then show "in_lang (as @ bs) s"
    unfolding in_lang_def using list_all2_appendI by blast
qed

lemma in_lang_lit_append [simp]: "in_lang (lit p @ as) s \<longleftrightarrow> (\<exists>u. s = p @ u \<and> in_lang as u)"
  unfolding in_lang_append by (auto simp: in_lang_def fits_lit)

lemma in_lang_lit [simp]: "in_lang (lit p) s \<longleftrightarrow> s = p"
  by (simp add: in_lang_def fits_lit)

lemma in_lang_Cons [simp]:
  "in_lang (a # as) s \<longleftrightarrow> (\<exists>u v. s = u @ v \<and> fits a u \<and> in_lang as v)"
proof -
  have "in_lang [a] u \<longleftrightarrow> fits a u" for u
    by (auto simp: in_lang_def list_all2_Cons1 intro!: exI [of _ "[u]"])
  then show ?thesis
    using in_lang_append [of "[a]" as s] by simp
qed

lemma match_at_lit [simp]: "match_at (lit p @ as) (p @ s) = map_option (apfst (append (map (\<lambda>c. [c]) p))) (match_at as s)"
proof (induction p)
  case Nil
  show ?case by (cases "match_at as s") (auto simp: lit_def apfst_def)
next
  case (Cons c p)
  then show ?case by (cases "match_at as s") (auto simp: lit_def apfst_def)
qed

section \<open>An optional newline at the end of a pattern\<close>

fun opt_rest :: "(char \<Rightarrow> bool) \<Rightarrow> string list \<times> string \<Rightarrow> string list \<times> string" where
  "opt_rest P (ps, []) = (ps @ [[]], [])"
| "opt_rest P (ps, c # r) = (if P c then (ps @ [[c]], r) else (ps @ [[]], c # r))"

lemma opt_rest_Cons: "opt_rest P (p # ps, r) = apfst (Cons p) (opt_rest P (ps, r))"
  by (cases r) auto

lemma match_at_opt: "match_at (as @ [Opt P]) s = map_option (opt_rest P) (match_at as s)"
proof (induction as s rule: match_at.induct)
  case (1 s)
  then show ?case by (cases s) auto
next
  case (3 P' as c s)
  then show ?case by (cases "match_at as s") (auto simp: opt_rest_Cons)
next
  case (4 P' as)
  then show ?case by (cases "match_at as []") (auto simp: opt_rest_Cons)
next
  case (5 P' as c s)
  have ih: "(if P' c then match_at (as @ [Opt P]) s else None) = map_option (opt_rest P) (if P' c then match_at as s else None)"
    using 5(1) by simp
  show ?case
  proof (cases "if P' c then match_at as s else None")
    case None
    then show ?thesis
      using 5(2) [OF None] unfolding append_Cons match_at.simps ih
      by (cases "match_at as (c # s)") (auto simp: opt_rest_Cons)
  next
    case (Some x)
    then show ?thesis
      unfolding append_Cons match_at.simps ih by (cases x) (auto simp: opt_rest_Cons split: prod.splits)
  qed
next
  case (6 P' as)
  then show ?case by (cases "match_at as []") (auto simp: opt_rest_Cons)
next
  case (7 P' as c s)
  have ih: "(if P' c then match_at (Many P' # as @ [Opt P]) s else None) =
      map_option (opt_rest P) (if P' c then match_at (Many P' # as) s else None)"
    using 7(1) by simp
  show ?case
  proof (cases "if P' c then match_at (Many P' # as) s else None")
    case None
    then show ?thesis
      using 7(2) [OF None] unfolding append_Cons match_at.simps ih
      by (cases "match_at as (c # s)") (auto simp: opt_rest_Cons)
  next
    case (Some x)
    obtain ps r where x: "x = (ps, r)" by fastforce
    have "match_at (Many P' # as) s = Some (ps, r)" using Some by (auto simp: x split: if_splits)
    then obtain p qs where "ps = p # qs" using match_at_sound by (fastforce simp: list_all2_Cons1)
    then show ?thesis
      using Some unfolding append_Cons match_at.simps ih
      by (cases "opt_rest P (qs, r)") (auto simp: x opt_rest_Cons split: prod.splits)
  qed
qed simp

lemma re_find_opt:
  "re_find False b (as @ [Opt P]) s = map_option (\<lambda>(g, x). (g, opt_rest P x)) (re_find False b as s)"
proof (induction s arbitrary: b)
  case Nil
  show ?case
    unfolding re_find.simps [of _ _ _ "[]"] match_at_opt by (auto split: option.split)
next
  case (Cons c s)
  show ?case
    unfolding re_find.simps [of _ _ _ "c # s"] match_at_opt
    by (cases "match_at as (c # s)"; cases "re_find False (c = newline) as s") (auto simp: Cons.IH)
qed

section \<open>Patterns with a character in every match\<close>

definition solid :: "atom list \<Rightarrow> bool" where
  "solid as \<longleftrightarrow> (\<exists>P. One P \<in> set as)"

lemma solid_append [simp]: "solid (as @ bs) \<longleftrightarrow> solid as \<or> solid bs"
  by (auto simp: solid_def)

lemma solid_lit [simp]: "solid (lit (c # s))"
  by (auto simp: solid_def lit_def)

lemma solid_nonempty: "list_all2 fits as ps \<Longrightarrow> solid as \<Longrightarrow> concat ps \<noteq> []"
  by (induction as ps rule: list_all2_induct) (auto simp: solid_def)

lemma re_find_unanchored: "re_find False b as s = re_find False b' as s"
  by (simp add: re_find.simps)

lemma re_find_tl: "re_find False b as (c # s) = None \<Longrightarrow> re_find False b' as s = None"
  unfolding re_find.simps [of _ _ _ "c # s"] re_find_unanchored [of b' as s "c = newline"]
  by (auto split: option.splits)

lemma re_split_None: "re_find a b as s = None \<Longrightarrow> re_split a b as s = ([], s)"
  by (simp add: re_split.simps [of a b as s])

lemma re_split_Some:
  "solid as \<Longrightarrow> re_find a b as s = Some (g, ps, r) \<Longrightarrow>
     re_split a b as s = apfst (Cons (g, ps)) (re_split a (last (concat ps) = newline) as r)"
  using solid_nonempty [of as ps] re_find_sound [of a b as s g ps r]
  unfolding re_split.simps [of a b as s] by (auto simp only: option.case prod.case if_False)

lemma re_split_Nil_iff: "solid as \<Longrightarrow> re_split a b as s = ([], t) \<longleftrightarrow> re_find a b as s = None \<and> t = s"
  by (cases "re_find a b as s") (auto simp: re_split_None re_split_Some apfst_def map_prod_def split: prod.splits)

lemma re_split_single:
  assumes "solid as" and "re_split a b as s = ([(g, ps)], t)"
  shows "re_find a b as s = Some (g, ps, t)" and "re_find a (last (concat ps) = newline) as t = None"
proof -
  obtain g' ps' r where x: "re_find a b as s = Some (g', ps', r)"
    using assms by (cases "re_find a b as s") (auto simp: re_split_None)
  obtain ms t' where y: "re_split a (last (concat ps') = newline) as r = (ms, t')" by fastforce
  have eq: "g' = g" "ps' = ps" "ms = []" "t' = t"
    using assms(2) unfolding re_split_Some [OF assms(1) x] y by auto
  then have "re_find a (last (concat ps') = newline) as r = None \<and> t = r"
    using y re_split_Nil_iff [OF assms(1)] by simp
  with x eq show "re_find a b as s = Some (g, ps, t)" and "re_find a (last (concat ps) = newline) as t = None"
    by auto
qed

text \<open>Deleting the only match together with a newline that follows it.\<close>

lemma re_replace_opt_single:
  assumes "solid as" and "re_split False True as s = ([(g, ps)], t)"
  shows "re_replace False (as @ [Opt P]) (\<lambda>_. []) s = g @ (case t of c # r \<Rightarrow> if P c then r else t | [] \<Rightarrow> [])"
proof -
  note one = re_split_single [OF assms]
  define x where "x = opt_rest P (ps, t)"
  have t: "snd x = (case t of c # r \<Rightarrow> if P c then r else t | [] \<Rightarrow> [])"
    by (cases t) (auto simp: x_def)
  have find: "re_find False True (as @ [Opt P]) s = Some (g, fst x, snd x)"
    by (simp add: re_find_opt one(1) x_def)
  have "re_find False b as (snd x) = None" for b
  proof -
    have "re_find False b as t = None"
      using one(2) by (rule trans [OF re_find_unanchored])
    then show ?thesis
      using re_find_tl by (cases t) (auto simp: x_def)
  qed
  then have "re_find False b (as @ [Opt P]) (snd x) = None" for b
    by (simp add: re_find_opt)
  then show ?thesis
    using assms(1) by (simp add: re_replace_def re_split_Some [OF _ find] re_split_None t)
qed

section \<open>Computing matches\<close>

text \<open>A pattern that begins with a character no character of the class is.\<close>

fun starts_off :: "(char \<Rightarrow> bool) \<Rightarrow> atom list \<Rightarrow> bool" where
  "starts_off P (One Q # as) \<longleftrightarrow> (\<forall>c. P c \<longrightarrow> \<not> Q c)"
| "starts_off P as \<longleftrightarrow> False"

lemma starts_off_None: "starts_off P as \<Longrightarrow> P c \<Longrightarrow> match_at as (c # s) = None"
  by (cases "(P, as)" rule: starts_off.cases) auto

lemma starts_off_lit [simp]: "starts_off P (lit (c # p) @ as) \<longleftrightarrow> \<not> P c"
  by (auto simp: lit_def)

lemma match_at_Many:
  assumes "list_all P u" and "starts_off P as" and "s = [] \<or> \<not> P (hd s)"
  shows "match_at (Many P # as) (u @ s) = map_option (apfst (Cons u)) (match_at as s)"
  using assms(1)
proof (induction u)
  case Nil
  then show ?case using assms(3) by (cases s) auto
next
  case (Cons c u)
  then show ?case
    using starts_off_None [OF assms(2), of c "u @ s"] by (cases "match_at as s") (auto simp: apfst_def)
qed

lemma match_at_Many_drop:
  assumes "starts_off P as"
  shows "match_at (Many P # as) s = map_option (apfst (Cons (takeWhile P s))) (match_at as (dropWhile P s))"
  using match_at_Many [of P "takeWhile P s" as "dropWhile P s"] assms hd_dropWhile [of P s]
  by (auto simp: list_all_iff dest: set_takeWhileD)

text \<open>The search from line to line.\<close>

lemma re_find_inner:
  "newline \<notin> set l \<Longrightarrow> re_find True False as (l @ newline # s) = map_option (apfst (append (l @ [newline]))) (re_find True True as s)"
proof (induction l)
  case Nil
  then show ?case by (cases "re_find True True as s") (auto simp: re_find.simps [of _ _ _ "newline # s"])
next
  case (Cons c l)
  then show ?case
    by (cases "re_find True True as s") (auto simp: re_find.simps [of _ _ _ "c # l @ newline # s"])
qed

lemma re_find_inner_end: "newline \<notin> set l \<Longrightarrow> re_find True False as l = None"
  by (induction l) (auto simp: re_find.simps [of _ _ _ "[]"] re_find.simps [of _ _ _ "_ # _"])

lemma re_find_line:
  assumes "newline \<notin> set l" and "match_at as (l @ newline # s) = None"
  shows "re_find True True as (l @ newline # s) = map_option (apfst (append (l @ [newline]))) (re_find True True as s)"
proof (cases l)
  case Nil
  then show ?thesis
    using assms(2) by (cases "re_find True True as s") (auto simp: re_find.simps [of _ _ _ "newline # s"])
next
  case (Cons c l')
  then show ?thesis
    using assms re_find_inner [of l' as s]
    by (cases "re_find True True as s") (auto simp: re_find.simps [of _ _ _ "c # l' @ newline # s"])
qed

lemma re_find_here:
  "match_at as s = Some (ps, r) \<Longrightarrow> re_find a True as s = Some ([], ps, r)"
  by (simp add: re_find.simps [of _ _ _ s])

end
