(* ===== verification/Skill.thy ===== *)
theory Skill
  imports GoRe Stamp
begin

text \<open>
  \<open>lib/stamp/skill.go\<close>: \<open>StampSkill\<close> registers a skill. The catalog \<open>kernel/catalog/skills.cue\<close> is
  read with regular expressions, the entry of the skill is put into the table, and the whole file
  is written again; then the brick of the skill is stamped and its \<open>SKILL.md\<close> is made when it is
  missing.
\<close>

section \<open>The catalog of skills\<close>

record skillEntry =
  sk_desc :: string
  sk_path :: string
  sk_subdirs :: "string list"

definition lower :: "char \<Rightarrow> bool" where
  "lower c \<longleftrightarrow> 97 \<le> byte c \<and> byte c \<le> 122"

definition slug_char :: "char \<Rightarrow> bool" where
  "slug_char c \<longleftrightarrow> lower c \<or> is_digit c \<or> c = CHR ''-''"

definition skillNameRE :: "string \<Rightarrow> bool" where
  "skillNameRE name \<longleftrightarrow>
     has_prefix name ''sp-'' \<and> (case drop 3 name of [] \<Rightarrow> False | c # r \<Rightarrow> lower c \<and> list_all slug_char r)"

definition skillSubdirAllowed :: "(string, bool) gomap" where
  "skillSubdirAllowed = [(''scripts'', True), (''references'', True), (''prompts'', True), (''examples'', True)]"

abbreviation key_prefix :: "atom list" where
  "key_prefix \<equiv> [spaces] @ lit [dquote]"

definition entryRE :: "atom list" where
  "entryRE = key_prefix @ lit ''sp-'' @ [One slug_char, Many slug_char] @ lit [dquote, CHR '':''] @ [spaces] @ lit ''{''"

definition value_prefix :: "string \<Rightarrow> atom list" where
  "value_prefix name = [spaces] @ lit (name @ '':'') @ [spaces] @ lit [dquote]"

text \<open>\<open>descRE\<close> and \<open>pathRE\<close>.\<close>

definition valueRE :: "string \<Rightarrow> atom list" where
  "valueRE name = value_prefix name @ [Many (\<lambda>c. c \<noteq> dquote)] @ lit [dquote]"

definition sub_prefix :: "atom list" where
  "sub_prefix = [spaces] @ lit ''subdirs:'' @ [spaces] @ lit ''[''"

definition subRE :: "atom list" where
  "subRE = sub_prefix @ [Many (\<lambda>c. c \<noteq> CHR '']'')] @ lit '']''"

definition itemRE :: "atom list" where
  "itemRE = lit [dquote] @ [One lower, Many lower] @ lit [dquote]"

definition value_of :: "string \<Rightarrow> string \<Rightarrow> string" where
  "value_of name block =
     (case re_find True True (valueRE name) block of
        None \<Rightarrow> '''' | Some (_, ps, _) \<Rightarrow> group_after (value_prefix name) 1 ps)"

definition subdirs_of :: "string \<Rightarrow> string list" where
  "subdirs_of block =
     (case re_find True True subRE block of
        None \<Rightarrow> []
      | Some (_, ps, _) \<Rightarrow>
          map (\<lambda>(_, qs). group_after (lit [dquote]) 2 qs)
            (fst (re_split False True itemRE (group_after sub_prefix 1 ps))))"

definition parse_block :: "string \<Rightarrow> skillEntry" where
  "parse_block block =
     \<lparr>sk_desc = value_of ''description'' block, sk_path = value_of ''path'' block, sk_subdirs = subdirs_of block\<rparr>"

text \<open>The block of an entry reaches to the next entry, that of the last one to the end.\<close>

definition parse_skills :: "string \<Rightarrow> (string, skillEntry) gomap" where
  "parse_skills data =
     (case re_split True True entryRE data of
        (ms, t) \<Rightarrow>
          foldl (\<lambda>out (k, block). AList.update k (parse_block block) out) []
            (zip (map (\<lambda>(_, ps). group_after key_prefix 5 ps) ms) (map fst (tl ms) @ [t])))"

datatype skill_error =
    BadSkillName string | DescRequired | BadSubdir string | SkillReadErr string | SkillWriteErr string
  | SkillBrickErr stamp_error | SkillMkdirErr string

definition parseSkillCatalog :: "string \<Rightarrow> disk \<Rightarrow> skill_error + (string, skillEntry) gomap" where
  "parseSkillCatalog path dk =
     (case ReadFile (dk_fs dk) path of
        NotExist \<Rightarrow> Inr []
      | ReadErr \<Rightarrow> Inl (SkillReadErr path)
      | ReadData d \<Rightarrow> Inr (parse_skills d))"

definition skills_header :: "string list" where
  \<open>skills_header = [
     ''@experiment(aliasv2,explicitopen,shortcircuit,try)'',
     '''',
     ''// Schema constraints for the skill Midas. Skill instances live as'',
     ''// bricks under m/root/skills/sp-<name>/; instance metadata is added'',
     ''// here (or in a tenant overlay) by `defn stamp skill`.'',
     ''package catalog'',
     '''',
     ''import "github.com/defn/other/kernel/schema"'',
     '''',
     ''// Per-skill schema in kernel/schema/skill.cue.'',
     ''//'',
     ''// The skills map is keyed by skill name; the key == #Skill.name'',
     ''// invariant is enforced by `defn stamp skill`, not by the schema.'',
     ''skills: [string]: schema.#Skill'',
     '''',
     ''skills: {'']\<close>

definition skill_fields :: "(nat \<Rightarrow> bool) \<Rightarrow> string \<Rightarrow> skillEntry \<Rightarrow> string list" where
  "skill_fields is_print k e =
     [[tab, tab] @ ''name:        '' @ Quote is_print k,
      [tab, tab] @ ''description: '' @ Quote is_print (sk_desc e),
      [tab, tab] @ ''path:        '' @ Quote is_print (sk_path e)]
     @ (if sk_subdirs e \<noteq> []
        then [[tab, tab] @ ''subdirs:     ['' @ join '', '' (map (Quote is_print) (sk_subdirs e)) @ '']'']
        else [])
     @ [[tab, CHR 0x7D]]"

definition skill_lines :: "(nat \<Rightarrow> bool) \<Rightarrow> string \<times> skillEntry \<Rightarrow> string list" where
  "skill_lines is_print = (\<lambda>(k, e). ([tab] @ Quote is_print k @ '': {'') # skill_fields is_print k e)"

definition render_skills :: "(nat \<Rightarrow> bool) \<Rightarrow> (string, skillEntry) gomap \<Rightarrow> string" where
  "render_skills is_print merged =
     lines_of (skills_header
       @ concat (map (\<lambda>k. skill_lines is_print (k, get_or \<lparr>sk_desc = [], sk_path = [], sk_subdirs = []\<rparr> merged k))
                  (sort (keys merged)))
       @ [[CHR 0x7D]])"

definition skills_file :: "string \<Rightarrow> string" where
  "skills_file rootDir = fp_join [rootDir, ''kernel'', ''catalog'', ''skills.cue'']"

definition upsertSkillCatalog :: "(nat \<Rightarrow> bool) \<Rightarrow> string \<Rightarrow> string \<Rightarrow> string \<Rightarrow> string \<Rightarrow> string list \<Rightarrow> disk \<Rightarrow>
    disk \<times> (skill_error + unit)" where
  "upsertSkillCatalog is_print rootDir name desc brickPath subdirs dk =
     (let catFile = skills_file rootDir in
      case parseSkillCatalog catFile dk of
        Inl e \<Rightarrow> (dk, Inl e)
      | Inr merged \<Rightarrow>
          let merged' = AList.update name \<lparr>sk_desc = desc, sk_path = brickPath, sk_subdirs = subdirs\<rparr> merged;
              b = render_skills is_print merged'
          in if ReadFile (dk_fs dk) catFile = ReadData b then (dk, Inr ())
             else case WriteFile catFile b 420 (dk_fs dk) of
                    None \<Rightarrow> (dk, Inl (SkillWriteErr catFile))
                  | Some fs \<Rightarrow> (dk\<lparr>dk_fs := fs\<rparr>, Inr ()))"

section \<open>The stamp of a skill\<close>

definition skill_md :: "string \<Rightarrow> string \<Rightarrow> string" where
  "skill_md name desc =
     lines_of [''---'', ''name: '' @ name, ''description: '' @ desc, ''---'', '''', ''# '' @ name, '''',
       ''## Overview'', '''', ''TODO -- describe what this skill does and when to use it.'']"

definition scaffoldSkillMD :: "string \<Rightarrow> string \<Rightarrow> string \<Rightarrow> string \<Rightarrow> disk \<Rightarrow> disk \<times> (skill_error + unit)" where
  "scaffoldSkillMD rootDir brickPath name desc dk =
     (let full = fp_join [rootDir, brickPath, ''SKILL.md''] in
      if stat_ok full dk then (dk, Inr ())
      else case MkdirAll (fp_dir full) dk of
             None \<Rightarrow> (dk, Inl (SkillMkdirErr brickPath))
           | Some dk1 \<Rightarrow>
               (case WriteFile full (skill_md name desc) 420 (dk_fs dk1) of
                  None \<Rightarrow> (dk1, Inl (SkillWriteErr (brickPath @ ''/SKILL.md'')))
                | Some fs \<Rightarrow> (dk1\<lparr>dk_fs := fs\<rparr>, Inr ())))"

fun make_subdirs :: "string \<Rightarrow> string \<Rightarrow> string list \<Rightarrow> disk \<Rightarrow> disk \<times> (skill_error + unit)" where
  "make_subdirs rootDir brickPath [] dk = (dk, Inr ())"
| "make_subdirs rootDir brickPath (sd # sds) dk =
     (case MkdirAll (fp_join [rootDir, brickPath, sd]) dk of
        None \<Rightarrow> (dk, Inl (SkillMkdirErr (brickPath @ ''/'' @ sd)))
      | Some dk1 \<Rightarrow> make_subdirs rootDir brickPath sds dk1)"

definition StampSkill :: "(nat \<Rightarrow> bool) \<Rightarrow> string \<Rightarrow> string \<Rightarrow> string \<Rightarrow> string list \<Rightarrow> disk \<Rightarrow>
    disk \<times> (skill_error + unit)" where
  "StampSkill is_print rootDir name desc subdirs0 dk =
     (if \<not> skillNameRE name then (dk, Inl (BadSkillName name))
      else if desc = '''' then (dk, Inl DescRequired)
      else case find (\<lambda>sd. \<not> get_or False skillSubdirAllowed sd) subdirs0 of
        Some sd \<Rightarrow> (dk, Inl (BadSubdir sd))
      | None \<Rightarrow>
          (let subdirs = sort subdirs0; brickPath = ''root/skills/'' @ name in
           case upsertSkillCatalog is_print rootDir name desc brickPath subdirs dk of
             (dk1, Inl e) \<Rightarrow> (dk1, Inl e)
           | (dk1, Inr _) \<Rightarrow>
               (case StampBrick is_print rootDir ''skill'' brickPath desc [] dk1 of
                  (dk2, Inl e) \<Rightarrow> (dk2, Inl (SkillBrickErr e))
                | (dk2, Inr _) \<Rightarrow>
                    (case scaffoldSkillMD rootDir brickPath name desc dk2 of
                       (dk3, Inl e) \<Rightarrow> (dk3, Inl e)
                     | (dk3, Inr _) \<Rightarrow> make_subdirs rootDir brickPath subdirs dk3))))"

section \<open>Lines at which a pattern does not begin\<close>

lemma lines_of_simps [simp]:
  "lines_of [] = []" "lines_of (l # ls) = l @ newline # lines_of ls" "lines_of (ks @ ls) = lines_of ks @ lines_of ls"
  by (simp_all add: lines_of_def)

definition quiet :: "char \<Rightarrow> string \<Rightarrow> bool" where
  "quiet c l \<longleftrightarrow> newline \<notin> set l \<and> dropWhile re_space l \<noteq> [] \<and> hd (dropWhile re_space l) \<noteq> c"

definition quiets :: "char \<Rightarrow> string list \<Rightarrow> bool" where
  "quiets c ls \<longleftrightarrow> list_all (\<lambda>l. l = [] \<or> quiet c l) ls \<and> (ls \<noteq> [] \<longrightarrow> last ls \<noteq> [])"

lemma dropWhile_line:
  "dropWhile P l \<noteq> [] \<Longrightarrow> dropWhile P (l @ s) = dropWhile P l @ s"
  by (induction l) auto

lemma space_newline [simp]: "re_space newline" "re_space (CHR '' '')" "re_space tab" "\<not> re_space dquote"
  by (simp_all add: re_space_def)

lemma match_quiet:
  assumes "quiet c l" and "\<not> re_space c"
  shows "match_at (spaces # lit (c # p) @ as) (l @ s) = None"
proof -
  have *: "starts_off re_space (lit (c # p) @ as)" using assms(2) by simp
  obtain d u where "dropWhile re_space (l @ s) = d # u" "d \<noteq> c"
    using assms(1) dropWhile_line [of re_space l s] by (cases "dropWhile re_space l") (auto simp: quiet_def)
  then show ?thesis
    unfolding match_at_Many_drop [OF *] by (simp add: lit_def)
qed

lemma match_quiets:
  assumes "quiets c ls" and "ls \<noteq> []" and "\<not> re_space c"
  shows "match_at (spaces # lit (c # p) @ as) (lines_of ls @ s) = None"
  using assms(1,2)
proof (induction ls)
  case (Cons l ls)
  show ?case
  proof (cases "l = []")
    case True
    then have "match_at (spaces # lit (c # p) @ as) (lines_of ls @ s) = None"
      using Cons by (auto simp: quiets_def split: if_splits)
    moreover have "match_at (lit (c # p) @ as) (newline # lines_of ls @ s) = None"
      using assms(3) by (auto simp: lit_def re_space_def)
    ultimately show ?thesis by (simp add: True)
  next
    case False
    then show ?thesis
      using Cons.prems match_quiet [OF _ assms(3), of l] by (simp add: quiets_def)
  qed
qed simp

lemma find_quiets:
  assumes "quiets c ls" and "\<not> re_space c"
  shows "re_find True True (spaces # lit (c # p) @ as) (lines_of ls @ s) =
     map_option (apfst (append (lines_of ls))) (re_find True True (spaces # lit (c # p) @ as) s)"
  using assms(1)
proof (induction ls)
  case Nil
  show ?case by (cases "re_find True True (spaces # lit (c # p) @ as) s") auto
next
  case (Cons l ls)
  have tl: "quiets c ls" and l: "newline \<notin> set l"
    using Cons.prems by (auto simp: quiets_def quiet_def)
  show ?case
    using re_find_line [OF l, of "spaces # lit (c # p) @ as" "lines_of ls @ s"]
      match_quiets [OF Cons.prems _ assms(2), of p as s] Cons.IH [OF tl]
    by (cases "re_find True True (spaces # lit (c # p) @ as) s") auto
qed

lemma match_at_lit_end [simp]: "match_at (lit p) (p @ s) = Some (map (\<lambda>c. [c]) p, s)"
  using match_at_lit [of p "[]" s] by simp

lemma find_nothing: "re_find True True (spaces # lit (c # p) @ as) [] = None"
  by (simp add: re_find.simps [of _ _ _ "[]"] lit_def)

section \<open>Reading an entry back\<close>

definition skill_key :: "string \<Rightarrow> bool" where
  "skill_key k \<longleftrightarrow> (\<exists>c r. k = ''sp-'' @ c # r \<and> slug_char c \<and> list_all slug_char r)"

definition wf_entry :: "(nat \<Rightarrow> bool) \<Rightarrow> skillEntry \<Rightarrow> bool" where
  "wf_entry is_print e \<longleftrightarrow> no_escape is_print (sk_desc e) \<and> no_escape is_print (sk_path e) \<and>
     list_all (\<lambda>d. d \<noteq> [] \<and> list_all lower d) (sk_subdirs e)"

lemma Quote_line [simp]: "newline \<notin> set (Quote is_print x)"
  by (simp add: Quote_def quoted_def quote_body_newline)

lemma slug_plain: "slug_char c \<Longrightarrow> 0x20 \<le> byte c \<and> byte c < 0x7F \<and> c \<noteq> dquote \<and> c \<noteq> backslash"
  by (auto simp: slug_char_def lower_def is_digit_def byte_def less_eq_char_def)

lemma lower_slug: "lower c \<Longrightarrow> slug_char c"
  by (simp add: slug_char_def)

lemma skill_key_plain:
  assumes "skill_key k"
  shows "no_escape is_print k"
proof -
  obtain c r where k: "k = ''sp-'' @ c # r" "slug_char c" "list_all slug_char r"
    using assms by (auto simp: skill_key_def)
  have "slug_char (CHR ''s'')" "slug_char (CHR ''p'')" "slug_char (CHR ''-'')"
    by (simp_all add: slug_char_def lower_def byte_def)
  then have "list_all slug_char k" using k by simp
  then show ?thesis
    by (intro plain_no_escape) (rule list.pred_mono_strong, assumption, rule slug_plain)
qed

lemma match_entry_line:
  assumes "skill_key k"
  shows "\<exists>ps. match_at entryRE ([tab] @ Quote is_print k @ '': {'' @ s) = Some (ps, s) \<and>
    concat ps = [tab] @ Quote is_print k @ '': {'' \<and> group_after key_prefix 5 ps = k"
proof -
  obtain c r where k: "k = ''sp-'' @ c # r" "slug_char c" "list_all slug_char r"
    using assms by (auto simp: skill_key_def)
  have nq: "\<not> slug_char dquote" by (simp add: slug_char_def lower_def is_digit_def byte_def)
  have q: "[tab] @ Quote is_print k @ '': {'' @ s =
      [tab] @ [dquote] @ ''sp-'' @ c # r @ [dquote, CHR '':''] @ [CHR '' ''] @ ''{'' @ s"
    unfolding no_escape_quote(1) [OF skill_key_plain [OF assms]] by (simp add: quoted_def k(1))
  have m1: "match_at (spaces # lit ''{'') ([CHR '' ''] @ ''{'' @ s) = Some ([[CHR '' ''], ''{''], s)"
    by (subst match_at_Many) (simp_all add: lit_def re_space_def)
  have m2: "match_at (Many slug_char # lit [dquote, CHR '':''] @ [spaces] @ lit ''{'') (r @ [dquote, CHR '':''] @ [CHR '' ''] @ ''{'' @ s) =
      Some ([r, [dquote], '':'', '' '', ''{''], s)"
    using k(3) nq m1 by (subst match_at_Many) (simp_all add: match_at_lit [of "[dquote, CHR '':'']", simplified])
  have m3: "match_at (spaces # lit [dquote] @ lit ''sp-'' @ [One slug_char, Many slug_char] @ lit [dquote, CHR '':''] @ [spaces] @ lit ''{'')
      ([tab] @ [dquote] @ ''sp-'' @ c # r @ [dquote, CHR '':''] @ [CHR '' ''] @ ''{'' @ s) =
      Some ([[tab], [dquote], ''s'', ''p'', ''-'', [c], r, [dquote], '':'', '' '', ''{''], s)"
    using m2 k(2) by (subst match_at_Many) (auto simp: lit_def re_space_def)
  have e: "entryRE = spaces # lit [dquote] @ lit ''sp-'' @ [One slug_char, Many slug_char] @ lit [dquote, CHR '':''] @ [spaces] @ lit ''{''"
    by (simp add: entryRE_def)
  have "concat [[tab], [dquote], ''s'', ''p'', ''-'', [c], r, [dquote], '':'', '' '', ''{''] = [tab] @ Quote is_print k @ '': {''"
    unfolding no_escape_quote(1) [OF skill_key_plain [OF assms]] by (simp add: quoted_def k(1))
  moreover have "group_after key_prefix 5 [[tab], [dquote], ''s'', ''p'', ''-'', [c], r, [dquote], '':'', '' '', ''{''] = k"
    by (simp add: group_after_def k(1) lit_def)
  ultimately show ?thesis
    unfolding q e m3 by blast
qed

lemma group_after_append: "length ps = length pre \<Longrightarrow> group_after pre n (ps @ qs) = concat (take n qs)"
  by (simp add: group_after_def)

text \<open>A value between two delimiters after the name of its field.\<close>

lemma match_field:
  assumes "\<not> re_space c" and "list_all re_space w" and "list_all re_space u" and "\<not> re_space a"
    and "list_all P x" and "\<not> P z"
  shows "\<exists>ps. match_at ([spaces] @ lit ((c # p) @ '':'') @ [spaces] @ lit [a] @ [Many P] @ lit [z])
      (u @ (c # p) @ '':'' @ w @ [a] @ x @ [z] @ s) = Some (ps, s) \<and>
    group_after ([spaces] @ lit ((c # p) @ '':'') @ [spaces] @ lit [a]) 1 ps = x"
proof -
  let ?name = "(c # p) @ '':''"
  let ?ps = "(u # map (\<lambda>c. [c]) ?name @ [w, [a]]) @ [x, [z]]"
  have m1: "match_at (Many P # lit [z]) (x @ [z] @ s) = Some ([x, [z]], s)"
    using assms(5,6) by (subst match_at_Many) (auto simp: lit_def)
  have m2: "match_at (spaces # lit [a] @ [Many P] @ lit [z]) (w @ [a] @ x @ [z] @ s) = Some ([w, [a], x, [z]], s)"
    using assms(2,4) m1 match_at_lit [of "[a]" "Many P # lit [z]" "x @ [z] @ s"] by (subst match_at_Many) simp_all
  have m3: "match_at (lit ?name @ [spaces] @ lit [a] @ [Many P] @ lit [z]) (?name @ w @ [a] @ x @ [z] @ s) =
      Some (map (\<lambda>c. [c]) ?name @ [w, [a], x, [z]], s)"
    unfolding match_at_lit using m2 by simp
  have "starts_off re_space (lit (c # p @ '':'') @ [spaces] @ lit [a] @ [Many P] @ lit [z])"
    using assms(1) by (simp only: starts_off_lit not_False_eq_True)
  then have "match_at (spaces # lit ?name @ [spaces] @ lit [a] @ [Many P] @ lit [z]) (u @ ?name @ w @ [a] @ x @ [z] @ s) = Some (?ps, s)"
    using assms(1,3) m3 by (subst match_at_Many) simp_all
  moreover have "group_after ([spaces] @ lit ?name @ [spaces] @ lit [a]) 1 ?ps = x"
    by (subst group_after_append) (simp_all add: lit_def)
  ultimately show ?thesis by auto
qed

lemma value_of_block:
  assumes "quiets c ls" and "\<not> re_space c" and "list_all re_space w" and "list_all (\<lambda>c. c \<noteq> dquote) x"
  shows "value_of (c # p) (lines_of ls @ [tab, tab] @ (c # p) @ '':'' @ w @ quoted x @ s) = x"
proof -
  obtain ps where ps: "match_at (valueRE (c # p)) ([tab, tab] @ (c # p) @ '':'' @ w @ quoted x @ s) = Some (ps, s)"
      "group_after (value_prefix (c # p)) 1 ps = x"
    using match_field [OF assms(2,3), of "[tab, tab]" dquote "\<lambda>c. c \<noteq> dquote" x dquote p s] assms(4)
    by (auto simp: valueRE_def value_prefix_def quoted_def)
  have "valueRE (c # p) = spaces # lit (c # p @ '':'') @ [spaces] @ lit [dquote] @ [Many (\<lambda>c. c \<noteq> dquote)] @ lit [dquote]"
    by (simp add: valueRE_def value_prefix_def)
  note find = find_quiets [OF assms(1,2), of "p @ '':''" "[spaces] @ lit [dquote] @ [Many (\<lambda>c. c \<noteq> dquote)] @ lit [dquote]",
      folded this]
  show ?thesis
    unfolding value_of_def find re_find_here [OF ps(1)] using ps(2) by simp
qed

section \<open>The list of subdirectories\<close>

lemma match_item:
  assumes "d \<noteq> []" and "list_all lower d"
  shows "\<exists>qs. match_at itemRE (quoted d @ s) = Some (qs, s) \<and> group_after (lit [dquote]) 2 qs = d"
proof -
  obtain c r where d: "d = c # r" "lower c" "list_all lower r" using assms by (cases d) auto
  have nq: "\<not> lower dquote" by (simp add: lower_def byte_def)
  have "match_at (Many lower # lit [dquote]) (r @ [dquote] @ s) = Some ([r, [dquote]], s)"
    using d(3) nq by (subst match_at_Many) (auto simp: lit_def)
  then have "match_at itemRE (quoted d @ s) = Some ([[dquote], [c], r, [dquote]], s)"
    using d(2) by (simp add: itemRE_def quoted_def d(1) lit_def)
  then show ?thesis
    by (simp add: group_after_def d(1) lit_def)
qed

lemma find_items_skip:
  "list_all (\<lambda>c. c \<noteq> dquote) u \<Longrightarrow> re_find False b itemRE (u @ s) = map_option (apfst (append u)) (re_find False True itemRE s)"
proof (induction u arbitrary: b)
  case Nil
  show ?case
    using re_find_unanchored [of b itemRE s True] by (cases "re_find False True itemRE s") auto
next
  case (Cons c u)
  have "match_at itemRE (c # u @ s) = None" using Cons.prems by (auto simp: itemRE_def lit_def)
  then show ?case
    using Cons by (cases "re_find False True itemRE s") (auto simp: re_find.simps [of _ _ _ "c # u @ s"])
qed

lemma solid_itemRE: "solid itemRE"
  by (simp add: itemRE_def)

lemma items_of_join:
  "list_all (\<lambda>d. d \<noteq> [] \<and> list_all lower d) ds \<Longrightarrow> list_all (\<lambda>c. c \<noteq> dquote) u \<Longrightarrow>
   map (\<lambda>(_, qs). group_after (lit [dquote]) 2 qs) (fst (re_split False b itemRE (u @ join '', '' (map quoted ds)))) = ds"
proof (induction ds arbitrary: u b)
  case Nil
  have "re_find False True itemRE [] = None" by (simp add: re_find.simps [of _ _ _ "[]"] itemRE_def lit_def)
  then show ?case using find_items_skip [of u b "[]"] Nil by (simp add: re_split_None)
next
  case (Cons d ds)
  define t where "t = (if ds = [] then [] else '', '' @ join '', '' (map quoted ds))"
  have j: "join '', '' (map quoted (d # ds)) = quoted d @ t" by (cases ds) (simp_all add: t_def)
  obtain qs where qs: "match_at itemRE (quoted d @ t) = Some (qs, t)" "group_after (lit [dquote]) 2 qs = d"
    using match_item [of d t] Cons.prems by auto
  have find: "re_find False b itemRE (u @ quoted d @ t) = Some (u, qs, t)"
    using find_items_skip [of u b "quoted d @ t"] Cons.prems(2) re_find_here [OF qs(1)] by simp
  have "map (\<lambda>(_, qs). group_after (lit [dquote]) 2 qs) (fst (re_split False b' itemRE t)) = ds" for b'
    using Cons.IH [of "if ds = [] then [] else '', ''" b'] Cons.prems(1) by (cases "ds = []") (simp_all add: t_def)
  then show ?case
    unfolding j re_split_Some [OF solid_itemRE find] by (simp add: qs(2))
qed

lemma join_all: "list_all P sep \<Longrightarrow> \<forall>y \<in> set xs. list_all P y \<Longrightarrow> list_all P (join sep xs)"
  by (induction sep xs rule: join.induct) auto

lemma subdirs_of_block:
  assumes "quiets (CHR ''s'') ls" and "list_all (\<lambda>d. d \<noteq> [] \<and> list_all lower d) ds"
  shows "subdirs_of (lines_of ls @ [tab, tab] @ ''subdirs:     ['' @ join '', '' (map quoted ds) @ '']'' @ s) = ds"
proof -
  let ?x = "join '', '' (map quoted ds)"
  have "list_all (\<lambda>c. c \<noteq> CHR '']'') ?x"
  proof (rule join_all)
    have "\<not> lower (CHR '']'')" by (simp add: lower_def byte_def)
    then show "\<forall>y \<in> set (map quoted ds). list_all (\<lambda>c. c \<noteq> CHR '']'') y"
      using assms(2) by (auto simp: list_all_iff quoted_def)
  qed simp
  then obtain ps where ps: "match_at subRE ([tab, tab] @ ''subdirs:     ['' @ ?x @ '']'' @ s) = Some (ps, s)"
      "group_after sub_prefix 1 ps = ?x"
    using match_field [of "CHR ''s''" "''     ''" "[tab, tab]" "CHR ''[''" "\<lambda>c. c \<noteq> CHR '']''" ?x "CHR '']''" "''ubdirs''" s]
    by (auto simp: subRE_def sub_prefix_def re_space_def)
  have "subRE = spaces # lit (CHR ''s'' # ''ubdirs:'') @ [spaces] @ lit ''['' @ [Many (\<lambda>c. c \<noteq> CHR '']'')] @ lit '']''"
    by (simp add: subRE_def sub_prefix_def)
  moreover have "\<not> re_space (CHR ''s'')" by (simp add: re_space_def)
  ultimately have "re_find True True subRE (lines_of ls @ [tab, tab] @ ''subdirs:     ['' @ ?x @ '']'' @ s) = Some (lines_of ls, ps, s)"
    using find_quiets [OF assms(1), of "''ubdirs:''" "[spaces] @ lit ''['' @ [Many (\<lambda>c. c \<noteq> CHR '']'')] @ lit '']''"
        "[tab, tab] @ ''subdirs:     ['' @ ?x @ '']'' @ s"] re_find_here [OF ps(1), of True] by simp
  then show ?thesis
    using items_of_join [OF assms(2), of "[]"] ps(2) by (simp add: subdirs_of_def)
qed

section \<open>The whole catalog\<close>

lemma quietI:
  "newline \<notin> set u \<Longrightarrow> list_all re_space u \<Longrightarrow> \<not> re_space d \<Longrightarrow> d \<noteq> c \<Longrightarrow> newline \<notin> set x \<Longrightarrow> quiet c (u @ d # x)"
  unfolding quiet_def by (subst dropWhile_append2) (auto simp: list_all_iff re_space_def)

lemma quiet_field: "\<not> re_space d \<Longrightarrow> d \<noteq> c \<Longrightarrow> newline \<notin> set x \<Longrightarrow> quiet c ([tab, tab] @ d # x)"
  using quietI [of "[tab, tab]" d c x] by simp

lemma parse_block_fields:
  assumes "wf_entry is_print e" and "Z = [] \<or> Z = [[CHR 0x7D]]"
  shows "parse_block (newline # lines_of (skill_fields is_print k e) @ lines_of Z) = e"
proof -
  let ?q = "Quote is_print"
  note wf = assms(1) [unfolded wf_entry_def]
  let ?n = "[tab, tab] @ ''name:        '' @ ?q k" and ?d = "[tab, tab] @ ''description: '' @ ?q (sk_desc e)"
    and ?p = "[tab, tab] @ ''path:        '' @ ?q (sk_path e)"
  let ?s = "if sk_subdirs e \<noteq> [] then [[tab, tab] @ ''subdirs:     ['' @ join '', '' (map ?q (sk_subdirs e)) @ '']''] else []"
  have B: "newline # lines_of (skill_fields is_print k e) @ lines_of Z =
      lines_of ([[], ?n, ?d, ?p] @ ?s @ [[tab, CHR 0x7D]] @ Z)"
    by (simp add: skill_fields_def)
  have qn: "quiet c ?n" if "c \<noteq> CHR ''n''" for c
    using quiet_field [of "CHR ''n''" c "''ame:        '' @ ?q k"] that by (simp add: re_space_def)
  have qd: "quiet c ?d" if "c \<noteq> CHR ''d''" for c
    using quiet_field [of "CHR ''d''" c "''escription: '' @ ?q (sk_desc e)"] that by (simp add: re_space_def)
  have qp: "quiet c ?p" if "c \<noteq> CHR ''p''" for c
    using quiet_field [of "CHR ''p''" c "''ath:        '' @ ?q (sk_path e)"] that by (simp add: re_space_def)
  have sp: "list_all re_space '' ''" "list_all re_space ''        ''" "\<not> re_space (CHR ''d'')" "\<not> re_space (CHR ''p'')"
    "\<not> re_space (CHR ''s'')"
    by (simp_all add: re_space_def)
  have clean: "?q (sk_desc e) = quoted (sk_desc e)" "list_all (\<lambda>c. c \<noteq> dquote) (sk_desc e)"
    "?q (sk_path e) = quoted (sk_path e)" "list_all (\<lambda>c. c \<noteq> dquote) (sk_path e)"
    using no_escape_quote [of is_print "sk_desc e"] no_escape_quote [of is_print "sk_path e"] wf
    by (auto simp only: list_all_iff)
  have desc: "value_of ''description'' (newline # lines_of (skill_fields is_print k e) @ lines_of Z) = sk_desc e"
  proof -
    have "quiets (CHR ''d'') [[], ?n]" using qn by (simp add: quiets_def)
    from value_of_block [OF this sp(3,1) clean(2), of "''escription''" "newline # lines_of ([?p] @ ?s @ [[tab, CHR 0x7D]] @ Z)"]
    show ?thesis
      unfolding B by (simp add: clean(1))
  qed
  have path: "value_of ''path'' (newline # lines_of (skill_fields is_print k e) @ lines_of Z) = sk_path e"
  proof -
    have "quiets (CHR ''p'') [[], ?n, ?d]" using qn qd by (simp add: quiets_def)
    from value_of_block [OF this sp(4,2) clean(4), of "''ath''" "newline # lines_of (?s @ [[tab, CHR 0x7D]] @ Z)"]
    show ?thesis
      unfolding B by (simp add: clean(3))
  qed
  have sub: "subdirs_of (newline # lines_of (skill_fields is_print k e) @ lines_of Z) = sk_subdirs e"
  proof (cases "sk_subdirs e = []")
    case True
    have ends: "quiet (CHR ''s'') [tab, CHR 0x7D]" "quiet (CHR ''s'') [CHR 0x7D]"
      using quietI [of "[tab]" "CHR 0x7D" "CHR ''s''" "[]"] quietI [of "[]" "CHR 0x7D" "CHR ''s''" "[]"]
      by (simp_all add: re_space_def)
    have "quiet (CHR ''s'') ?n" "quiet (CHR ''s'') ?d" "quiet (CHR ''s'') ?p"
      by (rule qn qd qp, simp)+
    with ends have "quiets (CHR ''s'') ([[], ?n, ?d, ?p] @ ?s @ [[tab, CHR 0x7D]] @ Z)"
      using assms(2) by (elim disjE) (simp_all add: quiets_def True)
    from find_quiets [OF this sp(5), of "''ubdirs:''" "[spaces] @ lit ''['' @ [Many (\<lambda>c. c \<noteq> CHR '']'')] @ lit '']''" "[]"]
    have "re_find True True subRE (lines_of ([[], ?n, ?d, ?p] @ ?s @ [[tab, CHR 0x7D]] @ Z)) = None"
      by (simp add: subRE_def sub_prefix_def find_nothing del: lines_of_simps)
    then show ?thesis
      unfolding B by (simp add: subdirs_of_def True del: lines_of_simps)
  next
    case False
    have q: "map ?q (sk_subdirs e) = map quoted (sk_subdirs e)"
    proof (rule map_cong [OF refl])
      fix d
      assume "d \<in> set (sk_subdirs e)"
      then have "list_all slug_char d" using wf lower_slug by (auto simp: list_all_iff)
      then have "no_escape is_print d"
        by (intro plain_no_escape) (rule list.pred_mono_strong, assumption, rule slug_plain)
      then show "?q d = quoted d" by (rule no_escape_quote(1))
    qed
    have "quiets (CHR ''s'') [[], ?n, ?d, ?p]" using qn qd qp by (simp add: quiets_def)
    from subdirs_of_block [OF this, of "sk_subdirs e" "newline # lines_of ([[tab, CHR 0x7D]] @ Z)"]
    show ?thesis
      unfolding B q using wf False by simp
  qed
  show ?thesis
    unfolding parse_block_def desc path sub by simp
qed

definition skills_text :: "(nat \<Rightarrow> bool) \<Rightarrow> (string, skillEntry) gomap \<Rightarrow> string" where
  "skills_text is_print es = lines_of (concat (map (skill_lines is_print) es) @ [[CHR 0x7D]])"

definition skill_block :: "(nat \<Rightarrow> bool) \<Rightarrow> string \<times> skillEntry \<Rightarrow> string" where
  "skill_block is_print = (\<lambda>(k, e). newline # lines_of (skill_fields is_print k e))"

text \<open>The texts between the entries, from a first one to the one that ends the file.\<close>

fun chain :: "(nat \<Rightarrow> bool) \<Rightarrow> string \<Rightarrow> (string, skillEntry) gomap \<Rightarrow> string list" where
  "chain is_print S [] = [S @ lines_of [[CHR 0x7D]]]"
| "chain is_print S (x # es) = S # chain is_print (skill_block is_print x) es"

lemma skills_text_Cons:
  "skills_text is_print ((k, e) # es) =
     [tab] @ Quote is_print k @ '': {'' @ skill_block is_print (k, e) @ skills_text is_print es"
  by (simp add: skills_text_def skill_lines_def skill_block_def)

lemma entryRE_eq:
  "entryRE = spaces # lit (dquote # []) @ lit ''sp-'' @ [One slug_char, Many slug_char] @ lit [dquote, CHR '':''] @ [spaces] @ lit ''{''"
  by (simp add: entryRE_def)

lemma solid_entryRE: "solid entryRE"
  by (simp only: entryRE_def solid_append solid_lit simp_thms)

lemmas find_entry = find_quiets [of dquote _ "[]" "lit ''sp-'' @ [One slug_char, Many slug_char] @ lit [dquote, CHR '':''] @ [spaces] @ lit ''{''",
  folded entryRE_eq]

lemma find_after_block:
  "re_find True False entryRE (skill_block is_print x @ s) =
     map_option (apfst (append (skill_block is_print x))) (re_find True True entryRE s)"
proof -
  obtain k e where x: "x = (k, e)" by fastforce
  have lines: "quiet dquote ([tab, tab] @ d # y)" if "\<not> re_space d" "d \<noteq> dquote" "newline \<notin> set y" for d y
    using that by (rule quiet_field)
  have "newline \<notin> set (join '', '' (map (Quote is_print) ds))" for ds
    using join_all [of "\<lambda>c. c \<noteq> newline" "'', ''" "map (Quote is_print) ds"] by (auto simp: list_all_iff) (metis Quote_line)
  then have "quiets dquote (skill_fields is_print k e)"
    using lines [of "CHR ''n''" "''ame:        '' @ Quote is_print k"] lines [of "CHR ''d''" "''escription: '' @ Quote is_print (sk_desc e)"]
      lines [of "CHR ''p''" "''ath:        '' @ Quote is_print (sk_path e)"]
      lines [of "CHR ''s''" "''ubdirs:     ['' @ join '', '' (map (Quote is_print) (sk_subdirs e)) @ '']''"]
      quietI [of "[tab]" "CHR 0x7D" dquote "[]"]
    by (simp add: quiets_def skill_fields_def re_space_def)
  from find_entry [OF this] show ?thesis
    using re_find_inner [of "[]" entryRE "lines_of (skill_fields is_print k e) @ s"]
    by (cases "re_find True True entryRE s") (auto simp: x skill_block_def)
qed

lemma split_skills:
  assumes "list_all (skill_key \<circ> fst) es"
    and "\<And>s. re_find True b entryRE (S @ s) = map_option (apfst (append S)) (re_find True True entryRE s)"
  shows "\<exists>ms t. re_split True b entryRE (S @ skills_text is_print es) = (ms, t) \<and>
    map (\<lambda>(_, ps). group_after key_prefix 5 ps) ms = map fst es \<and> map fst ms @ [t] = chain is_print S es"
  using assms
proof (induction es arbitrary: b S)
  case Nil
  have "quiets dquote [[CHR 0x7D]]"
    using quietI [of "[]" "CHR 0x7D" dquote "[]"] by (simp add: quiets_def re_space_def)
  from find_entry [OF this, of "[]"] have "re_find True True entryRE (skills_text is_print []) = None"
    unfolding entryRE_eq by (simp add: skills_text_def find_nothing)
  then show ?case
    using Nil(2) [of "skills_text is_print []"] by (simp add: re_split_None) (simp add: skills_text_def)
next
  case (Cons x es)
  obtain k e where x: "x = (k, e)" by fastforce
  let ?r = "skill_block is_print x @ skills_text is_print es"
  have key: "skill_key k" using Cons.prems(1) by (simp add: x)
  from match_entry_line [OF this, of is_print ?r] obtain ps where ps:
    "match_at entryRE (skills_text is_print (x # es)) = Some (ps, ?r)" "concat ps = [tab] @ Quote is_print k @ '': {''"
    "group_after key_prefix 5 ps = k"
    unfolding x skills_text_Cons by blast
  have find: "re_find True b entryRE (S @ skills_text is_print (x # es)) = Some (S, ps, ?r)"
    using Cons.prems(2) re_find_here [OF ps(1)] by simp
  have bol: "(last (concat ps) = newline) = False" unfolding ps(2) by simp
  obtain ms t where rec: "re_split True False entryRE ?r = (ms, t)"
    "map (\<lambda>(_, ps). group_after key_prefix 5 ps) ms = map fst es" "map fst ms @ [t] = chain is_print (skill_block is_print x) es"
    using Cons.IH [OF _ find_after_block [of is_print x]] Cons.prems(1) unfolding list.pred_inject by blast
  have "re_split True b entryRE (S @ skills_text is_print (x # es)) = ((S, ps) # ms, t)"
    unfolding re_split_Some [OF solid_entryRE find] bol rec(1) by simp
  then show ?case
    using rec(2,3) ps(3) by (simp add: x)
qed

lemma parse_chain:
  assumes "list_all (wf_entry is_print \<circ> snd) (x # es)"
  shows "map parse_block (chain is_print (skill_block is_print x) es) = map snd (x # es)"
  using assms
proof (induction es arbitrary: x)
  case Nil
  then show ?case
    using parse_block_fields [of is_print "snd x" "[[CHR 0x7D]]" "fst x"] by (auto simp: skill_block_def split: prod.split)
next
  case (Cons y es)
  have "parse_block (skill_block is_print x) = snd x"
    using parse_block_fields [of is_print "snd x" "[]" "fst x"] Cons.prems by (auto simp: skill_block_def split: prod.split)
  then show ?case using Cons by simp
qed

lemma header_quiet: "quiets dquote skills_header"
  by code_simp

definition wf_skills :: "(nat \<Rightarrow> bool) \<Rightarrow> (string, skillEntry) gomap \<Rightarrow> bool" where
  "wf_skills is_print es \<longleftrightarrow> distinct (keys es) \<and> list_all (\<lambda>(k, e). skill_key k \<and> wf_entry is_print e) es"

lemma parse_skills_text:
  assumes "wf_skills is_print es"
  shows "parse_skills (lines_of skills_header @ skills_text is_print es) = es"
proof -
  let ?S = "lines_of skills_header"
  have keys: "list_all (skill_key \<circ> fst) es" and ent: "list_all (wf_entry is_print \<circ> snd) es"
    using assms by (auto simp: wf_skills_def list_all_iff)
  have "re_find True True entryRE (?S @ s) = map_option (apfst (append ?S)) (re_find True True entryRE s)" for s
    by (rule find_entry [OF header_quiet]) simp
  from split_skills [OF keys this] obtain ms t where
    split: "re_split True True entryRE (?S @ skills_text is_print es) = (ms, t)"
    and ks: "map (\<lambda>(_, ps). group_after key_prefix 5 ps) ms = map fst es" and ch: "map fst ms @ [t] = chain is_print ?S es"
    by blast
  have bs: "map parse_block (map fst (tl ms) @ [t]) = map snd es" if ne: "es \<noteq> []"
  proof -
    obtain x es' where es: "es = x # es'" using ne by (cases es) auto
    have "map fst (tl ms) @ [t] = chain is_print (skill_block is_print x) es'"
      using ch ks by (cases ms) (auto simp: es)
    then show ?thesis using parse_chain [of is_print x es'] ent by (simp add: es)
  qed
  have upd: "(\<lambda>out (k, block). AList.update k (parse_block block) out) =
      (\<lambda>out x. AList.update (fst x) (parse_block (snd x)) out)"
    by (auto simp: fun_eq_iff)
  have parse: "parse_skills (?S @ skills_text is_print es) =
      foldl (\<lambda>out x. AList.update (fst x) (parse_block (snd x)) out) [] (zip (map fst es) (map fst (tl ms) @ [t]))"
    unfolding parse_skills_def split prod.case ks upd ..
  show ?thesis
  proof (cases "es = []")
    case False
    let ?z = "zip (map fst es) (map fst (tl ms) @ [t])"
    have len: "length (map fst (tl ms) @ [t]) = length es"
      using bs [OF False] by (metis length_map)
    then have fsts: "map fst ?z = keys es" and snds: "map parse_block (map snd ?z) = map snd es"
      using bs [OF False] by simp_all
    have pairs: "map (\<lambda>x. (fst x, parse_block (snd x))) z = zip (map fst z) (map parse_block (map snd z))" for z
      by (induction z) auto
    have "distinct (map fst ?z)" using assms fsts by (simp add: wf_skills_def)
    from foldl_update_distinct [OF this, of "\<lambda>x. parse_block (snd x)"] have "parse_skills (?S @ skills_text is_print es) = zip (map fst ?z) (map parse_block (map snd ?z))"
      unfolding parse pairs .
    then show ?thesis unfolding fsts snds by (simp add: zip_map_fst_snd)
  qed (use parse in simp)
qed

section \<open>The catalog as a table\<close>

definition sorted_entries :: "(string, skillEntry) gomap \<Rightarrow> (string, skillEntry) gomap" where
  "sorted_entries m = map (\<lambda>k. (k, get_or \<lparr>sk_desc = [], sk_path = [], sk_subdirs = []\<rparr> m k)) (sort (keys m))"

lemma render_skills_eq: "render_skills is_print m = lines_of skills_header @ skills_text is_print (sorted_entries m)"
  by (simp add: render_skills_def skills_text_def sorted_entries_def comp_def)

lemma wf_skills_iff:
  "wf_skills is_print m \<longleftrightarrow> distinct (keys m) \<and> (\<forall>k e. map_of m k = Some e \<longrightarrow> skill_key k \<and> wf_entry is_print e)"
  by (auto simp: wf_skills_def list_all_iff dest: map_of_SomeD)

lemma map_of_sorted_entries: "map_of (sorted_entries m) = map_of m"
proof
  fix k
  have "map_of (map (\<lambda>k. (k, f k)) xs) k = (if k \<in> set xs then Some (f k) else None)" for f :: "string \<Rightarrow> skillEntry" and xs
    by (induction xs) auto
  then show "map_of (sorted_entries m) k = map_of m k"
    by (cases "map_of m k")
      (auto simp: sorted_entries_def get_or_def map_of_eq_None_iff [symmetric] dest: map_of_SomeD intro: rev_image_eqI)
qed

lemma wf_sorted_entries: "wf_skills is_print m \<Longrightarrow> wf_skills is_print (sorted_entries m)"
  unfolding wf_skills_iff map_of_sorted_entries by (simp add: sorted_entries_def comp_def)

lemma wf_skills_update:
  "wf_skills is_print m \<Longrightarrow> skill_key k \<Longrightarrow> wf_entry is_print e \<Longrightarrow> wf_skills is_print (AList.update k e m)"
  unfolding wf_skills_iff by (auto simp: update_conv' distinct_update)

theorem parse_render_skills: "wf_skills is_print m \<Longrightarrow> parse_skills (render_skills is_print m) = sorted_entries m"
  unfolding render_skills_eq by (rule parse_skills_text [OF wf_sorted_entries])

text \<open>
  C24 (\<open>upsertSkillCatalog\<close>). On a catalog that is missing or holds the rendering of a table whose
  strings need no escape, a successful call leaves the rendering of that table with the entry of
  the skill put in or replaced, and the table can be read back; every other entry is kept, and no
  other file changes. When the entry is there already the disk does not change.
\<close>

theorem upsertSkillCatalog_refines:
  assumes "wf_skills is_print es" and "skill_key name"
    and new: "new = \<lparr>sk_desc = desc, sk_path = brickPath, sk_subdirs = subdirs\<rparr>" "wf_entry is_print new"
    and file_es: "ReadFile (dk_fs dk) (skills_file rootDir) = ReadData (render_skills is_print es) \<or>
      ReadFile (dk_fs dk) (skills_file rootDir) = NotExist \<and> es = []"
    and ok: "upsertSkillCatalog is_print rootDir name desc brickPath subdirs dk = (dk', Inr ())"
  shows "\<exists>es'. wf_skills is_print es' \<and> map_of es' = (map_of es)(name \<mapsto> new) \<and>
      file_data (dk_fs dk') = (file_data (dk_fs dk))(skills_file rootDir \<mapsto> render_skills is_print es') \<and>
      map_of (parse_skills (render_skills is_print es')) = map_of es' \<and> (map_of es name = Some new \<longrightarrow> dk' = dk)"
proof -
  obtain es0 where es0: "parseSkillCatalog (skills_file rootDir) dk = Inr es0" "wf_skills is_print es0" "map_of es0 = map_of es"
    using file_es
  proof
    assume "ReadFile (dk_fs dk) (skills_file rootDir) = ReadData (render_skills is_print es)"
    then show ?thesis
      using that [of "sorted_entries es"] parse_skills_text [OF wf_sorted_entries [OF assms(1)]] wf_sorted_entries [OF assms(1)]
      by (simp add: parseSkillCatalog_def map_of_sorted_entries render_skills_eq)
  next
    assume "ReadFile (dk_fs dk) (skills_file rootDir) = NotExist \<and> es = []"
    then show ?thesis using that [of "[]"] by (simp add: parseSkillCatalog_def wf_skills_def)
  qed
  define es' where "es' = AList.update name new es0"
  have wf: "wf_skills is_print es'" and map: "map_of es' = (map_of es)(name \<mapsto> new)"
    using wf_skills_update [OF es0(2) assms(2) new(2)] by (simp_all add: es'_def update_conv' es0(3))
  have run: "upsertSkillCatalog is_print rootDir name desc brickPath subdirs dk =
      (if ReadFile (dk_fs dk) (skills_file rootDir) = ReadData (render_skills is_print es') then (dk, Inr ())
       else case WriteFile (skills_file rootDir) (render_skills is_print es') 420 (dk_fs dk) of
              None \<Rightarrow> (dk, Inl (SkillWriteErr (skills_file rootDir))) | Some fs \<Rightarrow> (dk\<lparr>dk_fs := fs\<rparr>, Inr ()))"
    by (simp add: upsertSkillCatalog_def Let_def es0(1) es'_def new(1))
  have data: "file_data (dk_fs dk') = (file_data (dk_fs dk))(skills_file rootDir \<mapsto> render_skills is_print es')"
    using ok unfolding run
    by (auto simp: ReadFile_data fun_upd_idem_iff dest: WriteFile_data split: if_splits option.splits)
  have "dk' = dk" if "map_of es name = Some new"
  proof -
    have same: "map_of es' = map_of es" using map that by auto
    then have "set (keys es') = set (keys es)" "distinct (keys es')" "distinct (keys es)"
      using wf assms(1) by (auto simp: wf_skills_def dom_map_of_conv_image_fst [symmetric])
    then have "sort (keys es') = sort (keys es)" by (simp add: sorted_distinct_set_unique)
    then have "render_skills is_print es' = render_skills is_print es"
      using same by (simp add: render_skills_def get_or_def)
    moreover have "ReadFile (dk_fs dk) (skills_file rootDir) = ReadData (render_skills is_print es)"
      using file_es that by auto
    ultimately show ?thesis using ok unfolding run by simp
  qed
  then show ?thesis
    using wf map data parse_skills_text [OF wf_sorted_entries [OF wf]]
    by (intro exI [of _ es']) (simp add: render_skills_eq map_of_sorted_entries)
qed

theorem upsertSkillCatalog_refines_witness:
  "\<exists>dk' es'. upsertSkillCatalog (\<lambda>_. False) ''r'' ''sp-a'' ''d'' ''p'' [''scripts''] empty_disk = (dk', Inr ()) \<and>
     map_of es' = [''sp-a'' \<mapsto> \<lparr>sk_desc = ''d'', sk_path = ''p'', sk_subdirs = [''scripts'']\<rparr>] \<and>
     file_data (dk_fs dk') (skills_file ''r'') = Some (render_skills (\<lambda>_. False) es')"
proof -
  let ?new = "\<lparr>sk_desc = ''d'', sk_path = ''p'', sk_subdirs = [''scripts'']\<rparr>"
  have "skill_key ''sp-a''" by (simp add: skill_key_def slug_char_def lower_def byte_def)
  moreover have "wf_entry (\<lambda>_. False) ?new"
    by (simp add: wf_entry_def no_escape_def runes_ascii lower_def byte_def)
  moreover have "wf_skills (\<lambda>_. False) []" by (simp add: wf_skills_def)
  moreover have read: "ReadFile (dk_fs empty_disk) (skills_file ''r'') = NotExist \<and> ([] :: (string, skillEntry) gomap) = []"
    by (simp add: ReadFile_def empty_disk_def empty_fs_def)
  moreover obtain dk' where ok: "upsertSkillCatalog (\<lambda>_. False) ''r'' ''sp-a'' ''d'' ''p'' [''scripts''] empty_disk = (dk', Inr ())"
    using read by (simp add: upsertSkillCatalog_def parseSkillCatalog_def Let_def WriteFile_def empty_disk_def empty_fs_def)
  ultimately obtain es' where "map_of es' = (map_of [])(''sp-a'' \<mapsto> ?new)"
    "file_data (dk_fs dk') = (file_data (dk_fs empty_disk))(skills_file ''r'' \<mapsto> render_skills (\<lambda>_. False) es')"
    using upsertSkillCatalog_refines [OF _ _ refl _ _ ok, of "[]"] by blast
  with ok show ?thesis by fastforce
qed

text \<open>
  A quote in a description is written as \<open>\"\<close>, but the reader stops at the first quote: the next
  stamp of any skill cuts the description short.
\<close>

lemma quoted_description_truncated:
  "parse_skills (render_skills (\<lambda>_. False) [(''sp-a'', \<lparr>sk_desc = ''x'' @ [dquote] @ ''y'', sk_path = ''p'', sk_subdirs = []\<rparr>)]) =
     [(''sp-a'', \<lparr>sk_desc = ''x'' @ [backslash], sk_path = ''p'', sk_subdirs = []\<rparr>)]"
  by code_simp

section \<open>What a stamp of a skill touches\<close>

definition skill_md_file :: "string \<Rightarrow> string \<Rightarrow> string" where
  "skill_md_file rootDir name = fp_join [rootDir, ''root/skills/'' @ name, ''SKILL.md'']"

lemma upsertSkillCatalog_agree:
  "upsertSkillCatalog is_print rootDir name desc p sds dk = (dk', r) \<Longrightarrow> agree_on (- {skills_file rootDir}) (dk_fs dk') (dk_fs dk)"
  by (auto simp: upsertSkillCatalog_def Let_def intro: WriteFile_agree split: sum.splits if_splits option.splits)

lemma scaffoldSkillMD_effect:
  assumes "scaffoldSkillMD rootDir (''root/skills/'' @ name) name desc dk = (dk', r)"
  shows "agree_on (- {skill_md_file rootDir name}) (dk_fs dk') (dk_fs dk)"
    and "fs_files (dk_fs dk) (skill_md_file rootDir name) \<noteq> None \<Longrightarrow> dk' = dk"
    and "r = Inr () \<Longrightarrow> stat_ok (skill_md_file rootDir name) dk'"
proof -
  show "agree_on (- {skill_md_file rootDir name}) (dk_fs dk') (dk_fs dk)"
    using assms unfolding scaffoldSkillMD_def Let_def skill_md_file_def [symmetric]
    by (auto simp: MkdirAll_fs dest!: WriteFile_agree split: if_splits option.splits)
  show "fs_files (dk_fs dk) (skill_md_file rootDir name) \<noteq> None \<Longrightarrow> dk' = dk"
    using assms unfolding scaffoldSkillMD_def Let_def skill_md_file_def [symmetric] by (simp add: stat_ok_def)
  show "r = Inr () \<Longrightarrow> stat_ok (skill_md_file rootDir name) dk'"
    using assms unfolding scaffoldSkillMD_def Let_def skill_md_file_def [symmetric]
    by (auto simp: stat_ok_def WriteFile_def Let_def split: if_splits option.splits)
qed

lemma make_subdirs_fs:
  "make_subdirs rootDir p sds dk = (dk', r) \<Longrightarrow> dk_fs dk' = dk_fs dk \<and> (stat_ok q dk \<longrightarrow> stat_ok q dk')"
proof (induction sds arbitrary: dk)
  case (Cons sd sds)
  show ?case
  proof (cases "MkdirAll (fp_join [rootDir, p, sd]) dk")
    case (Some dk1)
    then show ?thesis
      using Cons.IH [of dk1] Cons.prems by (auto simp: MkdirAll_def stat_ok_def split: if_splits)
  qed (use Cons.prems in auto)
qed simp

lemma skill_files_apart:
  "skill_md_file rootDir name \<noteq> skills_file rootDir" "skill_md_file rootDir name \<noteq> brick_file rootDir p"
proof -
  have md: "fp_base (skill_md_file rootDir name) = ''SKILL.md''"
    unfolding skill_md_file_def by (simp add: fp_join3 fp_base_join plain_part_def)
  have "skills_file rootDir = fp_join [rootDir, ''kernel/catalog'', ''skills.cue'']"
    by (simp add: skills_file_def fp_join_def)
  then have "fp_base (skills_file rootDir) = ''skills.cue''"
    by (simp add: fp_join3 fp_base_join plain_part_def)
  with md show "skill_md_file rootDir name \<noteq> skills_file rootDir" by auto
  show "skill_md_file rootDir name \<noteq> brick_file rootDir p"
    using md brick_file_base [of rootDir p] by auto
qed

lemma skill_args: "stamp_args ''skill'' (''root/skills/'' @ name) = Inr (''kernel/interface/skill'', ''root/skills/'' @ name)"
  by (simp add: stamp_args_def InterfaceMap_def canonical_path_def goStampTypes_def get_or_def has_prefix_iff)

text \<open>The steps of a stamp whose arguments are accepted.\<close>

lemma StampSkill_steps:
  assumes ok: "skillNameRE name \<and> desc \<noteq> '''' \<and> find (\<lambda>sd. \<not> get_or False skillSubdirAllowed sd) subdirs = None"
    and up: "upsertSkillCatalog is_print rootDir name desc (''root/skills/'' @ name) (sort subdirs) dk = (dk1, r1)"
    and br: "StampBrick is_print rootDir ''skill'' (''root/skills/'' @ name) desc [] dk1 = (dk2, r2)"
    and sc: "scaffoldSkillMD rootDir (''root/skills/'' @ name) name desc dk2 = (dk3, r3)"
  shows "StampSkill is_print rootDir name desc subdirs dk = (case r1 of Inl e \<Rightarrow> (dk1, Inl e)
      | Inr _ \<Rightarrow> (case r2 of Inl e \<Rightarrow> (dk2, Inl (SkillBrickErr e))
          | Inr _ \<Rightarrow> (case r3 of Inl e \<Rightarrow> (dk3, Inl e)
              | Inr _ \<Rightarrow> make_subdirs rootDir (''root/skills/'' @ name) (sort subdirs) dk3)))"
  using ok unfolding StampSkill_def Let_def
  by (cases r1; cases r2; cases r3)
    (simp_all only: up br sc prod.case sum.case option.case simp_thms if_False if_True not_True_eq_False not_False_eq_True)

lemma StampSkill_refused:
  assumes "\<not> (skillNameRE name \<and> desc \<noteq> '''' \<and> find (\<lambda>sd. \<not> get_or False skillSubdirAllowed sd) subdirs = None)"
  shows "\<exists>e. StampSkill is_print rootDir name desc subdirs dk = (dk, Inl e)"
  using assms by (auto simp: StampSkill_def split: option.splits)

text \<open>
  C29 (\<open>StampSkill\<close>). A stamp writes at most the catalog of skills, the catalog entry of the brick
  and \<open>SKILL.md\<close>, and never a \<open>SKILL.md\<close> that exists, whatever the answer. After success the brick
  is registered and its \<open>SKILL.md\<close> is there.
\<close>

theorem StampSkill_preserves:
  assumes run: "StampSkill is_print rootDir name desc subdirs dk = (dk', r)"
  shows "agree_on (- {skills_file rootDir, brick_file rootDir (''root/skills/'' @ name), skill_md_file rootDir name}) (dk_fs dk') (dk_fs dk) \<and>
    (fs_files (dk_fs dk) (skill_md_file rootDir name) \<noteq> None \<longrightarrow>
       fs_files (dk_fs dk') (skill_md_file rootDir name) = fs_files (dk_fs dk) (skill_md_file rootDir name)) \<and>
    (r = Inr () \<longrightarrow> skillNameRE name \<and> stat_ok (skill_md_file rootDir name) dk' \<and>
       file_data (dk_fs dk') (brick_file rootDir (''root/skills/'' @ name)) =
         Some (brick_entry is_print ''skill'' ''kernel/interface/skill'' (''root/skills/'' @ name) desc
                 (stamp_cfg (''root/skills/'' @ name) [])))"
proof -
  let ?p = "''root/skills/'' @ name"
  let ?sk = "skills_file rootDir" and ?br = "brick_file rootDir ?p" and ?md = "skill_md_file rootDir name"
  let ?A = "- {?sk, ?br, ?md}"
  let ?ok = "skillNameRE name \<and> desc \<noteq> '''' \<and> find (\<lambda>sd. \<not> get_or False skillSubdirAllowed sd) subdirs = None"
  show ?thesis
  proof (cases ?ok)
    case False
    then show ?thesis using StampSkill_refused [OF False, of is_print rootDir dk] run by auto
  next
    case True
    obtain dk1 r1 where up: "upsertSkillCatalog is_print rootDir name desc ?p (sort subdirs) dk = (dk1, r1)" by fastforce
    obtain dk2 r2 where br: "StampBrick is_print rootDir ''skill'' ?p desc [] dk1 = (dk2, r2)" by fastforce
    obtain dk3 r3 where sc: "scaffoldSkillMD rootDir ?p name desc dk2 = (dk3, r3)" by fastforce
    note run' = StampSkill_steps [OF True up br sc, unfolded run]
    have a1: "agree_on (- {?sk}) (dk_fs dk1) (dk_fs dk)" by (rule upsertSkillCatalog_agree [OF up])
    have entry: "stamp_entry rootDir ?p ?br (brick_entry is_print ''skill'' ''kernel/interface/skill'' ?p desc (stamp_cfg ?p [])) dk1 = (dk2, r2)"
      using br True unfolding StampBrick_eq skill_args by (simp add: stamp_desc_def)
    note e2 = stamp_entry_fs [OF entry]
    note e3 = scaffoldSkillMD_effect [OF sc]
    have ag: "agree_on ?A (dk_fs dk1) (dk_fs dk)" "agree_on ?A (dk_fs dk2) (dk_fs dk)" "agree_on ?A (dk_fs dk3) (dk_fs dk)"
      using a1 e2(1) e3(1) by (auto simp: agree_on_def)
    have md: "fs_files (dk_fs dk1) ?md = fs_files (dk_fs dk) ?md" "fs_files (dk_fs dk2) ?md = fs_files (dk_fs dk) ?md"
      using a1 e2(1) skill_files_apart by (auto simp: agree_on_def)
    have br3: "file_data (dk_fs dk3) ?br = file_data (dk_fs dk2) ?br"
      using e3(1) skill_files_apart(2) [of rootDir name ?p] by (auto simp: agree_on_def file_data_def)
    have sub: "dk_fs dk4 = dk_fs dk3 \<and> (stat_ok ?md dk3 \<longrightarrow> stat_ok ?md dk4)"
      if "make_subdirs rootDir ?p (sort subdirs) dk3 = (dk4, q)" for dk4 q
      using make_subdirs_fs [OF that] by blast
    show ?thesis
    proof (cases "isl r1 \<or> isl r2 \<or> isl r3")
      case True
      then show ?thesis
        using run' ag md e3(2) by (cases r1; cases r2; cases r3) auto
    next
      case False
      then obtain u2 where r: "r2 = Inr u2" and ms: "make_subdirs rootDir ?p (sort subdirs) dk3 = (dk', r)" and "r3 = Inr ()"
        using run' by (cases r1; cases r2; cases r3) auto
      from sub [OF ms] show ?thesis
        using ag(3) md e3(2,3) e2(2) [OF r] br3 True \<open>r3 = Inr ()\<close> by auto
    qed
  qed
qed

theorem StampSkill_preserves_witness:
  "\<exists>dk' r. StampSkill (\<lambda>_. False) ''r'' ''sp-a'' ''d'' [''scripts''] empty_disk = (dk', r) \<and>
     agree_on (- {skills_file ''r'', brick_file ''r'' (''root/skills/'' @ ''sp-a''), skill_md_file ''r'' ''sp-a''}) (dk_fs dk') (dk_fs empty_disk)"
proof -
  obtain dk' r where run: "StampSkill (\<lambda>_. False) ''r'' ''sp-a'' ''d'' [''scripts''] empty_disk = (dk', r)" by fastforce
  from StampSkill_preserves [OF this] run show ?thesis by blast
qed

end
