(* ===== verification/Mirror.thy ===== *)
theory Mirror
  imports GoRe Stamp
begin

text \<open>
  \<open>lib/stamp/catalog.go\<close> and \<open>lib/stamp/mirror.go\<close>: edits of shared catalog files, and the bump
  of an image in \<open>kernel/catalog/mirrors.cue\<close>, which rewrites key, source, tag and digest of an
  entry at once. The commands \<open>crane\<close> and \<open>cue\<close> are the parameter \<open>sh\<close>: it gets the directory,
  the arguments and the disk, and gives the disk and the trimmed output, \<open>None\<close> when it fails.
  Names are valid UTF-8, so that \<open>regexp.MustCompile\<close> accepts them.
\<close>

section \<open>Catalog files\<close>

type_synonym shell = "string \<Rightarrow> string list \<Rightarrow> disk \<Rightarrow> disk \<times> string option"

datatype catalog_error =
    ReadNotExist string | ReadFailed string | MkdirFailed string | WriteFailed string
  | EntriesMatch nat string string | CraneDigest string | CueFmt | BumpFailed string catalog_error
  | SliceOutOfRange

definition ReadFile_stamp :: "string \<Rightarrow> string \<Rightarrow> disk \<Rightarrow> catalog_error + string" where
  "ReadFile_stamp rootDir path dk =
     (case ReadFile (dk_fs dk) (fp_join [rootDir, path]) of
        ReadData d \<Rightarrow> Inr d
      | NotExist \<Rightarrow> Inl (ReadNotExist path)
      | ReadErr \<Rightarrow> Inl (ReadFailed path))"

definition UpdateFile :: "string \<Rightarrow> string \<Rightarrow> string \<Rightarrow> disk \<Rightarrow> disk \<times> (catalog_error + unit)" where
  "UpdateFile rootDir path content dk =
     (case WriteFile (fp_join [rootDir, path]) content 420 (dk_fs dk) of
        None \<Rightarrow> (dk, Inl (WriteFailed path))
      | Some fs \<Rightarrow> (dk\<lparr>dk_fs := fs\<rparr>, Inr ()))"

definition WriteFile_stamp :: "string \<Rightarrow> string \<Rightarrow> string \<Rightarrow> disk \<Rightarrow> disk \<times> (catalog_error + unit)" where
  "WriteFile_stamp rootDir path content dk =
     (let fullPath = fp_join [rootDir, path]; dir = fp_dir fullPath in
      case MkdirAll dir dk of
        None \<Rightarrow> (dk, Inl (MkdirFailed dir))
      | Some dk1 \<Rightarrow>
          (case WriteFile fullPath content 420 (dk_fs dk1) of
             None \<Rightarrow> (dk1, Inl (WriteFailed path))
           | Some fs \<Rightarrow> (dk1\<lparr>dk_fs := fs\<rparr>, Inr ())))"

text \<open>\<open>strings.Index\<close>.\<close>

fun str_index :: "string \<Rightarrow> string \<Rightarrow> nat option" where
  "str_index [] sub = (if sub = [] then Some 0 else None)"
| "str_index (c # s) sub = (if has_prefix (c # s) sub then Some 0 else map_option Suc (str_index s sub))"

definition EntryExists :: "string \<Rightarrow> string \<Rightarrow> bool" where
  "EntryExists content key \<longleftrightarrow> str_index content key \<noteq> None"

fun InsertBeforeMarker :: "string \<Rightarrow> string \<Rightarrow> string list \<Rightarrow> string \<times> bool" where
  "InsertBeforeMarker content entry [] = (content, False)"
| "InsertBeforeMarker content entry (marker # markers) =
     (case str_index content marker of
        Some idx \<Rightarrow> (take idx content @ entry @ drop idx content, True)
      | None \<Rightarrow> InsertBeforeMarker content entry markers)"

abbreviation rbrace :: char where
  "rbrace \<equiv> CHR 0x7D"

text \<open>\<open>strings.LastIndex\<close> of one byte.\<close>

definition last_index :: "string \<Rightarrow> char \<Rightarrow> nat option" where
  "last_index s c =
     (if c \<in> set s then Some (length s - 1 - length (takeWhile (\<lambda>d. d \<noteq> c) (List.rev s))) else None)"

definition InsertBeforeLastBrace :: "string \<Rightarrow> string \<Rightarrow> string \<times> bool" where
  "InsertBeforeLastBrace content entry =
     (case last_index content rbrace of
        None \<Rightarrow> (content, False)
      | Some idx \<Rightarrow> (take idx content @ entry @ drop idx content, True))"

definition CueKey :: "(nat \<Rightarrow> bool) \<Rightarrow> string \<Rightarrow> string" where
  "CueKey is_print name = (if CHR ''-'' \<in> set name then Quote is_print name else name)"

definition CueIdent :: "string \<Rightarrow> string" where
  "CueIdent name = map (\<lambda>c. if c = CHR ''-'' then CHR ''_'' else c) name"

section \<open>Entries of the mirror catalog\<close>

definition mirrors_cue :: string where
  "mirrors_cue = ''kernel/catalog/mirrors.cue''"

text \<open>White space with a newline in it, as in \<open>\s*\n\s*\<close>.\<close>

abbreviation break :: "atom list" where
  "break \<equiv> [spaces, One ((=) newline), spaces]"

abbreviation unquoted :: atom where
  "unquoted \<equiv> Many (\<lambda>c. c \<noteq> dquote)"

definition entryPattern :: "string \<Rightarrow> string \<Rightarrow> atom list" where
  "entryPattern source tag =
     lit (quoted (source @ '':'' @ tag) @ '':'') @ [spaces] @ lit ''{'' @ break
     @ lit ''source:'' @ [spaces] @ lit (quoted source) @ break
     @ lit ''tag:'' @ [spaces] @ lit (quoted tag) @ break
     @ lit ''digest:'' @ [spaces] @ lit [dquote] @ [unquoted] @ lit [dquote] @ break
     @ lit [rbrace]"

definition mirror_entry :: "(nat \<Rightarrow> bool) \<Rightarrow> string \<Rightarrow> string \<Rightarrow> string \<Rightarrow> string" where
  "mirror_entry is_print source tag digest =
     quoted (source @ '':'' @ tag) @ '': {'' @ [newline]
     @ [tab, tab] @ ''source: '' @ Quote is_print source @ [newline]
     @ [tab, tab] @ ''tag:    '' @ Quote is_print tag @ [newline]
     @ [tab, tab] @ ''digest: '' @ Quote is_print digest @ [newline]
     @ [tab, rbrace]"

definition BumpMirrorTag :: "(nat \<Rightarrow> bool) \<Rightarrow> shell \<Rightarrow> string \<Rightarrow> string \<Rightarrow> string \<Rightarrow> string \<Rightarrow> disk \<Rightarrow>
    disk \<times> (catalog_error + unit)" where
  "BumpMirrorTag is_print sh rootDir source oldTag newTag dk =
     (if oldTag = newTag then (dk, Inr ())
      else case ReadFile_stamp rootDir mirrors_cue dk of
             Inl e \<Rightarrow> (dk, Inl e)
           | Inr txt \<Rightarrow>
               (case re_split False True (entryPattern source oldTag) txt of
                  ([], _) \<Rightarrow> (dk, Inr ())
                | ([(before, _)], after) \<Rightarrow>
                    if re_find False True (entryPattern source newTag) txt \<noteq> None
                    then UpdateFile rootDir mirrors_cue
                           (re_replace False (entryPattern source oldTag @ [Opt ((=) newline)]) (\<lambda>_. '''') txt) dk
                    else (case sh rootDir [''crane'', ''digest'', source @ '':'' @ newTag] dk of
                            (dk1, None) \<Rightarrow> (dk1, Inl (CraneDigest (source @ '':'' @ newTag)))
                          | (dk1, Some digest) \<Rightarrow>
                              (case UpdateFile rootDir mirrors_cue
                                      (before @ mirror_entry is_print source newTag digest @ after) dk1 of
                                 (dk2, Inl e) \<Rightarrow> (dk2, Inl e)
                               | (dk2, Inr _) \<Rightarrow>
                                   if length digest < 19 then (dk2, Inl SliceOutOfRange) else (dk2, Inr ())))
                | (matches, _) \<Rightarrow> (dk, Inl (EntriesMatch (length matches) source oldTag))))"

definition tag_prefix :: "string \<Rightarrow> atom list" where
  "tag_prefix source =
     lit ''source:'' @ [spaces] @ lit (quoted source) @ break @ lit ''tag:'' @ [spaces] @ lit [dquote]"

definition findMirrorTag :: "string \<Rightarrow> string \<Rightarrow> string option" where
  "findMirrorTag mirrors source =
     (case re_find False True (tag_prefix source @ [unquoted] @ lit [dquote]) mirrors of
        None \<Rightarrow> None
      | Some (_, ps, _) \<Rightarrow> Some (group_after (tag_prefix source) 1 ps))"

section \<open>The images of a kustomization\<close>

abbreviation spaces1 :: "atom list" where
  "spaces1 \<equiv> [One re_space, spaces]"

abbreviation word1 :: "atom list" where
  "word1 \<equiv> [One (\<lambda>c. \<not> re_space c), Many (\<lambda>c. \<not> re_space c)]"

definition name_prefix :: "atom list" where
  "name_prefix = lit ''-'' @ spaces1 @ lit ''name:'' @ spaces1"

definition newTag_prefix :: "atom list" where
  "newTag_prefix =
     name_prefix @ word1 @ [spaces, One ((=) newline)] @ spaces1 @ lit ''newName:'' @ spaces1 @ word1
     @ [spaces, One ((=) newline)] @ spaces1 @ lit ''newTag:'' @ spaces1"

definition image_pairs :: "string \<Rightarrow> (string \<times> string) list" where
  "image_pairs kust =
     map (\<lambda>(_, ps). (group_after name_prefix 2 ps, group_after newTag_prefix 2 ps))
       (fst (re_split False True (newTag_prefix @ word1) kust))"

fun bump_images :: "(nat \<Rightarrow> bool) \<Rightarrow> shell \<Rightarrow> string \<Rightarrow> (string \<times> string) list \<Rightarrow> string \<Rightarrow> nat \<Rightarrow> disk \<Rightarrow>
    disk \<times> nat \<times> catalog_error option" where
  "bump_images is_print sh rootDir [] mirrors bumped dk = (dk, bumped, None)"
| "bump_images is_print sh rootDir ((source, newTag) # ms) mirrors bumped dk =
     (case findMirrorTag mirrors source of
        None \<Rightarrow> bump_images is_print sh rootDir ms mirrors bumped dk
      | Some oldTag \<Rightarrow>
          if oldTag = newTag then bump_images is_print sh rootDir ms mirrors bumped dk
          else case BumpMirrorTag is_print sh rootDir source oldTag newTag dk of
                 (dk1, Inl e) \<Rightarrow> (dk1, bumped, Some (BumpFailed source e))
               | (dk1, Inr _) \<Rightarrow>
                   (case ReadFile_stamp rootDir mirrors_cue dk1 of
                      Inl e \<Rightarrow> (dk1, bumped + 1, Some e)
                    | Inr mirrors' \<Rightarrow> bump_images is_print sh rootDir ms mirrors' (bumped + 1) dk1))"

definition kust_path :: "string \<Rightarrow> string" where
  "kust_path appName = ''var/app/'' @ appName @ ''/kustomization.yaml''"

definition BumpMirrorTagsFromKustomization ::
    "(nat \<Rightarrow> bool) \<Rightarrow> shell \<Rightarrow> string \<Rightarrow> string \<Rightarrow> disk \<Rightarrow> disk \<times> nat \<times> catalog_error option" where
  "BumpMirrorTagsFromKustomization is_print sh rootDir appName dk =
     (case ReadFile_stamp rootDir (kust_path appName) dk of
        Inl (ReadNotExist _) \<Rightarrow> (dk, 0, None)
      | Inl e \<Rightarrow> (dk, 0, Some e)
      | Inr kust \<Rightarrow>
          (case ReadFile_stamp rootDir mirrors_cue dk of
             Inl e \<Rightarrow> (dk, 0, Some e)
           | Inr mirrors \<Rightarrow>
               (case bump_images is_print sh rootDir (image_pairs kust) mirrors 0 dk of
                  (dk1, bumped, Some e) \<Rightarrow> (dk1, bumped, Some e)
                | (dk1, bumped, None) \<Rightarrow>
                    if bumped > 0
                    then (case sh rootDir [''cue'', ''fmt'', mirrors_cue] dk1 of
                            (dk2, None) \<Rightarrow> (dk2, bumped, Some CueFmt)
                          | (dk2, Some _) \<Rightarrow> (dk2, bumped, None))
                    else (dk1, bumped, None))))"

section \<open>Edits of a text\<close>

lemma str_index_Some: "str_index s sub = Some i \<Longrightarrow> i \<le> length s \<and> has_prefix (drop i s) sub"
  by (induction s arbitrary: i) (auto simp: has_prefix_iff split: if_splits)

lemma str_index_least: "has_prefix (drop j s) sub \<Longrightarrow> j \<le> length s \<Longrightarrow> \<exists>i \<le> j. str_index s sub = Some i"
proof (induction s arbitrary: j)
  case (Cons c s)
  show ?case
  proof (cases j)
    case (Suc k)
    then show ?thesis using Cons.IH [of k] Cons.prems by auto
  qed (use Cons.prems in auto)
qed (auto simp: has_prefix_iff)

lemma EntryExists_iff: "EntryExists s sub \<longleftrightarrow> (\<exists>a b. s = a @ sub @ b)"
proof
  assume "EntryExists s sub"
  then obtain i where "str_index s sub = Some i" by (auto simp: EntryExists_def)
  from str_index_Some [OF this] obtain b where "s = take i s @ sub @ b"
    unfolding has_prefix_iff by (metis append_take_drop_id)
  then show "\<exists>a b. s = a @ sub @ b" by blast
next
  assume "\<exists>a b. s = a @ sub @ b"
  then obtain a b where "s = a @ sub @ b" by blast
  then show "EntryExists s sub"
    using str_index_least [of "length a" s sub] by (auto simp: EntryExists_def)
qed

lemma last_index_split: "rbrace \<notin> set b \<Longrightarrow> last_index (a @ rbrace # b) rbrace = Some (length a)"
proof -
  assume b: "rbrace \<notin> set b"
  have "takeWhile (\<lambda>d. d \<noteq> rbrace) (List.rev b @ [rbrace] @ List.rev a) = List.rev b"
    using b by (subst takeWhile_append2) auto
  then show ?thesis by (simp add: last_index_def)
qed

lemma InsertBeforeLastBrace_split:
  "rbrace \<notin> set b \<Longrightarrow> InsertBeforeLastBrace (a @ rbrace # b) entry = (a @ entry @ rbrace # b, True)"
  by (simp add: InsertBeforeLastBrace_def last_index_split)

lemma InsertBeforeLastBrace_none: "rbrace \<notin> set s \<Longrightarrow> InsertBeforeLastBrace s entry = (s, False)"
  by (simp add: InsertBeforeLastBrace_def last_index_def)

section \<open>A bump rewrites the whole entry\<close>

lemma in_lang_appendI: "in_lang as u \<Longrightarrow> in_lang bs v \<Longrightarrow> in_lang (as @ bs) (u @ v)"
  by (auto simp: in_lang_append)

lemma in_lang_litI: "in_lang (lit p) p"
  by simp

lemma in_lang_single: "in_lang [a] u \<longleftrightarrow> fits a u"
  by simp

lemma in_lang_break: "list_all re_space u \<Longrightarrow> list_all re_space v \<Longrightarrow> in_lang break (u @ [newline] @ v)"
  unfolding in_lang_Cons by fastforce

lemma mirror_entry_in_lang:
  assumes "no_escape is_print source" and "no_escape is_print tag" and "no_escape is_print digest"
  shows "in_lang (entryPattern source tag) (mirror_entry is_print source tag digest)"
proof -
  have sp: "in_lang [spaces] '' ''" "in_lang [spaces] ''    ''"
    by (simp_all only: in_lang_single) (simp_all add: re_space_def)
  have br: "in_lang break ([] @ [newline] @ [tab, tab])" "in_lang break ([] @ [newline] @ [tab])"
    by (rule in_lang_break; simp add: re_space_def)+
  have dg: "in_lang [unquoted] digest"
    using no_escape_quote(2) [OF assms(3)] by (auto simp: list_all_iff)
  have "mirror_entry is_print source tag digest =
      (quoted (source @ '':'' @ tag) @ '':'') @ '' '' @ ''{'' @ ([] @ [newline] @ [tab, tab])
      @ ''source:'' @ '' '' @ quoted source @ ([] @ [newline] @ [tab, tab])
      @ ''tag:'' @ ''    '' @ quoted tag @ ([] @ [newline] @ [tab, tab])
      @ ''digest:'' @ '' '' @ [dquote] @ digest @ [dquote] @ ([] @ [newline] @ [tab]) @ [rbrace]"
    unfolding mirror_entry_def by (simp add: no_escape_quote(1) [OF assms(1)] no_escape_quote(1) [OF assms(2)]
        no_escape_quote(1) [OF assms(3)] quoted_def)
  then show ?thesis
    unfolding entryPattern_def by (simp only:) (intro in_lang_appendI in_lang_litI sp br dg)
qed

definition has_entry :: "string \<Rightarrow> string \<Rightarrow> string \<Rightarrow> bool" where
  "has_entry source tag txt \<longleftrightarrow> (\<exists>a e b. txt = a @ e @ b \<and> in_lang (entryPattern source tag) e)"

lemma solid_entryPattern: "solid (entryPattern source tag @ as)"
  by (simp add: entryPattern_def quoted_def)

lemma has_entry_find: "re_find False b (entryPattern source tag) txt \<noteq> None \<longleftrightarrow> has_entry source tag txt"
  unfolding has_entry_def by (rule re_find_iff)

lemma UpdateFile_ok:
  "UpdateFile rootDir path content dk = (dk', Inr u) \<Longrightarrow>
     file_data (dk_fs dk') = (file_data (dk_fs dk))(fp_join [rootDir, path] \<mapsto> content)"
  by (auto simp: UpdateFile_def WriteFile_data split: option.splits)

text \<open>The entry that a bump has found, and what the file holds afterwards.\<close>

definition bumped_text :: "(nat \<Rightarrow> bool) \<Rightarrow> string \<Rightarrow> string \<Rightarrow> string \<Rightarrow> string \<Rightarrow> string \<Rightarrow> string \<Rightarrow> string" where
  "bumped_text is_print source newTag digest txt a b =
     (if has_entry source newTag txt then a @ (case b of c # b' \<Rightarrow> if newline = c then b' else b | [] \<Rightarrow> [])
      else a @ mirror_entry is_print source newTag digest @ b)"

lemma case_same_result:
  "(case x of (dk, Inl e) \<Rightarrow> (dk, Inl e) | (dk, Inr u) \<Rightarrow> (dk, Inr ())) = (x :: 'd \<times> ('e + unit))"
  by (auto split: prod.split sum.split)

lemma BumpMirrorTag_single:
  assumes "oldTag \<noteq> newTag" and "ReadFile_stamp rootDir mirrors_cue dk = Inr txt"
    and split: "re_split False True (entryPattern source oldTag) txt = ([(a, ps)], b)"
    and "sh rootDir [''crane'', ''digest'', source @ '':'' @ newTag] dk = (dk, Some digest)"
  shows "BumpMirrorTag is_print sh rootDir source oldTag newTag dk =
     (case UpdateFile rootDir mirrors_cue (bumped_text is_print source newTag digest txt a b) dk of
        (dk1, Inl e) \<Rightarrow> (dk1, Inl e)
      | (dk1, Inr _) \<Rightarrow> if \<not> has_entry source newTag txt \<and> length digest < 19 then (dk1, Inl SliceOutOfRange) else (dk1, Inr ()))"
proof -
  have del: "re_replace False (entryPattern source oldTag @ [Opt ((=) newline)]) (\<lambda>_. []) txt =
      a @ (case b of c # b' \<Rightarrow> if newline = c then b' else b | [] \<Rightarrow> [])"
    using re_replace_opt_single [OF _ split] solid_entryPattern [of source oldTag "[]"] by simp
  show ?thesis
    unfolding BumpMirrorTag_def bumped_text_def has_entry_find
    by (cases "has_entry source newTag txt")
      (simp_all only: assms(1,2,4) split sum.case prod.case list.case option.case del if_True if_False not_True_eq_False
        not_False_eq_True HOL.simp_thms case_same_result)
qed

text \<open>
  C25 (\<open>BumpMirrorTag\<close>). A bump that succeeds leaves the disk as it is when the catalog has no
  entry of the old tag. Otherwise it replaces that one entry, whole, by an entry whose key,
  source, tag and digest agree with the new tag, or removes it when the new tag is there already;
  no other byte of the catalog and no other file changes.
\<close>

theorem BumpMirrorTag_atomic:
  assumes "oldTag \<noteq> newTag" and read: "ReadFile_stamp rootDir mirrors_cue dk = Inr txt"
    and clean: "no_escape is_print source" "no_escape is_print newTag" "no_escape is_print digest"
    and crane: "sh rootDir [''crane'', ''digest'', source @ '':'' @ newTag] dk = (dk, Some digest)"
    and ok: "BumpMirrorTag is_print sh rootDir source oldTag newTag dk = (dk', Inr ())"
  shows "if has_entry source oldTag txt
    then \<exists>a e b. txt = a @ e @ b \<and> in_lang (entryPattern source oldTag) e \<and> \<not> has_entry source oldTag b \<and>
      file_data (dk_fs dk') = (file_data (dk_fs dk))
        (fp_join [rootDir, mirrors_cue] \<mapsto>
           (if has_entry source newTag txt then a @ (case b of c # b' \<Rightarrow> if newline = c then b' else b | [] \<Rightarrow> [])
            else a @ mirror_entry is_print source newTag digest @ b)) \<and>
      in_lang (entryPattern source newTag) (mirror_entry is_print source newTag digest)
    else dk' = dk"
proof -
  let ?p = "entryPattern source oldTag"
  have solid: "solid ?p" using solid_entryPattern [of source oldTag "[]"] by simp
  obtain ms b where split: "re_split False True ?p txt = (ms, b)" by fastforce
  consider "ms = []" | (one) a ps where "ms = [(a, ps)]" | (more) m m' ms' where "ms = m # m' # ms'"
    by (cases ms rule: remdups_adj.cases) auto
  then show ?thesis
  proof cases
    case 1
    then have "\<not> has_entry source oldTag txt"
      using split re_split_Nil_iff [OF solid] has_entry_find by metis
    moreover have "dk' = dk"
      using ok by (simp add: BumpMirrorTag_def read split 1 assms(1))
    ultimately show ?thesis by simp
  next
    case one
    note one' = re_split_single [OF solid split [unfolded one]]
    have parts: "txt = a @ concat ps @ b" "in_lang ?p (concat ps)"
      using re_find_sound [OF one'(1)] unfolding in_lang_def by blast+
    have "\<not> has_entry source oldTag b" "has_entry source oldTag txt"
      using one' has_entry_find by (metis option.distinct(1))+
    moreover have "file_data (dk_fs dk') = (file_data (dk_fs dk))
        (fp_join [rootDir, mirrors_cue] \<mapsto> bumped_text is_print source newTag digest txt a b)"
      using ok unfolding BumpMirrorTag_single [where sh = sh, OF assms(1) read split [unfolded one] crane]
      by (auto dest: UpdateFile_ok split: prod.splits sum.splits if_splits)
    ultimately show ?thesis
      using parts mirror_entry_in_lang [OF clean] unfolding bumped_text_def by auto
  next
    case more
    then have False
      using ok by (cases m) (simp add: BumpMirrorTag_def read split assms(1))
    then show ?thesis ..
  qed
qed

text \<open>A digest of fewer than 19 bytes makes the last message panic, after the catalog is written.\<close>

lemma BumpMirrorTag_short_digest:
  assumes "oldTag \<noteq> newTag" and "ReadFile_stamp rootDir mirrors_cue dk = Inr txt"
    and "re_split False True (entryPattern source oldTag) txt = ([(a, ps)], b)"
    and "sh rootDir [''crane'', ''digest'', source @ '':'' @ newTag] dk = (dk, Some digest)"
    and "\<not> has_entry source newTag txt" and "length digest < 19"
    and "UpdateFile rootDir mirrors_cue (a @ mirror_entry is_print source newTag digest @ b) dk = (dk', Inr ())"
  shows "BumpMirrorTag is_print sh rootDir source oldTag newTag dk = (dk', Inl SliceOutOfRange)"
  using assms(5-7) unfolding BumpMirrorTag_single [where sh = sh, OF assms(1-4)] by (simp add: bumped_text_def)

section \<open>A concrete catalog\<close>

definition catalog_disk :: "string \<Rightarrow> disk" where
  "catalog_disk d =
     \<lparr>dk_fs = \<lparr>fs_files = [''r/kernel/catalog/mirrors.cue'' \<mapsto> \<lparr>fl_data = d, fl_mtime = 0, fl_mode = 420\<rparr>],
               fs_clock = 0, fs_noread = (\<lambda>_. False), fs_nowrite = (\<lambda>_. False)\<rparr>,
      dk_dirs = (\<lambda>_. True), dk_nodir = (\<lambda>_. False)\<rparr>"

definition sample_digest :: string where
  "sample_digest = ''sha256:0123456789ab''"

definition sample_sh :: shell where
  "sample_sh dir args dk = (dk, Some sample_digest)"

lemma catalog_path: "fp_join [''r'', mirrors_cue] = ''r/kernel/catalog/mirrors.cue''"
  by code_simp

lemma read_catalog_disk: "ReadFile_stamp ''r'' mirrors_cue (catalog_disk d) = Inr d"
  unfolding ReadFile_stamp_def catalog_path by (simp add: ReadFile_def catalog_disk_def)

lemma write_catalog_disk: "\<exists>dk'. UpdateFile ''r'' mirrors_cue d' (catalog_disk d) = (dk', Inr ())"
  unfolding UpdateFile_def catalog_path by (simp add: WriteFile_def catalog_disk_def Let_def)

lemma sample_no_escape:
  "no_escape (\<lambda>_. False) ''s''" "no_escape (\<lambda>_. False) ''1''" "no_escape (\<lambda>_. False) ''2''"
  "no_escape (\<lambda>_. False) sample_digest"
  by (simp_all add: no_escape_def sample_digest_def runes_ascii byte_def)

lemma sample_split:
  "fst (re_split False True (entryPattern ''s'' ''1'') (mirror_entry (\<lambda>_. False) ''s'' ''1'' ''d'')) \<noteq> []"
  "tl (fst (re_split False True (entryPattern ''s'' ''1'') (mirror_entry (\<lambda>_. False) ''s'' ''1'' ''d''))) = []"
  "re_find False True (entryPattern ''s'' ''2'') (mirror_entry (\<lambda>_. False) ''s'' ''1'' ''d'') = None"
  by code_simp+

theorem BumpMirrorTag_atomic_witness:
  "\<exists>dk' a b. BumpMirrorTag (\<lambda>_. False) sample_sh ''r'' ''s'' ''1'' ''2''
       (catalog_disk (mirror_entry (\<lambda>_. False) ''s'' ''1'' ''d'')) = (dk', Inr ()) \<and>
     file_data (dk_fs dk') ''r/kernel/catalog/mirrors.cue'' = Some (a @ mirror_entry (\<lambda>_. False) ''s'' ''2'' sample_digest @ b)"
proof -
  let ?t = "mirror_entry (\<lambda>_. False) ''s'' ''1'' ''d''"
  obtain g ps b where split: "re_split False True (entryPattern ''s'' ''1'') ?t = ([(g, ps)], b)"
    using sample_split(1,2) by (cases "re_split False True (entryPattern ''s'' ''1'') ?t"; cases "fst (re_split False True (entryPattern ''s'' ''1'') ?t)") auto
  have ne: "''1'' \<noteq> ''2''" by simp
  have crane: "sample_sh ''r'' [''crane'', ''digest'', ''s'' @ '':'' @ ''2''] (catalog_disk ?t) = (catalog_disk ?t, Some sample_digest)"
    by (simp add: sample_sh_def)
  have new: "\<not> has_entry ''s'' ''2'' ?t"
    using sample_split(3) has_entry_find by metis
  have old: "has_entry ''s'' ''1'' ?t"
    using re_split_single(1) [OF _ split] solid_entryPattern [of "''s''" "''1''" "[]"] has_entry_find [of True "''s''" "''1''" ?t] by simp
  have "length sample_digest = 19" by (simp add: sample_digest_def)
  then obtain dk' where ok: "BumpMirrorTag (\<lambda>_. False) sample_sh ''r'' ''s'' ''1'' ''2'' (catalog_disk ?t) = (dk', Inr ())"
    unfolding BumpMirrorTag_single [where sh = sample_sh, OF ne read_catalog_disk split crane]
    using write_catalog_disk [of "bumped_text (\<lambda>_. False) ''s'' ''2'' sample_digest ?t g b" ?t] by auto
  from BumpMirrorTag_atomic [where sh = sample_sh, OF ne read_catalog_disk sample_no_escape(1,3,4) crane ok] old new
  obtain a e b where "file_data (dk_fs dk') = (file_data (dk_fs (catalog_disk ?t)))
      (fp_join [''r'', mirrors_cue] \<mapsto> a @ mirror_entry (\<lambda>_. False) ''s'' ''2'' sample_digest @ b)"
    by auto
  with ok show ?thesis
    unfolding catalog_path by fastforce
qed

section \<open>All images of a kustomization\<close>

definition in_step :: "string \<Rightarrow> string \<times> string \<Rightarrow> bool" where
  "in_step mirrors = (\<lambda>(source, newTag). case findMirrorTag mirrors source of None \<Rightarrow> True | Some oldTag \<Rightarrow> oldTag = newTag)"

lemma bump_images_count:
  "bump_images is_print sh rootDir ms mirrors n dk = (dk', k, e) \<Longrightarrow> n \<le> k \<and> k \<le> n + length ms"
proof (induction ms arbitrary: mirrors n dk)
  case (Cons m ms)
  obtain source newTag where m: "m = (source, newTag)" by fastforce
  show ?case
    using Cons.prems Cons.IH unfolding m
    by (fastforce split: option.splits if_splits prod.splits sum.splits)
qed simp

lemma bump_images_none:
  "bump_images is_print sh rootDir ms mirrors n dk = (dk', n, None) \<longleftrightarrow> dk' = dk \<and> list_all (in_step mirrors) ms"
proof (induction ms)
  case (Cons m ms)
  obtain source newTag where m: "m = (source, newTag)" by fastforce
  show ?case
  proof (cases "in_step mirrors m")
    case True
    then show ?thesis
      using Cons.IH by (auto simp: m in_step_def split: option.splits)
  next
    case False
    then obtain oldTag where old: "findMirrorTag mirrors source = Some oldTag" "oldTag \<noteq> newTag"
      by (auto simp: m in_step_def split: option.splits)
    have "bump_images is_print sh rootDir (m # ms) mirrors n dk \<noteq> (dk', n, None)"
    proof
      assume run: "bump_images is_print sh rootDir (m # ms) mirrors n dk = (dk', n, None)"
      then obtain dk1 mirrors' where "bump_images is_print sh rootDir ms mirrors' (n + 1) dk1 = (dk', n, None)"
        by (auto simp: m old split: prod.splits sum.splits)
      from bump_images_count [OF this] show False by simp
    qed
    with False show ?thesis by simp
  qed
qed auto

text \<open>
  \<open>BumpMirrorTagsFromKustomization\<close>: With both files readable the run reports no error and
  no bump exactly when each image of the kustomization is either not in the catalog or there
  with its tag; then no command runs and the disk is as it was. The number of bumps is at most
  the number of images.
\<close>

theorem BumpMirrorTags_none_iff:
  assumes "ReadFile_stamp rootDir (kust_path appName) dk = Inr kust"
    and "ReadFile_stamp rootDir mirrors_cue dk = Inr mirrors"
  shows "(BumpMirrorTagsFromKustomization is_print sh rootDir appName dk = (dk', 0, None) \<longleftrightarrow>
      dk' = dk \<and> list_all (in_step mirrors) (image_pairs kust)) \<and>
    fst (snd (BumpMirrorTagsFromKustomization is_print sh rootDir appName dk)) \<le> length (image_pairs kust)"
proof -
  obtain dk1 k e where run: "bump_images is_print sh rootDir (image_pairs kust) mirrors 0 dk = (dk1, k, e)"
    by (metis prod_cases3)
  have "k \<le> length (image_pairs kust)"
    using bump_images_count [OF run] by simp
  moreover have none: "k = 0 \<and> e = None \<longleftrightarrow> list_all (in_step mirrors) (image_pairs kust)" "k = 0 \<Longrightarrow> e = None \<Longrightarrow> dk1 = dk"
    using bump_images_none [of is_print sh rootDir "image_pairs kust" mirrors 0 dk dk1]
      bump_images_none [of is_print sh rootDir "image_pairs kust" mirrors 0 dk dk] unfolding run by auto
  moreover have "BumpMirrorTagsFromKustomization is_print sh rootDir appName dk =
      (case e of Some e \<Rightarrow> (dk1, k, Some e)
       | None \<Rightarrow> if k > 0 then (case sh rootDir [''cue'', ''fmt'', mirrors_cue] dk1 of
                   (dk2, None) \<Rightarrow> (dk2, k, Some CueFmt) | (dk2, Some _) \<Rightarrow> (dk2, k, None))
                 else (dk1, k, None))"
    unfolding BumpMirrorTagsFromKustomization_def
    by (cases e) (simp_all only: assms sum.case run prod.case option.case)
  ultimately show ?thesis
    by (cases e; cases "k = 0") (auto split: prod.splits option.splits)
qed

definition kust_disk :: "string \<Rightarrow> string \<Rightarrow> disk" where
  "kust_disk kust d =
     (catalog_disk d)\<lparr>dk_fs := (dk_fs (catalog_disk d))\<lparr>fs_files :=
        (fs_files (dk_fs (catalog_disk d)))(''r/var/app/x/kustomization.yaml'' \<mapsto> \<lparr>fl_data = kust, fl_mtime = 0, fl_mode = 420\<rparr>)\<rparr>\<rparr>"

definition sample_kust :: string where
  "sample_kust = ''- name: s'' @ [newline] @ ''  newName: m/s'' @ [newline] @ ''  newTag: 2''"

lemma read_kust_disk:
  "ReadFile_stamp ''r'' mirrors_cue (kust_disk kust d) = Inr d"
  "ReadFile_stamp ''r'' (kust_path ''x'') (kust_disk kust d) = Inr kust"
proof -
  have "fp_join [''r'', kust_path ''x''] = ''r/var/app/x/kustomization.yaml''" by code_simp
  then show "ReadFile_stamp ''r'' (kust_path ''x'') (kust_disk kust d) = Inr kust"
    by (simp only: ReadFile_stamp_def) (simp add: ReadFile_def kust_disk_def catalog_disk_def)
  show "ReadFile_stamp ''r'' mirrors_cue (kust_disk kust d) = Inr d"
    unfolding ReadFile_stamp_def catalog_path by (simp add: ReadFile_def kust_disk_def catalog_disk_def)
qed

lemma sample_pairs: "image_pairs sample_kust = [(''s'', ''2'')]"
  by code_simp

theorem BumpMirrorTags_none_iff_witness:
  "BumpMirrorTagsFromKustomization (\<lambda>_. False) sample_sh ''r'' ''x'' (kust_disk sample_kust []) = (kust_disk sample_kust [], 0, None)"
proof -
  have "list_all (in_step []) (image_pairs sample_kust)"
    unfolding sample_pairs by code_simp
  then show ?thesis
    using BumpMirrorTags_none_iff [OF read_kust_disk(2,1), of "\<lambda>_. False" sample_sh] by blast
qed

text \<open>
  An entry whose key has drifted from its tag is found by its source field, but \<open>BumpMirrorTag\<close>,
  which looks for the whole entry, does not find it: it counts as bumped and nothing changes.
\<close>

definition drifted_entry :: string where
  "drifted_entry = quoted ''s:2'' @ '': {'' @ [newline, tab, tab] @ ''source: '' @ quoted ''s'' @ [newline, tab, tab]
     @ ''tag: '' @ quoted ''1'' @ [newline, tab, tab] @ ''digest: '' @ quoted ''d'' @ [newline, tab, rbrace]"

lemma drifted_entry_counts:
  "BumpMirrorTagsFromKustomization (\<lambda>_. False) sample_sh ''r'' ''x'' (kust_disk sample_kust drifted_entry) =
     (kust_disk sample_kust drifted_entry, 1, None)"
proof -
  have tag: "findMirrorTag drifted_entry ''s'' = Some ''1''" by code_simp
  have none: "re_find False True (entryPattern ''s'' ''1'') drifted_entry = None" by code_simp
  have "BumpMirrorTag (\<lambda>_. False) sample_sh ''r'' ''s'' ''1'' ''2'' (kust_disk sample_kust drifted_entry) =
      (kust_disk sample_kust drifted_entry, Inr ())"
    by (simp add: BumpMirrorTag_def read_kust_disk(1) re_split_None none)
  then show ?thesis
    unfolding BumpMirrorTagsFromKustomization_def
    by (simp add: read_kust_disk sample_pairs tag sample_sh_def)
qed

end
