(* ===== verification/HelmApp.thy ===== *)
theory HelmApp
  imports Mirror
begin

text \<open>
  \<open>lib/stamp/helmapp.go\<close>: \<open>StampHelmApp\<close> makes or refreshes the catalog entries of a Helm chart. The
  record \<open>tools\<close> has what lies outside: the commands, \<open>filepath.Glob\<close>, \<open>os.ReadDir\<close> (a name and
  whether it is a directory), the hexadecimal SHA-256 of a text, the entries of a compressed
  archive up to its end or first error, and the printable characters of \<open>%q\<close>.
\<close>

section \<open>Images of a chart\<close>

record HelmAppConfig =
  hc_Name :: string
  hc_ChartRepo :: string
  hc_ChartName :: string
  hc_ChartVersion :: string
  hc_Desc :: string

record tools =
  t_sh :: shell
  t_glob :: "disk \<Rightarrow> string \<Rightarrow> string list"
  t_readdir :: "disk \<Rightarrow> string \<Rightarrow> (string \<times> bool) list option"
  t_sha :: "string \<Rightarrow> string"
  t_untar :: "string \<Rightarrow> (string \<times> string) list"
  t_print :: "nat \<Rightarrow> bool"

datatype helm_error =
    NameRequired | ChartRequired | MkdirApp | HelmPull | NoTgz | OpenTgz | DiscoverImages
  | Catalog catalog_error | NoClosingBrace | NoInsertionPoint | EntryNotFound string | NoOpeningBrace string
  | UnbalancedBraces string | WriteShard string | ReadTenantDir | WriteAppCue | StampBrickErr stamp_error

record imageRef =
  im_Source :: string
  im_Tag :: string

definition Key :: "imageRef \<Rightarrow> string" where
  "Key r = im_Source r @ '':'' @ im_Tag r"

definition parseImageRef :: "string \<Rightarrow> string \<times> string" where
  "parseImageRef ref =
     (if EntryExists ref ''@sha256:'' then ('''', '''')
      else let source = takeWhile (\<lambda>c. c \<noteq> CHR '':'') ref;
               tag = (if CHR '':'' \<in> set ref then drop (length source + 1) ref else ''latest'')
           in if tag = ''latest'' then ('''', '''') else (source, tag))"

text \<open>\<open>\s*"?([^"\s]+)"?\<close>, the value after a field name.\<close>

definition bare :: "char \<Rightarrow> bool" where
  "bare c \<longleftrightarrow> c \<noteq> dquote \<and> \<not> re_space c"

definition value_pattern :: "atom list \<Rightarrow> atom list" where
  "value_pattern pre = pre @ [spaces, Opt ((=) dquote), One bare, Many bare, Opt ((=) dquote)]"

definition first_value :: "bool \<Rightarrow> atom list \<Rightarrow> string \<Rightarrow> string option" where
  "first_value anchored pre s =
     (case re_find anchored True (value_pattern pre) s of
        None \<Rightarrow> None | Some (_, ps, _) \<Rightarrow> Some (group_after (pre @ [spaces, Opt ((=) dquote)]) 2 ps))"

text \<open>The images seen so far are the ones collected, so \<open>seen\<close> is the list of their keys.\<close>

fun scan_images :: "string list \<Rightarrow> imageRef list \<Rightarrow> imageRef list" where
  "scan_images [] images = images"
| "scan_images (line # ls) images =
     (case first_value False (lit ''image:'') (trim_space line) of
        None \<Rightarrow> scan_images ls images
      | Some ref \<Rightarrow>
          if EntryExists ref ''busybox'' then scan_images ls images
          else let (source, tag) = parseImageRef ref; img = \<lparr>im_Source = source, im_Tag = tag\<rparr> in
               if source = '''' \<or> tag = '''' then scan_images ls images
               else if Key img \<in> Key ` set images then scan_images ls images
               else scan_images ls (images @ [img]))"

abbreviation field_prefix :: "string \<Rightarrow> atom list" where
  "field_prefix name \<equiv> [One re_space, spaces] @ lit (name @ '':'')"

fun scan_values :: "string list \<Rightarrow> imageRef list \<Rightarrow> imageRef list" where
  "scan_values [] images = images"
| "scan_values (line # ls) images =
     (case first_value True (field_prefix ''repository'') line of
        None \<Rightarrow> scan_values ls images
      | Some repo \<Rightarrow>
          let tag = (case first_some (first_value True (field_prefix ''tag'')) (take 5 ls) of None \<Rightarrow> '''' | Some t \<Rightarrow> t);
              img = \<lparr>im_Source = repo, im_Tag = tag\<rparr> in
          if tag = '''' \<or> tag = ''latest'' then scan_values ls images
          else if has_prefix (trim_space line) ''#'' then scan_values ls images
          else if Key img \<in> Key ` set images then scan_values ls images
          else scan_values ls (images @ [img]))"

definition parseValuesForImages :: "string \<Rightarrow> imageRef list" where
  "parseValuesForImages content = sort_key Key (scan_values (split_on newline content) [])"

definition tar_member :: "tools \<Rightarrow> string \<Rightarrow> string \<Rightarrow> disk \<Rightarrow> string option" where
  "tar_member t name tgzPath dk =
     (case ReadFile (dk_fs dk) tgzPath of
        ReadData d \<Rightarrow> map_option snd (find (\<lambda>(n, _). has_suffix n (''/'' @ name) \<or> n = name) (t_untar t d))
      | _ \<Rightarrow> None)"

definition extractAppVersion :: "tools \<Rightarrow> string \<Rightarrow> disk \<Rightarrow> string option" where
  "extractAppVersion t tgzPath dk =
     (case tar_member t ''Chart.yaml'' tgzPath dk of
        None \<Rightarrow> None | Some d \<Rightarrow> first_value True (lit ''appVersion:'') d)"

definition discoverImagesFromValues :: "tools \<Rightarrow> string \<Rightarrow> disk \<Rightarrow> imageRef list option" where
  "discoverImagesFromValues t tgzPath dk = map_option parseValuesForImages (tar_member t ''values.yaml'' tgzPath dk)"

definition discoverImages :: "tools \<Rightarrow> string \<Rightarrow> string \<Rightarrow> string \<Rightarrow> disk \<Rightarrow> disk \<times> imageRef list option" where
  "discoverImages t rootDir name tgzPath dk =
     (case t_sh t rootDir [''helm'', ''template'', name, tgzPath] dk of
        (dk1, None) \<Rightarrow> (dk1, discoverImagesFromValues t tgzPath dk1)
      | (dk1, Some out) \<Rightarrow> (dk1, Some (sort_key Key (scan_images (split_on newline out) []))))"

section \<open>The chart\<close>

definition remove_quietly :: "disk \<Rightarrow> string \<Rightarrow> disk" where
  "remove_quietly dk p = (case Remove p (dk_fs dk) of None \<Rightarrow> dk | Some fs \<Rightarrow> dk\<lparr>dk_fs := fs\<rparr>)"

definition pull_args :: "string \<Rightarrow> HelmAppConfig \<Rightarrow> string list" where
  "pull_args appDir cfg =
     (if has_prefix (hc_ChartRepo cfg) ''oci://''
      then [''helm'', ''pull'', hc_ChartRepo cfg @ ''/'' @ hc_ChartName cfg, ''--version'', hc_ChartVersion cfg, ''-d'', appDir]
      else [''helm'', ''pull'', hc_ChartName cfg, ''--repo'', hc_ChartRepo cfg, ''--version'', hc_ChartVersion cfg, ''-d'', appDir])"

definition vendorChart :: "tools \<Rightarrow> string \<Rightarrow> string \<Rightarrow> HelmAppConfig \<Rightarrow> disk \<Rightarrow> disk \<times> (helm_error + string \<times> string)" where
  "vendorChart t rootDir appDir cfg dk =
     (let dk0 = foldl remove_quietly dk (t_glob t dk (fp_join [appDir, ''*.tgz''])) in
      case t_sh t rootDir (pull_args appDir cfg) dk0 of
        (dk1, None) \<Rightarrow> (dk1, Inl HelmPull)
      | (dk1, Some _) \<Rightarrow>
          let ms = t_glob t dk1 (fp_join [appDir, hc_ChartName cfg @ ''-'' @ hc_ChartVersion cfg @ ''.tgz'']);
              ms' = (if ms = [] then t_glob t dk1 (fp_join [appDir, ''*.tgz'']) else ms)
          in case ms' of
               [] \<Rightarrow> (dk1, Inl NoTgz)
             | tgz # _ \<Rightarrow>
                 (case ReadFile (dk_fs dk1) tgz of
                    ReadData d \<Rightarrow> (dk1, Inr (tgz, t_sha t d))
                  | _ \<Rightarrow> (dk1, Inl OpenTgz)))"

section \<open>Mirrors\<close>

definition new_mirror :: "(nat \<Rightarrow> bool) \<Rightarrow> imageRef \<Rightarrow> string \<Rightarrow> string" where
  "new_mirror is_print img digest =
     [newline, tab] @ Quote is_print (Key img) @ '': {'' @ [newline]
     @ [tab, tab] @ ''source: '' @ Quote is_print (im_Source img) @ [newline]
     @ [tab, tab] @ ''tag:    '' @ Quote is_print (im_Tag img) @ [newline]
     @ [tab, tab] @ ''digest: '' @ Quote is_print digest @ [newline]
     @ [tab, rbrace, newline]"

fun add_mirrors :: "tools \<Rightarrow> string \<Rightarrow> imageRef list \<Rightarrow> string \<Rightarrow> nat \<Rightarrow> disk \<Rightarrow> disk \<times> (helm_error + string \<times> nat)" where
  "add_mirrors t rootDir [] txt added dk = (dk, Inr (txt, added))"
| "add_mirrors t rootDir (img # imgs) txt added dk =
     (if EntryExists txt (Quote (t_print t) (Key img)) then add_mirrors t rootDir imgs txt added dk
      else case t_sh t rootDir [''crane'', ''digest'', Key img] dk of
             (dk1, None) \<Rightarrow> (dk1, Inl (Catalog (CraneDigest (Key img))))
           | (dk1, Some digest) \<Rightarrow>
               (case InsertBeforeLastBrace txt (new_mirror (t_print t) img digest) of
                  (_, False) \<Rightarrow> (dk1, Inl NoClosingBrace)
                | (txt', True) \<Rightarrow>
                    if length digest < 19 then (dk1, Inl (Catalog SliceOutOfRange))
                    else add_mirrors t rootDir imgs txt' (added + 1) dk1))"

definition appendMirrors :: "tools \<Rightarrow> string \<Rightarrow> imageRef list \<Rightarrow> disk \<Rightarrow> disk \<times> (helm_error + unit)" where
  "appendMirrors t rootDir images dk =
     (case ReadFile_stamp rootDir mirrors_cue dk of
        Inl e \<Rightarrow> (dk, Inl (Catalog e))
      | Inr txt \<Rightarrow>
          (case add_mirrors t rootDir images txt 0 dk of
             (dk1, Inl e) \<Rightarrow> (dk1, Inl e)
           | (dk1, Inr (txt', added)) \<Rightarrow>
               if added = 0 then (dk1, Inr ())
               else case UpdateFile rootDir mirrors_cue txt' dk1 of
                      (dk2, Inl e) \<Rightarrow> (dk2, Inl (Catalog e))
                    | (dk2, Inr _) \<Rightarrow>
                        (case t_sh t rootDir [''cue'', ''fmt'', mirrors_cue] dk2 of
                           (dk3, None) \<Rightarrow> (dk3, Inl (Catalog CueFmt))
                         | (dk3, Some _) \<Rightarrow> (dk3, Inr ()))))"

section \<open>Versions\<close>

definition versions_cue :: string where
  "versions_cue = ''kernel/schema/versions.cue''"

text \<open>
  The template of \<open>ReplaceAllString\<close>: \<open>$\<close> begins a group name. The expressions have one group, so
  every name but 0 and 1 stands for nothing. Letters beyond ASCII are not taken as parts of a name.
\<close>

definition name_char :: "char \<Rightarrow> bool" where
  "name_char c \<longleftrightarrow> is_digit c \<or> (65 \<le> byte c \<and> byte c \<le> 90) \<or> (97 \<le> byte c \<and> byte c \<le> 122) \<or> c = CHR ''_''"

definition group_value :: "string \<Rightarrow> string \<Rightarrow> string \<Rightarrow> string" where
  "group_value whole g1 name = (if name = ''0'' then whole else if name = ''1'' then g1 else '''')"

function expand_template :: "string \<Rightarrow> string \<Rightarrow> string \<Rightarrow> string" where
  "expand_template whole g1 [] = []"
| "expand_template whole g1 (c # s) =
     (if c \<noteq> CHR ''$'' then c # expand_template whole g1 s
      else if s \<noteq> [] \<and> hd s = CHR ''$'' then CHR ''$'' # expand_template whole g1 (tl s)
      else let brace = (s \<noteq> [] \<and> hd s = CHR 0x7B);
               u = (if brace then tl s else s);
               name = takeWhile name_char u;
               rest = dropWhile name_char u
           in if name = [] \<or> brace \<and> (rest = [] \<or> hd rest \<noteq> rbrace) then CHR ''$'' # expand_template whole g1 s
              else group_value whole g1 name @ expand_template whole g1 (if brace then tl rest else rest))"
  by pat_completeness auto
termination
proof (relation "measure (\<lambda>(_, _, s). length s)", goal_cases)
  case (5 whole g1 c s brace u name rest)
  have "length (dropWhile name_char u) \<le> length u" by (rule length_dropWhile_le)
  then show ?case using 5 by (auto split: if_splits)
qed auto

definition bump_prefix :: "string \<Rightarrow> atom list" where
  "bump_prefix name = spaces1 @ lit (name @ '':'') @ spaces1"

definition bumpField :: "(nat \<Rightarrow> bool) \<Rightarrow> string \<Rightarrow> string \<Rightarrow> string \<Rightarrow> string" where
  "bumpField is_print b name val =
     re_replace True (bump_prefix name @ lit [dquote] @ [unquoted] @ lit [dquote])
       (\<lambda>ps. expand_template (concat ps) (group_after [] (length (bump_prefix name)) ps) (''${1}'' @ Quote is_print val)) b"

text \<open>How many bytes there are up to the brace that closes \<open>depth\<close> open ones.\<close>

fun scan_braces :: "nat \<Rightarrow> string \<Rightarrow> nat option" where
  "scan_braces 0 s = Some 0"
| "scan_braces (Suc d) [] = None"
| "scan_braces (Suc d) (c # s) =
     map_option Suc (scan_braces (if c = CHR 0x7B then Suc (Suc d) else if c = rbrace then d else Suc d) s)"

definition updateVersionEntry :: "(nat \<Rightarrow> bool) \<Rightarrow> string \<Rightarrow> string \<Rightarrow> string \<Rightarrow> string \<Rightarrow> helm_error + string \<times> bool" where
  "updateVersionEntry is_print txt cueKey chartVersion chartSha256 =
     (case str_index txt ([tab] @ cueKey @ '': #ToolVersion'') of
        None \<Rightarrow> Inl (EntryNotFound cueKey)
      | Some start \<Rightarrow>
          (case str_index (drop start txt) [CHR 0x7B] of
             None \<Rightarrow> Inl (NoOpeningBrace cueKey)
           | Some off \<Rightarrow>
               (let openBrace = off + start in
                case scan_braces 1 (drop (openBrace + 1) txt) of
                  None \<Rightarrow> Inl (UnbalancedBraces cueKey)
                | Some n \<Rightarrow>
                    let end' = openBrace + 1 + n;
                        original = take (1 + n) (drop openBrace txt);
                        block = bumpField is_print (bumpField is_print original ''chart_version'' chartVersion)
                                  ''chart_sha256'' chartSha256
                    in if block = original then Inr (txt, False)
                       else Inr (take openBrace txt @ block @ drop end' txt, True))))"

definition version_entry :: "(nat \<Rightarrow> bool) \<Rightarrow> HelmAppConfig \<Rightarrow> string \<Rightarrow> string \<Rightarrow> string" where
  \<open>version_entry is_print cfg sha appVersion =
     [newline] @ lines_of [
       [tab] @ CueIdent (hc_Name cfg) @ '': #ToolVersion & {'',
       [tab, tab] @ ''version:       '' @ Quote is_print appVersion,
       [tab, tab] @ ''chart_version: '' @ Quote is_print (hc_ChartVersion cfg),
       [tab, tab] @ ''chart_sha256:  '' @ Quote is_print sha,
       [tab, tab] @ ''chart_url:     "https://artifacthub.io/api/v1/packages/helm/'' @ hc_Name cfg @ ''/'' @ hc_ChartName cfg @ ''"'',
       [tab, tab] @ ''sync: []'',
       [tab, rbrace]]\<close>

definition version_markers :: "string list" where
  "version_markers =
     map (\<lambda>title. [newline, tab] @ ''// '' @ replicate 73 (CHR ''='') @ [newline, tab] @ ''// '' @ title)
       [''Services'', ''Security'', ''Interactive'', ''AI tools'', ''Bazel modules'']"

definition appendVersion :: "tools \<Rightarrow> string \<Rightarrow> HelmAppConfig \<Rightarrow> string \<Rightarrow> string \<Rightarrow> disk \<Rightarrow> disk \<times> (helm_error + unit)" where
  "appendVersion t rootDir cfg sha appVersion dk =
     (let cueKey = CueIdent (hc_Name cfg);
          update = (\<lambda>txt. case UpdateFile rootDir versions_cue txt dk of
                            (dk1, Inl e) \<Rightarrow> (dk1, Inl (Catalog e)) | (dk1, Inr _) \<Rightarrow> (dk1, Inr ())) in
      case ReadFile_stamp rootDir versions_cue dk of
        Inl e \<Rightarrow> (dk, Inl (Catalog e))
      | Inr txt \<Rightarrow>
          if EntryExists txt ([tab] @ cueKey @ '': #ToolVersion'')
          then (case updateVersionEntry (t_print t) txt cueKey (hc_ChartVersion cfg) sha of
                  Inl e \<Rightarrow> (dk, Inl e)
                | Inr (updated, changed) \<Rightarrow> if changed then update updated else (dk, Inr ()))
          else (case InsertBeforeMarker txt (version_entry (t_print t) cfg sha appVersion) version_markers of
                  (_, False) \<Rightarrow> (dk, Inl NoInsertionPoint)
                | (txt', True) \<Rightarrow> update txt'))"

section \<open>The shard, the chart versions and the scaffold\<close>

definition app_shard :: "(nat \<Rightarrow> bool) \<Rightarrow> HelmAppConfig \<Rightarrow> string" where
  \<open>app_shard is_print cfg =
     lines_of [
       ''@experiment(aliasv2,explicitopen,shortcircuit,try)'',
       '''',
       ''// App instance: '' @ hc_Name cfg @ '' (library tenant).'',
       ''//'',
       ''// Per-app catalog shard per AIDR-00083 (leaves-into-branches).'',
       ''package catalog'',
       '''',
       ''import "github.com/defn/other/kernel/schema"'',
       '''',
       ''apps: '' @ CueKey is_print (hc_Name cfg) @ '': {'',
       [tab] @ ''name:          '' @ Quote is_print (hc_Name cfg),
       [tab] @ ''kind:          "kustomize"'',
       [tab] @ ''path:          "tenant/library/app/'' @ hc_Name cfg @ ''"'',
       [tab] @ ''chart_name:    '' @ Quote is_print (hc_ChartName cfg),
       [tab] @ ''chart_repo:    '' @ Quote is_print (hc_ChartRepo cfg),
       [tab] @ ''chart_version: schema.versions.'' @ CueIdent (hc_Name cfg) @ ''.chart_version'',
       [tab] @ ''chart_sha256:  schema.versions.'' @ CueIdent (hc_Name cfg) @ ''.chart_sha256'',
       [tab] @ ''desc:          '' @ Quote is_print (hc_Desc cfg),
       [rbrace]]\<close>

definition shard_path :: "string \<Rightarrow> HelmAppConfig \<Rightarrow> string" where
  "shard_path rootDir cfg =
     fp_join [rootDir, fp_join [''tenant'', ''library'', ''catalog'', ''apps-'' @ hc_Name cfg @ ''.cue'']]"

definition appendApp :: "tools \<Rightarrow> string \<Rightarrow> HelmAppConfig \<Rightarrow> disk \<Rightarrow> disk \<times> (helm_error + unit)" where
  "appendApp t rootDir cfg dk =
     (if stat_ok (shard_path rootDir cfg) dk then (dk, Inr ())
      else case WriteFile (shard_path rootDir cfg) (app_shard (t_print t) cfg) 420 (dk_fs dk) of
             None \<Rightarrow> (dk, Inl (WriteShard (shard_path rootDir cfg)))
           | Some fs \<Rightarrow> (dk\<lparr>dk_fs := fs\<rparr>, Inr ()))"

text \<open>The tenants that have the chart already; they are only printed.\<close>

definition appendChartVersion :: "tools \<Rightarrow> string \<Rightarrow> HelmAppConfig \<Rightarrow> disk \<Rightarrow> helm_error + string list" where
  "appendChartVersion t rootDir cfg dk =
     (let probe = CueKey (t_print t) (hc_Name cfg) @ '': cluster_digests'' in
      case t_readdir t dk (fp_join [rootDir, ''tenant'']) of
        None \<Rightarrow> Inl ReadTenantDir
      | Some entries \<Rightarrow>
          Inr (map fst (filter (\<lambda>(name, is_dir). is_dir \<and>
            (case ReadFile_stamp rootDir (fp_join [''tenant'', name, ''catalog'', ''chart_versions.cue'']) dk of
               Inl _ \<Rightarrow> False | Inr txt \<Rightarrow> EntryExists txt probe)) entries)))"

definition app_cue_lines :: "string list" where
  \<open>app_cue_lines = [
       '''',
       ''// Per-cluster tags.'',
       '''',
       ''_cluster_name:   string @tag(cluster_name)'',
       ''_cluster_domain: string @tag(cluster_domain)'',
       ''_dns_zone:       string @tag(dns_zone)'',
       '''',
       ''// Generate IngressRoutes from route_mappings.'',
       ''objects: IngressRoute: {'',
       [tab] @ ''for routeName, route in route_mappings {'',
       [tab, tab] @ ''(routeName): {'',
       [tab, tab, tab] @ ''apiVersion: "traefik.io/v1alpha1"'',
       [tab, tab, tab] @ ''kind:       "IngressRoute"'',
       [tab, tab, tab] @ ''metadata: {'',
       [tab, tab, tab, tab] @ ''name:      routeName'',
       [tab, tab, tab, tab] @ ''namespace: route.namespace'',
       [tab, tab, tab] @ ''}'',
       [tab, tab, tab] @ ''spec: {'',
       [tab, tab, tab, tab] @ ''entryPoints: ["websecure"]'',
       [tab, tab, tab, tab] @ ''routes: [{'',
       [tab, tab, tab, tab, tab] @ ''match: "Host(`'' @ [backslash] @ ''(route.host).'' @ [backslash] @ ''(_cluster_domain)`)"'',
       [tab, tab, tab, tab, tab] @ ''kind:  "Rule"'',
       [tab, tab, tab, tab, tab] @ ''if route.auth {'',
       [tab, tab, tab, tab, tab, tab] @ ''middlewares: [{'',
       [tab, tab, tab, tab, tab, tab, tab] @ ''name:      "auth"'',
       [tab, tab, tab, tab, tab, tab, tab] @ ''namespace: "oauth2-proxy"'',
       [tab, tab, tab, tab, tab, tab] @ ''}]'',
       [tab, tab, tab, tab, tab] @ ''}'',
       [tab, tab, tab, tab, tab] @ ''if route.service_kind != _|_ {'',
       [tab, tab, tab, tab, tab, tab] @ ''services: [{'',
       [tab, tab, tab, tab, tab, tab, tab] @ ''name: route.service'',
       [tab, tab, tab, tab, tab, tab, tab] @ ''kind: route.service_kind'',
       [tab, tab, tab, tab, tab, tab] @ ''}]'',
       [tab, tab, tab, tab, tab] @ ''}'',
       [tab, tab, tab, tab, tab] @ ''if route.service_kind == _|_ {'',
       [tab, tab, tab, tab, tab, tab] @ ''services: [{'',
       [tab, tab, tab, tab, tab, tab, tab] @ ''name: route.service'',
       [tab, tab, tab, tab, tab, tab, tab] @ ''port: route.port'',
       [tab, tab, tab, tab, tab, tab] @ ''}]'',
       [tab, tab, tab, tab, tab] @ ''}'',
       [tab, tab, tab, tab] @ ''}]'',
       [tab, tab, tab, tab] @ ''tls: secretName: "wildcard-tls"'',
       [tab, tab, tab] @ ''}'',
       [tab, tab] @ ''}'',
       [tab] @ ''}'',
       ''}'',
       '''',
       ''// Ingress routes served by Traefik.'',
       ''route_mappings: [string]: {'',
       [tab] @ ''namespace:     string'',
       [tab] @ ''host:          string'',
       [tab] @ ''service:       string'',
       [tab] @ ''port:          *80 | number'',
       [tab] @ ''auth:          *true | bool'',
       [tab] @ ''service_kind?: string'',
       ''}'']\<close>

definition app_cue_text :: "(nat \<Rightarrow> bool) \<Rightarrow> imageRef list \<Rightarrow> string" where
  "app_cue_text is_print images =
     lines_of ([''@experiment(aliasv2,explicitopen,shortcircuit,try)'', '''', ''package app'', '''',
       ''images: ['' @ join '', '' (map (\<lambda>img. Quote is_print (im_Source img)) images) @ '']'', '''',
       ''helm_values: {}''] @ app_cue_lines)"

definition app_cue_path :: "string \<Rightarrow> HelmAppConfig \<Rightarrow> string" where
  "app_cue_path rootDir cfg = fp_join [rootDir, ''tenant'', ''library'', ''app'', hc_Name cfg, ''app.cue'']"

definition scaffoldAppCue :: "tools \<Rightarrow> string \<Rightarrow> HelmAppConfig \<Rightarrow> imageRef list \<Rightarrow> disk \<Rightarrow> disk \<times> (helm_error + unit)" where
  "scaffoldAppCue t rootDir cfg images dk =
     (if stat_ok (app_cue_path rootDir cfg) dk then (dk, Inr ())
      else case WriteFile (app_cue_path rootDir cfg) (app_cue_text (t_print t) images) 420 (dk_fs dk) of
             None \<Rightarrow> (dk, Inl WriteAppCue)
           | Some fs \<Rightarrow> (dk\<lparr>dk_fs := fs\<rparr>, Inr ()))"

section \<open>The stamp\<close>

definition brick_shard :: "string \<Rightarrow> HelmAppConfig \<Rightarrow> string" where
  "brick_shard rootDir cfg = fp_join [rootDir, ''tenant'', ''library'', ''catalog'', ''brick-app--'' @ hc_Name cfg @ ''.cue'']"

text \<open>Steps 8 and 10: the brick on the first stamp only, and the tarball of an app that renders no chart.\<close>

definition stamp_brick_once :: "tools \<Rightarrow> string \<Rightarrow> HelmAppConfig \<Rightarrow> disk \<Rightarrow> disk \<times> (helm_error + unit)" where
  "stamp_brick_once t rootDir cfg dk =
     (if stat_ok (brick_shard rootDir cfg) dk then (dk, Inr ())
      else case StampBrick (t_print t) rootDir ''helm-app'' (''tenant/library/app/'' @ hc_Name cfg) (hc_Desc cfg) [] dk of
             (dk1, Inl e) \<Rightarrow> (dk1, Inl (StampBrickErr e))
           | (dk1, Inr _) \<Rightarrow> (dk1, Inr ()))"

definition drop_tarball :: "string \<Rightarrow> HelmAppConfig \<Rightarrow> string \<Rightarrow> disk \<Rightarrow> disk" where
  "drop_tarball rootDir cfg tgz dk =
     (if stat_ok (fp_join [rootDir, ''var'', ''app'', hc_Name cfg, ''kustomization.yaml'']) dk then dk
      else remove_quietly dk tgz)"

text \<open>A step that may fail, followed by the rest.\<close>

definition then_step :: "disk \<times> (helm_error + 'a) \<Rightarrow> ('a \<Rightarrow> disk \<Rightarrow> disk \<times> (helm_error + 'b)) \<Rightarrow> disk \<times> (helm_error + 'b)" where
  "then_step r k = (case r of (dk, Inl e) \<Rightarrow> (dk, Inl e) | (dk, Inr x) \<Rightarrow> k x dk)"

text \<open>Steps 4 to 10, and with the images and their mirrors steps 2 to 10.\<close>

definition stamp_entries :: "tools \<Rightarrow> string \<Rightarrow> HelmAppConfig \<Rightarrow> string \<Rightarrow> string \<Rightarrow> string \<Rightarrow> imageRef list \<Rightarrow> disk \<Rightarrow>
    disk \<times> (helm_error + unit)" where
  "stamp_entries t rootDir cfg tgz sha appVersion images dk3 =
     then_step (appendVersion t rootDir cfg sha appVersion dk3) (\<lambda>_ dk4.
     then_step (appendApp t rootDir cfg dk4) (\<lambda>_ dk5.
     then_step (dk5, appendChartVersion t rootDir cfg dk5) (\<lambda>_ dk6.
     then_step (scaffoldAppCue t rootDir cfg images dk6) (\<lambda>_ dk7.
     then_step (stamp_brick_once t rootDir cfg dk7) (\<lambda>_ dk8.
     (drop_tarball rootDir cfg tgz dk8, Inr ()))))))"

definition stamp_chart :: "tools \<Rightarrow> string \<Rightarrow> HelmAppConfig \<Rightarrow> string \<times> string \<Rightarrow> disk \<Rightarrow> disk \<times> (helm_error + unit)" where
  "stamp_chart t rootDir cfg = (\<lambda>(tgz, sha) dk1.
     let appVersion = (case extractAppVersion t tgz dk1 of None \<Rightarrow> hc_ChartVersion cfg | Some v \<Rightarrow> v) in
     case discoverImages t rootDir (hc_Name cfg) tgz dk1 of
       (dk2, None) \<Rightarrow> (dk2, Inl DiscoverImages)
     | (dk2, Some images) \<Rightarrow>
         then_step (appendMirrors t rootDir images dk2) (\<lambda>_. stamp_entries t rootDir cfg tgz sha appVersion images))"

definition StampHelmApp :: "tools \<Rightarrow> string \<Rightarrow> HelmAppConfig \<Rightarrow> disk \<Rightarrow> disk \<times> (helm_error + unit)" where
  "StampHelmApp t rootDir cfg0 dk =
     (if hc_Name cfg0 = '''' then (dk, Inl NameRequired)
      else if hc_ChartRepo cfg0 = '''' \<or> hc_ChartName cfg0 = '''' \<or> hc_ChartVersion cfg0 = '''' then (dk, Inl ChartRequired)
      else let cfg = (if hc_Desc cfg0 = '''' then cfg0\<lparr>hc_Desc := hc_Name cfg0\<rparr> else cfg0);
               appDir = fp_join [rootDir, ''tenant'', ''library'', ''app'', hc_Name cfg] in
           case MkdirAll appDir dk of
             None \<Rightarrow> (dk, Inl MkdirApp)
           | Some dk0 \<Rightarrow> then_step (vendorChart t rootDir appDir cfg dk0) (stamp_chart t rootDir cfg))"

section \<open>Files that are made once\<close>

text \<open>A step keeps a file when it does not change it once it exists.\<close>

definition keeps :: "string \<Rightarrow> disk \<Rightarrow> disk \<Rightarrow> bool" where
  "keeps p dk dk' \<longleftrightarrow> fs_files (dk_fs dk) p = None \<or> fs_files (dk_fs dk') p = fs_files (dk_fs dk) p"

lemma keeps_refl [simp]: "keeps p dk dk"
  by (simp add: keeps_def)

lemma keeps_trans: "keeps p dk dk1 \<Longrightarrow> keeps p dk1 dk2 \<Longrightarrow> keeps p dk dk2"
  by (auto simp: keeps_def)

lemma keeps_then_step:
  assumes "keeps p dk (fst r)" and "\<And>x dk1. r = (dk1, Inr x) \<Longrightarrow> keeps p dk1 (fst (k x dk1))"
  shows "keeps p dk (fst (then_step r k))"
  using assms keeps_trans by (auto simp: then_step_def split: prod.split sum.split)

lemma keeps_UpdateFile: "p \<noteq> fp_join [rootDir, path] \<Longrightarrow> keeps p dk (fst (UpdateFile rootDir path content dk))"
  by (auto simp: UpdateFile_def keeps_def WriteFile_frame split: option.split)

lemma keeps_remove: "p \<noteq> q \<Longrightarrow> keeps p dk (remove_quietly dk q)"
  by (auto simp: remove_quietly_def keeps_def Remove_frame split: option.split)

lemma keeps_removes: "p \<notin> set qs \<Longrightarrow> keeps p dk (foldl remove_quietly dk qs)"
proof (induction qs arbitrary: dk)
  case (Cons q qs)
  then show ?case using keeps_trans [OF keeps_remove [of p q dk]] by simp
qed simp

text \<open>What is relied on of the commands and of \<open>filepath.Glob\<close>.\<close>

definition sh_keeps :: "tools \<Rightarrow> string \<Rightarrow> bool" where
  "sh_keeps t p \<longleftrightarrow> (\<forall>dir args dk. keeps p dk (fst (t_sh t dir args dk)))"

lemma sh_keepsD: "sh_keeps t p \<Longrightarrow> t_sh t dir args dk = (dk1, r) \<Longrightarrow> keeps p dk dk1"
  by (metis fst_conv sh_keeps_def)

definition glob_tgz :: "tools \<Rightarrow> string \<Rightarrow> bool" where
  "glob_tgz t appDir \<longleftrightarrow>
     (\<forall>dk name. has_suffix name ''.tgz'' \<longrightarrow> (\<forall>q \<in> set (t_glob t dk (fp_join [appDir, name])). has_suffix q ''.tgz''))"

lemma keeps_vendorChart:
  assumes "sh_keeps t p" and "glob_tgz t appDir" and "\<not> has_suffix p ''.tgz''"
  shows "keeps p dk (fst (vendorChart t rootDir appDir cfg dk))"
    and "vendorChart t rootDir appDir cfg dk = (dk1, Inr (tgz, sha)) \<Longrightarrow> has_suffix tgz ''.tgz''"
proof -
  have globs: "\<forall>q \<in> set (t_glob t dk (fp_join [appDir, ''*.tgz''])). has_suffix q ''.tgz''"
    "\<forall>q \<in> set (t_glob t dk (fp_join [appDir, hc_ChartName cfg @ ''-'' @ hc_ChartVersion cfg @ ''.tgz''])). has_suffix q ''.tgz''" for dk
  proof -
    have "has_suffix ''*.tgz'' ''.tgz''" by code_simp
    moreover have "has_suffix (hc_ChartName cfg @ ''-'' @ hc_ChartVersion cfg @ ''.tgz'') ''.tgz''"
      unfolding has_suffix_iff by (rule exI [of _ "hc_ChartName cfg @ ''-'' @ hc_ChartVersion cfg"]) simp
    ultimately show "\<forall>q \<in> set (t_glob t dk (fp_join [appDir, ''*.tgz''])). has_suffix q ''.tgz''"
      "\<forall>q \<in> set (t_glob t dk (fp_join [appDir, hc_ChartName cfg @ ''-'' @ hc_ChartVersion cfg @ ''.tgz''])). has_suffix q ''.tgz''"
      using assms(2) unfolding glob_tgz_def by blast+
  qed
  let ?dk0 = "foldl remove_quietly dk (t_glob t dk (fp_join [appDir, ''*.tgz'']))"
  obtain dk2 r where sh: "t_sh t rootDir (pull_args appDir cfg) ?dk0 = (dk2, r)" by fastforce
  have "keeps p dk ?dk0" using globs(1) assms(3) by (intro keeps_removes) auto
  then have k: "keeps p dk dk2" using sh_keepsD [OF assms(1) sh] by (rule keeps_trans)
  have fst: "fst (vendorChart t rootDir appDir cfg dk) = dk2"
    by (auto simp: vendorChart_def sh Let_def split: option.split list.split read_result.split)
  show "keeps p dk (fst (vendorChart t rootDir appDir cfg dk))" unfolding fst by (rule k)
  show "has_suffix tgz ''.tgz''" if "vendorChart t rootDir appDir cfg dk = (dk1, Inr (tgz, sha))"
    using that globs [of dk2] unfolding vendorChart_def sh Let_def
    by (auto split: option.splits list.splits read_result.splits if_splits)
qed

lemma keeps_discoverImages: "sh_keeps t p \<Longrightarrow> keeps p dk (fst (discoverImages t rootDir name tgz dk))"
  by (auto simp: discoverImages_def split: prod.split option.split dest: sh_keepsD)

lemma keeps_add_mirrors: "sh_keeps t p \<Longrightarrow> keeps p dk (fst (add_mirrors t rootDir imgs txt n dk))"
proof (induction imgs arbitrary: "txt" n dk)
  case (Cons img imgs)
  then show ?case
    by (auto split: prod.split option.split bool.split dest: sh_keepsD intro: keeps_trans)
qed simp

lemma keeps_appendMirrors:
  assumes "sh_keeps t p" and "p \<noteq> fp_join [rootDir, mirrors_cue]"
  shows "keeps p dk (fst (appendMirrors t rootDir images dk))"
proof (cases "ReadFile_stamp rootDir mirrors_cue dk")
  case (Inr d)
  obtain dk1 r where run: "add_mirrors t rootDir images d 0 dk = (dk1, r)" by fastforce
  have k: "keeps p dk dk1" using keeps_add_mirrors [OF assms(1), of dk rootDir images d 0] by (simp add: run)
  show ?thesis
  proof (cases r)
    case (Inl e)
    then show ?thesis using k by (simp add: appendMirrors_def Inr run)
  next
    case res: (Inr x)
    obtain d' added where x: "x = (d', added)" by fastforce
    obtain dk2 u where up: "UpdateFile rootDir mirrors_cue d' dk1 = (dk2, u)" by fastforce
    obtain dk3 o' where sh: "t_sh t rootDir [''cue'', ''fmt'', mirrors_cue] dk2 = (dk3, o')" by fastforce
    have k2: "keeps p dk dk2"
      using keeps_trans [OF k] keeps_UpdateFile [OF assms(2), of dk1 d'] by (simp add: up)
    have "keeps p dk dk3"
      using keeps_trans [OF k2] sh_keepsD [OF assms(1) sh] by simp
    then show ?thesis
      using k k2 by (cases u; cases o') (simp_all add: appendMirrors_def Inr run res x up sh)
  qed
qed (simp add: appendMirrors_def)

lemma keeps_appendVersion:
  assumes "p \<noteq> fp_join [rootDir, versions_cue]"
  shows "keeps p dk (fst (appendVersion t rootDir cfg sha appVersion dk))"
  using keeps_UpdateFile [OF assms]
  by (auto simp: appendVersion_def Let_def split: sum.split prod.split bool.split) (metis fst_conv)+

lemma keeps_once:
  "keeps p dk (fst (appendApp t rootDir cfg dk))" "keeps p dk (fst (scaffoldAppCue t rootDir cfg images dk))"
  by (auto simp: appendApp_def scaffoldAppCue_def keeps_def stat_ok_def WriteFile_def Let_def split: option.split)

text \<open>The files in question, by their names.\<close>

lemma join_last: "xs \<noteq> [] \<Longrightarrow> \<exists>u. join sep xs = u @ last xs"
  by (induction sep xs rule: join.induct) auto

lemma last_of_join:
  assumes "plain_part (u @ [c])"
  shows "last (fp_join [d, u @ [c]]) = c"
proof -
  let ?p = "fp_join [d, u @ [c]]"
  obtain v where "join [slash] (split_on slash ?p) = v @ last (split_on slash ?p)"
    using join_last [of "split_on slash ?p" "[slash]"] split_on_not_Nil by blast
  then have "?p = v @ u @ [c]"
    using fp_join_last [OF assms, of d] by simp
  then show ?thesis by simp
qed

lemma fp_join_snoc:
  assumes "\<exists>x \<in> set xs. x \<noteq> ''''"
  shows "fp_join (xs @ [a]) = fp_join [join ''/'' (dropWhile (\<lambda>e. e = '''') xs), a]"
proof -
  obtain y ys where ys: "dropWhile (\<lambda>e. e = '''') xs = y # ys" "y \<noteq> ''''"
    using assms hd_dropWhile [of "\<lambda>e. e = ''''" xs] by (cases "dropWhile (\<lambda>e. e = '''') xs") auto
  obtain x where x: "x \<in> set xs" "x \<noteq> ''''" using assms by blast
  have "join ''/'' (y # ys) \<noteq> ''''" using ys(2) by (cases ys) auto
  moreover have snoc: "join ''/'' (zs @ [a]) = join ''/'' zs @ ''/'' @ a" if "zs \<noteq> []" for zs
    using that by (induction zs rule: list_nonempty_induct) (auto simp: join_Cons)
  moreover have "dropWhile (\<lambda>e. e = '''') (xs @ [a]) = (y # ys) @ [a]"
    using dropWhile_append1 [OF x(1), of "\<lambda>e. e = ''''" "[a]"] x(2) ys(1) by simp
  ultimately show ?thesis
    using snoc [of "y # ys"] unfolding fp_join_def ys(1) by simp
qed

definition apart :: "string \<Rightarrow> string \<Rightarrow> bool" where
  "apart rootDir p \<longleftrightarrow> \<not> has_suffix p ''.tgz'' \<and> p \<noteq> fp_join [rootDir, mirrors_cue] \<and> p \<noteq> fp_join [rootDir, versions_cue]"

lemma named_files_apart:
  assumes "plain_part a" and "last a = CHR ''e''" and "a \<noteq> ''mirrors.cue''" and "a \<noteq> ''versions.cue''"
  shows "apart rootDir (fp_join [d, a])"
proof -
  obtain u where u: "a = u @ [CHR ''e'']"
    using assms(1,2) by (cases a rule: rev_cases) (auto simp: plain_part_def)
  have "last (fp_join [d, a]) = CHR ''e''"
    using last_of_join [of u "CHR ''e''" d] assms(1) by (simp add: u)
  then have suf: "\<not> has_suffix (fp_join [d, a]) ''.tgz''" by (auto simp: has_suffix_iff)
  have m: "fp_join [rootDir, mirrors_cue] = fp_join [rootDir, ''kernel/catalog'', ''mirrors.cue'']"
    and v: "fp_join [rootDir, versions_cue] = fp_join [rootDir, ''kernel/schema'', ''versions.cue'']"
    by (simp_all add: mirrors_cue_def versions_cue_def fp_join_def)
  have "fp_base (fp_join [rootDir, mirrors_cue]) = ''mirrors.cue''" "fp_base (fp_join [rootDir, versions_cue]) = ''versions.cue''"
    unfolding m v by (simp_all add: fp_join3 fp_base_join plain_part_def)
  then show ?thesis
    using fp_base_join [OF assms(1), of d] assms(3,4) suf unfolding apart_def by metis
qed

lemma joined_apart:
  assumes "''tenant'' \<in> set xs" and "plain_part a" and "last a = CHR ''e''" and "a \<noteq> ''mirrors.cue''" and "a \<noteq> ''versions.cue''"
  shows "apart rootDir (fp_join (xs @ [a]))"
proof -
  have "\<exists>x \<in> set xs. x \<noteq> ''''" using assms(1) by auto
  then show ?thesis
    unfolding fp_join_snoc [OF \<open>\<exists>x \<in> set xs. x \<noteq> ''''\<close>] using named_files_apart [OF assms(2-5)] by simp
qed

lemma plain_name: "plain_part n \<Longrightarrow> slash \<notin> set n"
  by (simp add: plain_part_def)

lemma brick_shard_file:
  assumes "plain_part (hc_Name cfg)"
  shows "brick_file rootDir (''tenant/library/app/'' @ hc_Name cfg) = brick_shard rootDir cfg"
proof -
  have sp: "split_on slash (''tenant/library/app/'' @ hc_Name cfg) = [''tenant'', ''library'', ''app'', hc_Name cfg]"
  proof -
    have "''tenant/library/app/'' @ hc_Name cfg = ''tenant'' @ slash # ''library'' @ slash # ''app'' @ slash # hc_Name cfg"
      by simp
    then show ?thesis
      unfolding split_on_append_sep by (simp only: split_on_append_sep split_on_no_sep [OF plain_name [OF assms]])
        (simp add: split_on_no_sep)
  qed
  have dir: "brickCatalogDir (''tenant/library/app/'' @ hc_Name cfg) = ''tenant/library/catalog''"
    unfolding brickCatalogDir_def sp Let_def by simp code_simp
  have slug: "DefaultBrickSlug (''tenant/library/app/'' @ hc_Name cfg) = ''app--'' @ hc_Name cfg"
    unfolding DefaultBrickSlug_def sp Let_def by simp
  show ?thesis
    unfolding brick_file_def dir slug brick_shard_def
    using fp_join_snoc [of "[rootDir, ''tenant'', ''library'', ''catalog'']" "''brick-'' @ (''app--'' @ hc_Name cfg) @ ''.cue''"]
      fp_join_snoc [of "[rootDir, ''tenant/library/catalog'']" "''brick-'' @ (''app--'' @ hc_Name cfg) @ ''.cue''"]
    by (cases "rootDir = ''''") simp_all
qed

definition made_once :: "string \<Rightarrow> HelmAppConfig \<Rightarrow> string set" where
  "made_once rootDir cfg = {app_cue_path rootDir cfg, shard_path rootDir cfg, brick_shard rootDir cfg}"

lemma made_once_apart:
  assumes "p \<in> made_once rootDir cfg" and "plain_part (hc_Name cfg)"
  shows "apart rootDir p"
  using assms(1) unfolding made_once_def
proof (elim insertE emptyE)
  have n: "slash \<notin> set (hc_Name cfg)" by (rule plain_name [OF assms(2)])
  assume p: "p = app_cue_path rootDir cfg"
  show ?thesis
    using joined_apart [of "[rootDir, ''tenant'', ''library'', ''app'', hc_Name cfg]" "''app.cue''" rootDir]
    unfolding p app_cue_path_def by (simp add: plain_part_def)
next
  let ?a = "''apps-'' @ hc_Name cfg @ ''.cue''"
  assume p: "p = shard_path rootDir cfg"
  have pl: "plain_part ?a" using plain_name [OF assms(2)] by (simp add: plain_part_def)
  then have "plain_path ?a" using plain_path_part [of ?a] by (simp add: plain_part_def)
  then have "fp_join [''tenant'', ''library'', ''catalog'', ?a] = join ''/'' [''tenant'', ''library'', ''catalog'', ?a]"
    by (intro fp_join_plain) (simp_all add: plain_path_part plain_part_def)
  then have "p = fp_join [rootDir, ''tenant/library/catalog'', ?a]"
    unfolding p shard_path_def by (simp add: fp_join_def)
  then have "\<exists>d. p = fp_join [d, ?a]" using fp_join3 [of "''tenant/library/catalog''"] by auto
  then show ?thesis using named_files_apart [OF pl] by auto
next
  assume p: "p = brick_shard rootDir cfg"
  have "plain_part (''brick-app--'' @ hc_Name cfg @ ''.cue'')" using plain_name [OF assms(2)] by (simp add: plain_part_def)
  then show ?thesis
    using joined_apart [of "[rootDir, ''tenant'', ''library'', ''catalog'']" "''brick-app--'' @ hc_Name cfg @ ''.cue''" rootDir]
    unfolding p brick_shard_def by simp
qed

lemma keeps_stamp_brick:
  assumes "p \<in> made_once rootDir cfg" and "plain_part (hc_Name cfg)"
  shows "keeps p dk (fst (stamp_brick_once t rootDir cfg dk))"
proof (cases "stat_ok (brick_shard rootDir cfg) dk")
  case False
  let ?p = "''tenant/library/app/'' @ hc_Name cfg"
  have args: "stamp_args ''helm-app'' ?p = Inr (''kernel/interface/app'', ?p)"
    by (simp add: stamp_args_def InterfaceMap_def canonical_path_def goStampTypes_def get_or_def has_prefix_iff)
  obtain dk1 r where run: "StampBrick (t_print t) rootDir ''helm-app'' ?p (hc_Desc cfg) [] dk = (dk1, r)" by fastforce
  then have entry: "stamp_entry rootDir ?p (brick_file rootDir ?p) (brick_entry (t_print t) ''helm-app'' ''kernel/interface/app'' ?p
      (stamp_desc ?p (hc_Desc cfg)) (stamp_cfg ?p [])) dk = (dk1, r)"
    unfolding StampBrick_eq args by simp
  have "agree_on (- {brick_shard rootDir cfg}) (dk_fs dk1) (dk_fs dk)"
    using stamp_entry_fs(1) [OF entry] unfolding brick_shard_file [OF assms(2)] .
  then have "keeps p dk dk1"
    using False by (cases "p = brick_shard rootDir cfg") (auto simp: keeps_def agree_on_def stat_ok_def)
  moreover have "fst (stamp_brick_once t rootDir cfg dk) = dk1"
    unfolding stamp_brick_once_def run using False by (cases r) simp_all
  ultimately show ?thesis by simp
qed (simp add: stamp_brick_once_def)

lemma keeps_stamp_entries:
  assumes "plain_part (hc_Name cfg)" and "p \<in> made_once rootDir cfg" and "has_suffix tgz ''.tgz''"
  shows "keeps p dk (fst (stamp_entries t rootDir cfg tgz sha v images dk))"
proof -
  note apart = made_once_apart [OF assms(2,1), unfolded apart_def]
  then have "p \<noteq> tgz" using assms(3) by auto
  then have "keeps p dk8 (drop_tarball rootDir cfg tgz dk8)" for dk8
    by (simp add: drop_tarball_def keeps_remove)
  then show ?thesis
    unfolding stamp_entries_def using apart
    by (intro keeps_then_step keeps_appendVersion keeps_once keeps_stamp_brick [OF assms(2,1)]) simp_all
qed

lemma keeps_stamp_chart:
  assumes "plain_part (hc_Name cfg)" and "p \<in> made_once rootDir cfg" and "has_suffix tgz ''.tgz''" and "sh_keeps t p"
  shows "keeps p dk (fst (stamp_chart t rootDir cfg (tgz, sha) dk))"
proof -
  obtain dk2 o' where d: "discoverImages t rootDir (hc_Name cfg) tgz dk = (dk2, o')" by fastforce
  have k: "keeps p dk dk2" using keeps_discoverImages [OF assms(4), of dk rootDir "hc_Name cfg" tgz] by (simp add: d)
  have "p \<noteq> fp_join [rootDir, mirrors_cue]" using made_once_apart [OF assms(2,1)] by (simp add: apart_def)
  then have "keeps p dk2 (fst (then_step (appendMirrors t rootDir images dk2) (\<lambda>_. stamp_entries t rootDir cfg tgz sha v images)))" for v images
    by (intro keeps_then_step keeps_appendMirrors assms(4) keeps_stamp_entries [OF assms(1-3)])
  then show ?thesis
    using k keeps_trans [OF k] by (cases o') (simp_all add: stamp_chart_def Let_def d)
qed

text \<open>
  C27 (\<open>StampHelmApp\<close>). Whatever the stamp of an app answers, and however often it is run, it never
  changes the \<open>app.cue\<close>, the catalog shard or the brick entry of the app once they exist. This
  needs that the commands leave these files alone, and that \<open>filepath.Glob\<close> lists for a pattern that
  ends in \<open>.tgz\<close> only names that end so.
\<close>

theorem StampHelmApp_keeps:
  assumes "plain_part (hc_Name cfg)" and "p \<in> made_once rootDir cfg" and "sh_keeps t p"
    and "glob_tgz t (fp_join [rootDir, ''tenant'', ''library'', ''app'', hc_Name cfg])"
  shows "keeps p dk (fst (StampHelmApp t rootDir cfg dk))"
proof -
  define c where "c = (if hc_Desc cfg = '''' then cfg\<lparr>hc_Desc := hc_Name cfg\<rparr> else cfg)"
  have c: "hc_Name c = hc_Name cfg" by (simp add: c_def)
  have paths: "made_once rootDir c = made_once rootDir cfg"
    by (simp add: made_once_def app_cue_path_def shard_path_def brick_shard_def c)
  have ap: "\<not> has_suffix p ''.tgz''" using made_once_apart [OF assms(2,1)] by (simp add: apart_def)
  have inst: "plain_part (hc_Name c)" "p \<in> made_once rootDir c" using assms(1,2) by (simp_all add: c paths)
  let ?appDir = "fp_join [rootDir, ''tenant'', ''library'', ''app'', hc_Name c]"
  have glob: "glob_tgz t ?appDir" using assms(4) by (simp add: c)
  show ?thesis
  proof (cases "MkdirAll ?appDir dk")
    case (Some dk0)
    have k0: "keeps p dk dk0" using MkdirAll_fs [OF Some] by (simp add: keeps_def)
    have "keeps p dk0 (fst (then_step (vendorChart t rootDir ?appDir c dk0) (stamp_chart t rootDir c)))"
    proof (rule keeps_then_step)
      fix x dk1
      assume "vendorChart t rootDir ?appDir c dk0 = (dk1, Inr x)"
      then show "keeps p dk1 (fst (stamp_chart t rootDir c x dk1))"
        using keeps_vendorChart(2) [OF assms(3) glob ap] keeps_stamp_chart [OF inst _ assms(3)] by (cases x) blast
    qed (rule keeps_vendorChart(1) [OF assms(3) glob ap])
    from keeps_trans [OF k0 this] show ?thesis
      unfolding StampHelmApp_def c_def [symmetric] Let_def Some by simp
  qed (unfold StampHelmApp_def c_def [symmetric] Let_def, simp)
qed

definition sample_tools :: tools where
  "sample_tools = \<lparr>t_sh = sample_sh, t_glob = (\<lambda>_ _. [''r/tenant/library/app/x/c-1.tgz'']), t_readdir = (\<lambda>_ _. Some []),
     t_sha = (\<lambda>_. ''0''), t_untar = (\<lambda>_. []), t_print = (\<lambda>_. False)\<rparr>"

definition sample_cfg :: HelmAppConfig where
  "sample_cfg = \<lparr>hc_Name = ''x'', hc_ChartRepo = ''oci://h'', hc_ChartName = ''c'', hc_ChartVersion = ''1'', hc_Desc = ''d''\<rparr>"

definition app_disk :: disk where
  "app_disk = empty_disk\<lparr>dk_fs := (dk_fs empty_disk)\<lparr>fs_files :=
     [app_cue_path ''r'' sample_cfg \<mapsto> \<lparr>fl_data = ''edited'', fl_mtime = 0, fl_mode = 420\<rparr>]\<rparr>\<rparr>"

theorem StampHelmApp_keeps_witness:
  "file_data (dk_fs (fst (StampHelmApp sample_tools ''r'' sample_cfg app_disk))) (app_cue_path ''r'' sample_cfg) = Some ''edited''"
proof -
  let ?p = "app_cue_path ''r'' sample_cfg"
  have name: "plain_part (hc_Name sample_cfg)" by (simp add: sample_cfg_def plain_part_def)
  have p: "?p \<in> made_once ''r'' sample_cfg" by (simp add: made_once_def)
  have sh: "sh_keeps sample_tools ?p" by (simp add: sh_keeps_def sample_tools_def sample_sh_def)
  have "has_suffix ''r/tenant/library/app/x/c-1.tgz'' ''.tgz''" by code_simp
  then have "glob_tgz sample_tools (fp_join [''r'', ''tenant'', ''library'', ''app'', hc_Name sample_cfg])"
    by (simp add: glob_tgz_def sample_tools_def)
  from StampHelmApp_keeps [OF name p sh this, of app_disk] show ?thesis
    by (simp add: keeps_def app_disk_def file_data_def)
qed

section \<open>Mirrors that are added\<close>

text \<open>A text without a closing brace that occurs around one lies on one side of it.\<close>

lemma occurs_beside:
  assumes "a @ c # b = u @ k @ v" and "c \<notin> set k"
  shows "(\<exists>u' v'. a = u' @ k @ v') \<or> (\<exists>u' v'. b = u' @ k @ v')"
proof (cases "length u + length k \<le> length a")
  case True
  then have "a = u @ k @ take (length a - (length u + length k)) v"
    using arg_cong [OF assms(1), of "take (length a)"] by simp
  then show ?thesis by blast
next
  case False
  show ?thesis
  proof (cases "length a < length u")
    case True
    then have "b = drop (length a + 1) u @ k @ v"
      using arg_cong [OF assms(1), of "drop (length a + 1)"] by simp
    then show ?thesis by blast
  next
    case long: False
    have "length a - length u < length k" using long False by arith
    then have "(u @ k @ v) ! length a \<in> set k"
      using long by (simp add: nth_append)
    moreover have "(u @ k @ v) ! length a = c"
      unfolding assms(1) [symmetric] by simp
    ultimately show ?thesis using assms(2) by simp
  qed
qed

lemma EntryExists_insert:
  assumes "EntryExists (a @ rbrace # b) k" and "rbrace \<notin> set k"
  shows "EntryExists (a @ x @ rbrace # b) k"
proof -
  obtain u v where "a @ rbrace # b = u @ k @ v" using assms(1) by (auto simp: EntryExists_iff)
  from occurs_beside [OF this assms(2)] show ?thesis
  proof (elim disjE exE)
    fix u' v' assume "a = u' @ k @ v'"
    then have "a @ x @ rbrace # b = u' @ k @ (v' @ x @ rbrace # b)" by simp
    then show ?thesis unfolding EntryExists_iff by blast
  next
    fix u' v' assume "b = u' @ k @ v'"
    then have "a @ x @ rbrace # b = (a @ x @ rbrace # u') @ k @ v'" by simp
    then show ?thesis unfolding EntryExists_iff by blast
  qed
qed

lemma new_mirror_has_key: "EntryExists (a @ new_mirror is_print img d @ b) (Quote is_print (Key img))"
proof -
  have "a @ new_mirror is_print img d @ b =
      (a @ [newline, tab]) @ Quote is_print (Key img) @ (drop (2 + length (Quote is_print (Key img))) (new_mirror is_print img d) @ b)"
    by (simp add: new_mirror_def)
  then show ?thesis unfolding EntryExists_iff by blast
qed

lemma add_mirrors_text:
  assumes "rbrace \<notin> set b" and "\<forall>img \<in> set imgs. rbrace \<notin> set (Quote (t_print t) (Key img))"
    and "add_mirrors t rootDir imgs (a @ rbrace # b) n dk = (dk', Inr (txt', k))"
  shows "(\<exists>es. txt' = a @ concat es @ rbrace # b \<and> k = n + length es \<and>
      (\<forall>e \<in> set es. \<exists>img \<in> set imgs. \<exists>dk1 dk2 d. e = new_mirror (t_print t) img d \<and>
         t_sh t rootDir [''crane'', ''digest'', Key img] dk1 = (dk2, Some d) \<and> 19 \<le> length d)) \<and>
    (\<forall>img \<in> set imgs. EntryExists txt' (Quote (t_print t) (Key img)))"
  using assms(2,3)
proof (induction imgs arbitrary: a n dk)
  case Nil
  then show ?case by (auto intro!: exI [of _ "[]"])
next
  case (Cons img imgs)
  let ?txt = "a @ rbrace # b"
  have keep: "EntryExists (a @ concat es @ rbrace # b) (Quote (t_print t) (Key img))" if "EntryExists ?txt (Quote (t_print t) (Key img))" for es
    using EntryExists_insert [OF that] Cons.prems(1) by simp
  show ?case
  proof (cases "EntryExists ?txt (Quote (t_print t) (Key img))")
    case True
    then have "add_mirrors t rootDir imgs ?txt n dk = (dk', Inr (txt', k))" using Cons.prems(2) by simp
    from Cons.IH [OF _ this] Cons.prems(1) show ?thesis using keep [OF True] by auto
  next
    case False
    obtain dk1 r where sh: "t_sh t rootDir [''crane'', ''digest'', Key img] dk = (dk1, r)" by fastforce
    then obtain d where d: "r = Some d" "19 \<le> length d"
      "add_mirrors t rootDir imgs ((a @ new_mirror (t_print t) img d) @ rbrace # b) (n + 1) dk1 = (dk', Inr (txt', k))"
      using Cons.prems(2) False
      by (cases r) (auto simp: InsertBeforeLastBrace_split [OF assms(1)] not_less split: if_splits)
    obtain es where es: "txt' = (a @ new_mirror (t_print t) img d) @ concat es @ rbrace # b" "k = n + 1 + length es"
      "\<forall>e \<in> set es. \<exists>img \<in> set imgs. \<exists>dk1 dk2 d. e = new_mirror (t_print t) img d \<and>
         t_sh t rootDir [''crane'', ''digest'', Key img] dk1 = (dk2, Some d) \<and> 19 \<le> length d"
      and rest: "\<forall>img \<in> set imgs. EntryExists txt' (Quote (t_print t) (Key img))"
      using Cons.IH [OF _ d(3)] Cons.prems(1) by auto
    have "EntryExists txt' (Quote (t_print t) (Key img))"
      using new_mirror_has_key [of a "t_print t" img d "concat es @ rbrace # b"] by (simp add: es(1))
    moreover have "txt' = a @ concat (new_mirror (t_print t) img d # es) @ rbrace # b \<and>
        k = n + length (new_mirror (t_print t) img d # es)"
      using es(1,2) by simp
    ultimately show ?thesis
      using rest es(3) sh d(1,2) by (intro conjI exI [of _ "new_mirror (t_print t) img d # es"]) auto
  qed
qed

lemma add_mirrors_nothing:
  "\<forall>img \<in> set imgs. EntryExists d (Quote (t_print t) (Key img)) \<Longrightarrow> add_mirrors t rootDir imgs d n dk = (dk, Inr (d, n))"
  by (induction imgs) auto

text \<open>
  C28 (\<open>appendMirrors\<close>). When the loop over the images succeeds on a catalog with a closing brace,
  the new text is the old one with whole entries of images, each with the digest that was
  resolved for it, put before the last brace; afterwards the key of every image is there, and the
  same images add nothing more.
\<close>

theorem add_mirrors_adds:
  assumes "rbrace \<notin> set b" and "\<forall>img \<in> set imgs. rbrace \<notin> set (Quote (t_print t) (Key img))"
    and "add_mirrors t rootDir imgs (a @ rbrace # b) n dk = (dk', Inr (txt', k))"
  shows "(\<exists>es. txt' = a @ concat es @ rbrace # b \<and> k = n + length es \<and>
      (\<forall>e \<in> set es. \<exists>img \<in> set imgs. \<exists>dk1 dk2 d. e = new_mirror (t_print t) img d \<and>
         t_sh t rootDir [''crane'', ''digest'', Key img] dk1 = (dk2, Some d) \<and> 19 \<le> length d)) \<and>
    (\<forall>img \<in> set imgs. EntryExists txt' (Quote (t_print t) (Key img))) \<and>
    add_mirrors t rootDir imgs txt' 0 dk0 = (dk0, Inr (txt', 0))"
  using add_mirrors_text [OF assms] add_mirrors_nothing [of imgs txt' t rootDir 0 dk0] by blast

theorem add_mirrors_adds_witness:
  "add_mirrors sample_tools ''r'' [\<lparr>im_Source = ''s'', im_Tag = ''1''\<rparr>] (new_mirror (\<lambda>_. False) \<lparr>im_Source = ''s'', im_Tag = ''1''\<rparr> sample_digest @ [rbrace]) 0 app_disk =
     (app_disk, Inr (new_mirror (\<lambda>_. False) \<lparr>im_Source = ''s'', im_Tag = ''1''\<rparr> sample_digest @ [rbrace], 0))"
proof -
  let ?i = "\<lparr>im_Source = ''s'', im_Tag = ''1''\<rparr>"
  have q: "Quote (\<lambda>_. False) (Key ?i) = quoted ''s:1''"
    using no_escape_quote(1) [of "\<lambda>_. False" "''s:1''"] by (simp add: Key_def no_escape_def runes_ascii byte_def)
  have keys: "\<forall>img \<in> set [?i]. rbrace \<notin> set (Quote (t_print sample_tools) (Key img))"
    by (simp add: sample_tools_def q) (simp add: quoted_def)
  have run: "add_mirrors sample_tools ''r'' [?i] ([] @ rbrace # []) 0 app_disk =
      (app_disk, Inr (new_mirror (\<lambda>_. False) ?i sample_digest @ [rbrace], 1))"
  proof -
    have ne: "\<not> EntryExists [rbrace] (quoted ''s:1'')" by code_simp
    have ins: "InsertBeforeLastBrace [rbrace] e = (e @ [rbrace], True)" for e
      using InsertBeforeLastBrace_split [of "[]" "[]"] by simp
    have len: "length sample_digest = 19" by (simp add: sample_digest_def)
    show ?thesis
      by (simp add: sample_tools_def q ne ins len sample_sh_def)
  qed
  have "rbrace \<notin> set []" by simp
  from add_mirrors_adds [OF this keys run, of app_disk] show ?thesis by blast
qed

section \<open>Fields of a version entry\<close>



text \<open>A line of another field.\<close>

definition off :: "string \<Rightarrow> string \<Rightarrow> bool" where
  "off n l \<longleftrightarrow> newline \<notin> set l \<and> dropWhile re_space l \<noteq> [] \<and> \<not> has_prefix (dropWhile re_space l) n"











section \<open>A stamp of another version\<close>






lemma off_field: "newline \<notin> set x \<Longrightarrow> \<not> re_space d \<Longrightarrow> \<not> has_prefix (d # x) n \<Longrightarrow> off n ([tab, tab] @ d # x)"
  by (auto simp: off_def re_space_def)







text \<open>A registry with a port: the reference is split at the first colon.\<close>

lemma helm_parseImageRef_port: "parseImageRef ''reg:5000/app:1'' = (''reg'', ''5000/app:1'')"
  by code_simp

section \<open>The images found\<close>

definition tag_ok :: "imageRef \<Rightarrow> bool" where
  "tag_ok i \<longleftrightarrow> im_Tag i \<noteq> '''' \<and> im_Tag i \<noteq> ''latest''"

definition imgs_ok :: "imageRef list \<Rightarrow> bool" where
  "imgs_ok images \<longleftrightarrow> distinct (map Key images) \<and> list_all tag_ok images"

lemma imgs_ok_snoc: "imgs_ok images \<Longrightarrow> tag_ok img \<Longrightarrow> Key img \<notin> Key ` set images \<Longrightarrow> imgs_ok (images @ [img])"
  by (simp add: imgs_ok_def)

lemma parseImageRef_tag:
  assumes "parseImageRef ref = (source, tag)"
  shows "tag \<noteq> ''latest''"
proof
  assume "tag = ''latest''"
  with assms show False
    unfolding parseImageRef_def Let_def by (simp split: if_splits)
qed

lemma scan_images_ok: "imgs_ok images \<Longrightarrow> imgs_ok (scan_images ls images)"
proof (induction ls arbitrary: images)
  case (Cons line ls)
  show ?case
  proof (cases "first_value False (lit ''image:'') (trim_space line)")
    case (Some ref)
    obtain source tag where st: "parseImageRef ref = (source, tag)" by fastforce
    let ?img = "\<lparr>im_Source = source, im_Tag = tag\<rparr>"
    show ?thesis
    proof (cases "EntryExists ref ''busybox'' \<or> source = [] \<or> tag = [] \<or> Key ?img \<in> Key ` set images")
      case True
      then have "scan_images (line # ls) images = scan_images ls images" by (auto simp: Some st Let_def)
      then show ?thesis using Cons by simp
    next
      case False
      then have "scan_images (line # ls) images = scan_images ls (images @ [?img])" by (simp add: Some st Let_def)
      moreover have "tag_ok ?img" using False parseImageRef_tag [OF st] unfolding tag_ok_def by simp
      ultimately show ?thesis
        using Cons.IH [OF imgs_ok_snoc [OF Cons.prems]] False by simp
    qed
  qed (use Cons in simp)
qed simp

lemma scan_values_ok: "imgs_ok images \<Longrightarrow> imgs_ok (scan_values ls images)"
proof (induction ls arbitrary: images)
  case (Cons line ls)
  show ?case
  proof (cases "first_value True (field_prefix ''repository'') line")
    case (Some repo)
    define tag where "tag = (case first_some (first_value True (field_prefix ''tag'')) (take 5 ls) of None \<Rightarrow> '''' | Some t \<Rightarrow> t)"
    let ?img = "\<lparr>im_Source = repo, im_Tag = tag\<rparr>"
    have step: "scan_values (line # ls) images =
        (if tag_ok ?img \<and> \<not> has_prefix (trim_space line) ''#'' \<and> Key ?img \<notin> Key ` set images then scan_values ls (images @ [?img])
         else scan_values ls images)"
      unfolding scan_values.simps Some option.case tag_def [symmetric] Let_def tag_ok_def by simp
    show ?thesis
      unfolding step using Cons.IH [OF imgs_ok_snoc [OF Cons.prems]] Cons.IH [OF Cons.prems] by simp
  qed (use Cons in simp)
qed simp

text \<open>
  \<open>discoverImages\<close>: The images of a chart come without repetition, sorted by their keys, so that
  the order does not depend on the unstable \<open>sort.Slice\<close>: any list of the same images that is
  sorted by key is the same list. No image has an empty tag or the tag \<open>latest\<close>.
\<close>

theorem discoverImages_canonical:
  assumes "discoverImages t rootDir name tgz dk = (dk', Some images)"
  shows "sorted (map Key images) \<and> distinct (map Key images) \<and>
    list_all tag_ok images \<and>
    (mset xs = mset images \<and> sorted (map Key xs) \<longleftrightarrow> xs = images)"
proof -
  have ok: "imgs_ok (scan_images ls [])" "imgs_ok (scan_values ls [])" for ls
    by (rule scan_images_ok scan_values_ok, simp add: imgs_ok_def)+
  obtain raw where raw: "images = sort_key Key raw" "imgs_ok raw"
  proof (cases "t_sh t rootDir [''helm'', ''template'', name, tgz] dk")
    case (Pair dk1 o')
    then show ?thesis
      using assms ok that
      by (cases o') (auto simp: discoverImages_def discoverImagesFromValues_def parseValuesForImages_def)
  qed
  have d: "distinct (map Key images)" using raw unfolding imgs_ok_def by (metis mset_map mset_sort mset_eq_imp_distinct_iff)
  have s: "sorted (map Key images)" by (simp add: raw(1))
  have "xs = images" if "mset xs = mset images" "sorted (map Key xs)"
  proof -
    have dx: "distinct (map Key xs)" using d that(1) by (metis mset_map mset_eq_imp_distinct_iff)
    have "map Key xs = map Key images"
      using that s d dx by (metis mset_map mset_eq_setD sorted_distinct_set_unique)
    moreover have "inj_on Key (set xs \<union> set images)"
      using d that(1) by (metis distinct_map mset_eq_setD sup_idem)
    ultimately show ?thesis by (metis map_inj_on)
  qed
  then show ?thesis
    using s d raw by (auto simp: list_all_iff imgs_ok_def)
qed

theorem discoverImages_canonical_witness:
  "\<exists>dk' images. discoverImages (sample_tools\<lparr>t_sh := \<lambda>_ _ dk. (dk, Some ''image: a:1'')\<rparr>) ''r'' ''x'' ''c.tgz'' app_disk = (dk', Some images) \<and>
     sorted (map Key images)"
proof -
  obtain dk' images where run: "discoverImages (sample_tools\<lparr>t_sh := \<lambda>_ _ dk. (dk, Some ''image: a:1'')\<rparr>) ''r'' ''x'' ''c.tgz'' app_disk = (dk', Some images)"
    by (simp add: discoverImages_def)
  from discoverImages_canonical [OF this] run show ?thesis by blast
qed

end
