(* ===== verification/Spec2Isabelle.thy ===== *)
theory Spec2Isabelle
  imports Dispatch BrickCollision SpecTree TenantStamp Validate CrossTenant Service Skill HelmApp
begin

text \<open>
  A verification library for the Go code of the \<open>defn\<close> tool, the part of the repository under
  \<open>src/m/tenant/library/go\<close> (paths below are relative to it).

  \<^bold>\<open>The program.\<close> A workspace is a forest of bricks, directories that a catalog registers with their
  reads and writes. The tool generates files from the catalog, keeps a lattice (a JSON description
  of the workspace, stored in shards) and brings the workspace to an equilibrium:

  \<^item> the \<^emph>\<open>workspace cycle\<close> (\<open>lib/hatch/hatch.go\<close>) repeats generation, build and sync until a pass
    changes nothing or a bound is reached;
  \<^item> the \<^emph>\<open>per-brick cycle\<close> (\<open>lib/hatch/brick.go\<close>, \<open>gensubset.go\<close>) does the same for one brick with the
    generators that claim its paths, and refuses when a sibling that completed in the meantime
    wrote what the brick reads;
  \<^item> the \<^emph>\<open>dispatch coordinator\<close> (\<open>lib/dispatch\<close>) partitions the bricks, runs a per-brick cycle or an
    agent for each in its own goroutine and worktree, and merges what the agents wrote in their
    lanes;
  \<^item> the \<^emph>\<open>generators and stamps\<close> (\<open>lib/gen\<close>, \<open>lib/stamp\<close>, \<open>lib/brickpkg\<close>) write catalog entries, worker
    files and the lattice;
  \<^item> the \<^emph>\<open>checks\<close> (\<open>lib/spec\<close>, \<open>lib/gen/validate\<close>) compare the catalog with the disk.

  \<^bold>\<open>Go in the model.\<close> Strings are byte lists (\<open>GoBase\<close>, with \<open>strings\<close>, \<open>sort\<close> and the runes of \<open>range\<close>).
  A Go map is an association list with distinct keys whose order is one order of \<open>range\<close>; results
  that must not depend on it are proved for every permutation. \<open>GoPath\<close> is \<open>path/filepath\<close> and the
  ancestor relation of paths, \<open>GoMatch\<close> is \<open>filepath.Match\<close>, \<open>GoFmt\<close> the conversions, \<open>GoFS\<close> a file
  system with contents, modification times, permission bits and paths on which reads or writes
  fail; \<open>Stamp\<close> adds directories. Errors are values of sum or option types with a constructor for
  each early return. Regular expressions are matched by hand, or, where they are sequences of
  characters, classes and repetitions, by the backtracking matcher of \<open>GoRe\<close>, which is proved sound
  and complete for them. Loops are structural recursion or
  functions with a termination proof; the cycles run on the bound of the code
  (\<open>resolveMaxCycleIterations\<close>, between 1 and the ceiling of the source), no other fuel is used.
  Goroutines are step relations: a step is one channel or mutex operation, one access to the shared
  plan, or one call of a subprocess or of the protocol library, so every schedule of them is
  covered; inside a call the other goroutines do not run.

  \<^bold>\<open>Interfaces.\<close> \<open>ancestry\<close> and \<open>forest\<close> (\<open>GoPath\<close>): climbing to an unmarked ancestor, interpreted on
  paths and on the bricks of a partition. \<open>bounded_loop\<close> (\<open>BoundedLoop\<close>): a loop that stops at a fixed
  point or a bound, interpreted on both cycles. \<open>writer_family\<close> (\<open>GoFS\<close>): writers whose pass is
  idempotent, interpreted on \<open>WriteIfChanged\<close> and \<open>syncFile\<close>. \<open>commuting_fold\<close> (\<open>LatticeShards\<close>): a fold
  whose order does not matter, interpreted on grafting shards and on building the file tree.
  \<open>ranked_system\<close> and \<open>refining_system\<close> (\<open>StepSystem\<close>): termination without deadlock and refinement,
  interpreted on the fan-out of a dispatch round and on the service goroutine.

  \<^bold>\<open>Dispatch and cycles.\<close>
  \<^item> \<open>Bricks\<close>, \<open>Partition\<close>, \<open>Plan\<close> (\<open>lib/hatch/brick.go\<close>, \<open>lib/dispatch/partition.go\<close>, \<open>plan.go\<close>): the index of
    bricks, the split into shared bricks and groups, the bricks that work on a target involves.
    Every brick is placed once; two bricks share a group exactly when no shared brick separates
    them; the plan is exactly the overlapping bricks.
  \<^item> \<open>BrickReads\<close>, \<open>BrickCollision\<close> (\<open>lib/spec\<close>): staleness of reads and collisions of writes. Both reports
    are exactly the pairs of the specification, and an empty collision report means that the
    claims of unrelated bricks are disjoint.
  \<^item> \<open>HatchCycle\<close>, \<open>HatchBrick\<close>, \<open>Snapshot\<close>, \<open>Parallel\<close> (\<open>lib/hatch\<close>, \<open>lib/gen/gen.go\<close>): success of a cycle means a
    pass without change within the bound; a brick is blocked exactly when the snapshot holds a
    write it reads; the status of a brick is characterised on every branch; the worker pool returns
    the error of the first failed item under every schedule.
  \<^item> \<open>FanOut\<close>, \<open>Dispatch\<close> (\<open>lib/dispatch/dispatch.go\<close>): \<open>gor_step\<close> is the body of the goroutine of a brick,
    at most eight steps long. The fan-out refines the plain round in which waiting bricks get their
    outcomes one by one, never deadlocks and never exceeds the pool; the exit code, the counts, the
    teardown of worktrees and the blocking of later bricks follow from it.
  \<^item> \<open>Lane\<close>, \<open>Acp\<close> (\<open>worktree.go\<close>, \<open>coordmerge.go\<close>, \<open>agent.go\<close>, \<open>acp.go\<close>, \<open>lib/runner\<close>): only paths in the lane of
    a brick are merged; a file access of an agent passes the fence exactly when its resolved path
    is in the worktree.

  \<^bold>\<open>The lattice.\<close> \<open>Json\<close>, \<open>LatticeShards\<close>, \<open>LatticeStore\<close>, \<open>SpecTree\<close> (\<open>lib/gen/lattice\<close>, \<open>lib/gen/speclattice\<close>,
  \<open>lib/spec/spec.go\<close>): the tree of tracked files, its split into shards, the files and index that are
  written, and the reader. Merging the shards of a run gives the bytes of the lattice back; a
  second run writes nothing; a shard that was changed is rejected; looking up and globbing paths
  agrees with the tracked files.

  \<^bold>\<open>Generators, stamps and checks.\<close>
  \<^item> \<open>Gen\<close> (\<open>lib/gen/gen.go\<close>, \<open>exec.go\<close>, \<open>buildsync\<close>): slugs, the CUE overlay, writers that keep
    modification times.
  \<^item> \<open>BrickPkg\<close> (\<open>lib/brickpkg/brickpkg.go\<close>): the package name of a brick, always an identifier and
    independent of worker files, and the reader of worker lists.
  \<^item> \<open>Stamp\<close>, \<open>TenantStamp\<close> (\<open>lib/stamp/stamp.go\<close>): catalog entries and the files of a tenant. Stamps are
    idempotent and confined to their file, a tenant stamp never changes an existing file, and the
    lists of an entry read back as given exactly when no string needs an escape (\<open>quote_rune\<close> is the
    quotation of \<open>%q\<close>).
  \<^item> \<open>Mirror\<close> (\<open>lib/stamp/catalog.go\<close>, \<open>mirror.go\<close>): edits of shared catalog files. A bump of an image
    replaces its whole entry or removes it, and touches nothing else.
  \<^item> \<open>Skill\<close> (\<open>lib/stamp/skill.go\<close>): the catalog of skills is read with regular expressions and written
    again; this implements the update of a table, and an existing \<open>SKILL.md\<close> is never changed.
  \<^item> \<open>HelmApp\<close> (\<open>lib/stamp/helmapp.go\<close>): the stamp of a chart. Images are found in a canonical order, their
    mirrors are added once, a later stamp rewrites exactly the two version fields, and the files that
    an operator edits are made once.
  \<^item> \<open>Workers\<close> (\<open>lib/gen/dispatchworker\<close>, \<open>lib/gen/restamp\<close>): the two generators composed. The first resets
    every worker file, so the second registers every brick with empty lists.
  \<^item> \<open>Validate\<close> (\<open>lib/gen/validate\<close>), \<open>CrossTenant\<close> (\<open>lib/spec/crosstenantlit\<close>): each check passes exactly when
    its specification holds, and a violation of the second is a real occurrence charged to its
    owner.
  \<^item> \<open>Service\<close> (\<open>lib/cli\<close>): the one-shot latch and the goroutine that runs the service of a command; what
    \<open>WaitForDone\<close> can report, and that the goroutine ends.

  \<^bold>\<open>Parameters.\<close> CUE and JSON codecs, gzip and SHA-256 (fields of \<open>codec\<close>, with the laws that decoding
  inverts encoding stated where they are used), subprocesses such as \<open>git\<close>, \<open>mise\<close>, \<open>bazel\<close>, \<open>helm\<close>
  and \<open>crane\<close> (functions of the world or of the disk), the protocol library, \<open>filepath.EvalSymlinks\<close> and \<open>filepath.Glob\<close>, the contracts that
  generators claim, and the table of printable characters beyond ASCII.

  \<^bold>\<open>Not modelled.\<close> \<open>cmd/bootstrap\<close> (copies embedded files), the template generators under \<open>lib/gen\<close>
  (\<open>app\<close>, \<open>golib\<close>, \<open>infra\<close>, \<open>k3d\<close>, \<open>seed\<close> and others: their content is CUE evaluation), the midas
  stamp (scaffolding of a new interface, nearly all template text), the command wiring under \<open>cmd\<close>, terminal and log text, elapsed times and the
  floating-point sum of costs. The programs under \<open>src/m/v\<close> are vendored clones that the tool does
  not call.
\<close>

end
